(* ===== verification/Prelude.thy ===== *)
theory Prelude
  imports Main "HOL-Library.Word"
begin

text \<open>
  The prelude of the development: the machine integer types of \<^verbatim>\<open>types.h\<close>, the lemma
  collections the component theories fill and use, and generic facts on words, lists and
  functions that several components need.

  \<^item> \<open>exec_simps\<close> collects execution equations: what an operation of the kernel monad
    does to a state that meets its precondition.
  \<^item> \<open>frame_simps\<close> collects equations saying which part of the kernel an operation
    leaves alone.
  \<^item> \<open>keeps_intros\<close> collects the introduction rules of the invariant calculus.
\<close>

unbundle bit_operations_syntax

named_theorems exec_simps
named_theorems frame_simps
named_theorems keeps_intros

type_synonym u8 = "8 word"
type_synonym u16 = "16 word"
type_synonym u32 = "32 word"

text \<open>The C constant -1 as a 32-bit value, the error return of most kernel functions.\<close>

abbreviation minus1 :: u32 where
  "minus1 \<equiv> - 1"

section \<open>Functions as arrays\<close>

lemma fun_upd_same_val [simp]: "f x = y \<Longrightarrow> f(x := y) = f"
  by (rule fun_upd_idem)

section \<open>Addresses near a base\<close>

text \<open>
  Two offsets from the same base are different addresses as long as they are different
  below \<open>2 ^ 32\<close>; most disjointness arguments about memory reduce to this.
\<close>

lemma of_nat_u32_inject:
  "i < 2 ^ 32 \<Longrightarrow> j < 2 ^ 32 \<Longrightarrow> (of_nat i = (of_nat j :: u32)) \<longleftrightarrow> i = j"
  by (auto simp: word_unat_eq_iff unat_of_nat)

lemma unat_lt_u32: "unat (x :: u32) < 2 ^ 32"
  using unsigned_less [where ?'a = nat, of x] by simp

section \<open>Signed values\<close>

text \<open>A 32-bit value read as a C \<open>int\<close>.\<close>

lemma mod_wrap_u32:
  assumes "n < 2 ^ 32"
  shows "(int n + 2 ^ 31) mod 2 ^ 32 = (if n < 2 ^ 31 then int n + 2 ^ 31 else int n - 2 ^ 31)"
proof (cases "n < 2 ^ 31")
  case False
  have "(int n + 2 ^ 31) mod 2 ^ 32 = (int n - 2 ^ 31 + 2 ^ 32) mod 2 ^ 32" by (simp add: add.commute)
  also have "\<dots> = int n - 2 ^ 31"
    unfolding mod_add_self2 using False assms by (intro mod_pos_pos_trivial) auto
  finally show ?thesis using False by simp
qed simp

lemma sint_u32: "sint (x :: u32) = (if unat x < 2 ^ 31 then int (unat x) else int (unat x) - 2 ^ 32)"
proof -
  have "sint x = (int (unat x) + 2 ^ 31) mod 2 ^ 32 - 2 ^ 31"
    using int_word_sint [where 'a = 32, of "uint x"] by simp
  then show ?thesis
    unfolding mod_wrap_u32 [OF unat_lt_u32] by auto
qed

lemma signed_nat:
  assumes "n < 2 ^ 32" and "v = (if n < 2 ^ 31 then int n else int n - 2 ^ 32)"
  shows "v < 0 \<longleftrightarrow> 2 ^ 31 \<le> n" and "v < 0 \<Longrightarrow> nat \<bar>v\<bar> = 2 ^ 32 - n" and "\<not> v < 0 \<Longrightarrow> nat \<bar>v\<bar> = n"
  using assms by (auto simp: nat_diff_distrib split: if_splits)

lemmas sint_neg_u32 = signed_nat(1) [OF unat_lt_u32 sint_u32]
  and nat_abs_sint_neg = signed_nat(2) [OF unat_lt_u32 sint_u32]
  and nat_abs_sint_pos = signed_nat(3) [OF unat_lt_u32 sint_u32]

lemma unat_uminus_u32:
  assumes "x \<noteq> 0"
  shows "unat (- x :: u32) = 2 ^ 32 - unat x"
proof -
  have "0 < unat x" using assms by (simp add: unat_gt_0)
  then show ?thesis
    using unat_sub_if_size [of 0 x] by (simp add: word_size)
qed

lemma unat_abs_u32: "sint (x :: u32) < 0 \<Longrightarrow> unat (- x) = nat \<bar>sint x\<bar>"
  using nat_abs_sint_neg [of x] by (cases "x = 0") (simp_all only: unat_uminus_u32 not_False_eq_True sint_0)

section \<open>Ring buffers\<close>

text \<open>Fewer counter values than there are slots have different slots.\<close>

lemma ring_slot_inj:
  fixes m :: nat
  assumes "i \<le> n" "n < m"
  shows "(a + i) mod m = (a + n) mod m \<longleftrightarrow> i = n"
proof
  assume "(a + i) mod m = (a + n) mod m"
  then have "m dvd (a + n) - (a + i)" using assms(1) by (metis add_le_cancel_left mod_eq_dvd_iff_nat)
  then have "m dvd n - i" by simp
  then show "i = n" using assms by (meson diff_is_0_eq dvd_imp_le le_antisym less_imp_diff_less linorder_not_less zero_less_diff)
qed simp

end
