(* ===== verification/Kernel_State.thy ===== *)
theory Kernel_State
  imports Prelude
begin

text \<open>
  The data the kernel keeps, as the headers declare it (\<^verbatim>\<open>param.h\<close>, \<^verbatim>\<open>types.h\<close>,
  \<^verbatim>\<open>proc.h\<close>, \<^verbatim>\<open>spinlock.h\<close>, \<^verbatim>\<open>sleeplock.h\<close>, \<^verbatim>\<open>buf.h\<close>, \<^verbatim>\<open>fs.h\<close>,
  \<^verbatim>\<open>file.h\<close>, \<^verbatim>\<open>x86.h\<close>), and the kernel record that gathers the globals of the C files.

  Conventions. A pointer to an element of a fixed table (a process, a CPU, a buffer, an
  inode, an open file) is its index, a nullable one an index option. A C array of fixed
  length is a function from indices; the code only uses indices below the array's length.
  A lock embedded in a structure is an entry of the map \<open>locks\<close> or \<open>slocks\<close> under a
  name that stands for its address. Byte blocks (disk blocks, names) are lists of bytes.
\<close>

section \<open>Parameters (param.h, types.h, fs.h, traps.h)\<close>

abbreviation (input) NPROC :: nat where "NPROC \<equiv> 64"
abbreviation (input) NCPU :: nat where "NCPU \<equiv> 8"
abbreviation (input) NOFILE :: nat where "NOFILE \<equiv> 16"
abbreviation (input) NFILE :: nat where "NFILE \<equiv> 100"
abbreviation (input) NINODE :: nat where "NINODE \<equiv> 50"
abbreviation (input) NDEV :: nat where "NDEV \<equiv> 10"
abbreviation (input) NBUF :: nat where "NBUF \<equiv> 30"
abbreviation (input) LOGSIZE :: nat where "LOGSIZE \<equiv> 30"
abbreviation (input) MAXOPBLOCKS :: nat where "MAXOPBLOCKS \<equiv> 10"
abbreviation (input) MAXARG :: nat where "MAXARG \<equiv> 32"
abbreviation (input) FSSIZE :: nat where "FSSIZE \<equiv> 1000"
abbreviation (input) BSIZE :: nat where "BSIZE \<equiv> 512"
abbreviation (input) DIRSIZ :: nat where "DIRSIZ \<equiv> 14"
abbreviation (input) NDIRECT :: nat where "NDIRECT \<equiv> 12"
abbreviation (input) NINDIRECT :: nat where "NINDIRECT \<equiv> 128"
abbreviation (input) PIPESIZE :: nat where "PIPESIZE \<equiv> 512"
abbreviation (input) INPUT_BUF :: nat where "INPUT_BUF \<equiv> 128"
abbreviation (input) KSTACKSIZE :: u32 where "KSTACKSIZE \<equiv> 4096"
abbreviation (input) ROOTDEV :: u32 where "ROOTDEV \<equiv> 1"
abbreviation (input) ROOTINO :: u32 where "ROOTINO \<equiv> 1"
abbreviation (input) SIGNAL_HANDLERS_SIZE :: nat where "SIGNAL_HANDLERS_SIZE \<equiv> 32"
abbreviation (input) SIG_DFL :: u32 where "SIG_DFL \<equiv> 0"
abbreviation (input) SIG_IGN :: u32 where "SIG_IGN \<equiv> 1"
abbreviation (input) SIGKILL :: nat where "SIGKILL \<equiv> 9"
abbreviation (input) SIGSTOP :: nat where "SIGSTOP \<equiv> 17"
abbreviation (input) SIGCONT :: nat where "SIGCONT \<equiv> 19"
abbreviation (input) DPL_USER :: u16 where "DPL_USER \<equiv> 3"
abbreviation (input) T_SYSCALL :: u32 where "T_SYSCALL \<equiv> 64"
abbreviation (input) T_IRQ0 :: u32 where "T_IRQ0 \<equiv> 32"
abbreviation (input) B_VALID :: u32 where "B_VALID \<equiv> 2"
abbreviation (input) B_DIRTY :: u32 where "B_DIRTY \<equiv> 4"
abbreviation (input) T_DIR :: u16 where "T_DIR \<equiv> 1"
abbreviation (input) T_FILE :: u16 where "T_FILE \<equiv> 2"
abbreviation (input) T_DEV :: u16 where "T_DEV \<equiv> 3"
abbreviation (input) CONSOLE :: nat where "CONSOLE \<equiv> 1"

section \<open>Locks (spinlock.h, sleeplock.h)\<close>

datatype slockid = SL_buf nat | SL_inode nat

text \<open>One name per \<open>struct spinlock\<close> of the kernel; \<open>L_sleep\<close> is the \<open>lk\<close> field of a
  sleep lock, \<open>L_pipe\<close> the lock of the pipe at that address.\<close>

datatype lockid =
    L_ptable | L_kmem | L_ticks | L_bcache | L_log | L_icache | L_ftable | L_ide | L_cons
  | L_pipe u32 | L_sleep slockid

record spinlock =
  lk_locked :: u32
  lk_name :: string
  lk_cpu :: "nat option"

record sleeplock =
  sl_locked :: u32
  sl_name :: string
  sl_pid :: u32

text \<open>Wait channels: the addresses passed to \<open>sleep\<close> and \<open>wakeup\<close>.\<close>

datatype chan =
    Ch_proc nat | Ch_ticks | Ch_log | Ch_buf nat | Ch_sleeplock slockid
  | Ch_nread u32 | Ch_nwrite u32 | Ch_input

section \<open>CPUs and processes (proc.h, x86.h)\<close>

text \<open>Per-CPU state. \<open>c_cr3\<close> is the processor's page table register and \<open>c_esp0\<close> the
  kernel stack pointer of its task state segment.\<close>

record cpu =
  c_apicid :: u32
  c_ncli :: int
  c_intena :: bool
  c_proc :: "nat option"
  c_cr3 :: u32
  c_esp0 :: u32

text \<open>The process states. The code stores the negated enumerator for the transitional
  states of its compare-and-swap protocol; \<open>M_X\<close> is \<open>-X\<close>.\<close>

datatype procstate =
    UNUSED | EMBRYO | SLEEPING | RUNNABLE | RUNNING | ZOMBIE | PRE_UNUSED
  | M_SLEEPING | M_RUNNABLE | M_RUNNING | M_ZOMBIE

record trapframe =
  tf_edi :: u32
  tf_esi :: u32
  tf_ebp :: u32
  tf_oesp :: u32
  tf_ebx :: u32
  tf_edx :: u32
  tf_ecx :: u32
  tf_eax :: u32
  tf_gs :: u16
  tf_padding1 :: u16
  tf_fs :: u16
  tf_padding2 :: u16
  tf_es :: u16
  tf_padding3 :: u16
  tf_ds :: u16
  tf_padding4 :: u16
  tf_trapno :: u32
  tf_err :: u32
  tf_eip :: u32
  tf_cs :: u16
  tf_padding5 :: u16
  tf_eflags :: u32
  tf_esp :: u32
  tf_ss :: u16
  tf_padding6 :: u16

text \<open>Where a new kernel thread starts: \<open>forkret\<close>, which returns to \<open>trapret\<close>, or
  wherever \<open>swtch\<close> saved it.\<close>

datatype context_pc = At_forkret | At_sched

text \<open>\<open>p_tf\<close> is the trap frame at the top of the process's kernel stack; \<open>tf\<close> always points
  there for a trap from user mode. \<open>p_utfBU\<close> is the user address of the saved frame.\<close>

record proc =
  p_sz :: u32
  p_pgdir :: u32
  p_kstack :: u32
  p_state :: procstate
  p_pid :: u32
  p_parent :: "nat option"
  p_tf :: trapframe
  p_context :: context_pc
  p_chan :: "chan option"
  p_killed :: bool
  p_frozen :: bool
  p_ofile :: "nat \<Rightarrow> nat option"
  p_cwd :: "nat option"
  p_name :: "u8 list"
  p_pendingSignals :: u32
  p_signalMask :: u32
  p_signalMaskBU :: u32
  p_signalHandlerMasks :: "nat \<Rightarrow> u32"
  p_signalHandler :: "nat \<Rightarrow> u32"
  p_uTrapFrameBU :: u32

section \<open>File system structures (buf.h, fs.h, file.h, log.c, pipe.c)\<close>

record buf =
  b_flags :: u32
  b_dev :: u32
  b_blockno :: u32
  b_refcnt :: u32
  b_prev :: nat
  b_next :: nat
  b_qnext :: "nat option"
  b_data :: "u8 list"

record superblock =
  sb_size :: u32
  sb_nblocks :: u32
  sb_ninodes :: u32
  sb_nlog :: u32
  sb_logstart :: u32
  sb_inodestart :: u32
  sb_bmapstart :: u32

record inode =
  ip_dev :: u32
  ip_inum :: u32
  ip_ref :: int
  ip_valid :: bool
  ip_type :: u16
  ip_major :: u16
  ip_minor :: u16
  ip_nlink :: u16
  ip_size :: u32
  ip_addrs :: "u32 list"

datatype ftype = FD_NONE | FD_PIPE | FD_INODE

record ofile =
  f_type :: ftype
  f_ref :: int
  f_readable :: bool
  f_writable :: bool
  f_pipe :: u32
  f_ip :: nat
  f_off :: u32

record pipe =
  pi_data :: "nat \<Rightarrow> u8"
  pi_nread :: u32
  pi_nwrite :: u32
  pi_readopen :: bool
  pi_writeopen :: bool

record log_state =
  lg_start :: u32
  lg_size :: int
  lg_outstanding :: int
  lg_committing :: bool
  lg_dev :: u32
  lg_n :: int
  lg_block :: "nat \<Rightarrow> u32"

record input_state =
  in_buf :: "nat \<Rightarrow> u8"
  in_r :: u32
  in_w :: u32
  in_e :: u32

text \<open>The device switch holds function pointers; the only driver is the console.\<close>

datatype devfn = Dev_console

section \<open>The kernel\<close>

text \<open>
  \<open>lapic_id\<close> is the APIC id of the processor executing now, \<open>eflags_if\<close> the interrupt
  flag of its EFLAGS register. \<open>mem\<close> is physical memory,
  indexed by the address at which the kernel's direct map shows each byte, that is by
  \<open>P2V pa\<close>. \<open>disk\<close> is the content of the IDE disks, by device and block,
  \<open>ide_err\<close> the error bit of the drive's status register. \<open>bufs\<close> has
  the buffers at indices below \<open>NBUF\<close> and the list head \<open>bcache.head\<close> at \<open>NBUF\<close>.
  \<open>kbd_shift\<close> is the static variable \<open>shift\<close> of \<open>kbdgetc\<close>. \<open>uart\<close> says whether the machine has a serial port. \<open>uart_out\<close> and \<open>crt\<close> are what the console has sent to the serial port and the screen,
  \<open>crt_pos\<close> the cursor register of the display.
\<close>

record kernel =
  cpus :: "nat \<Rightarrow> cpu"
  ncpu :: nat
  lapic_id :: u32
  eflags_if :: bool
  locks :: "lockid \<Rightarrow> spinlock"
  slocks :: "slockid \<Rightarrow> sleeplock"
  mem :: "u32 \<Rightarrow> u8"
  kend :: u32
  kdata :: u32
  freelist :: u32
  use_lock :: bool
  kpgdir :: u32
  ptable :: "nat \<Rightarrow> proc"
  initproc :: "nat option"
  nextpid :: u32
  ticks :: u32
  bufs :: "nat \<Rightarrow> buf"
  idequeue :: "nat option"
  havedisk1 :: bool
  ide_err :: bool
  disk :: "u32 \<Rightarrow> u32 \<Rightarrow> u8 list"
  log :: log_state
  sb :: superblock
  icache :: "nat \<Rightarrow> inode"
  ftable :: "nat \<Rightarrow> ofile"
  pipes :: "u32 \<Rightarrow> pipe"
  devsw_read :: "nat \<Rightarrow> devfn option"
  devsw_write :: "nat \<Rightarrow> devfn option"
  input :: input_state
  cons_locking :: bool
  kbd_shift :: u32
  uart :: bool
  uart_out :: "u32 list"
  crt :: "nat \<Rightarrow> u16"
  crt_pos :: int
  forkret_first :: bool

section \<open>A concrete kernel\<close>

text \<open>
  The kernel whose variables have the value of their C initialisers (zero unless the
  declaration says otherwise), on a machine with one processor that has turned interrupts
  on and with the allocator's and the console's locks in use. Examples start from it.
\<close>

definition cpu0 :: cpu where
  "cpu0 = \<lparr>c_apicid = 0, c_ncli = 0, c_intena = True, c_proc = None, c_cr3 = 0, c_esp0 = 0\<rparr>"

definition spinlock0 :: spinlock where
  "spinlock0 = \<lparr>lk_locked = 0, lk_name = [], lk_cpu = None\<rparr>"

definition sleeplock0 :: sleeplock where
  "sleeplock0 = \<lparr>sl_locked = 0, sl_name = [], sl_pid = 0\<rparr>"

definition trapframe0 :: trapframe where
  "trapframe0 = \<lparr>tf_edi = 0, tf_esi = 0, tf_ebp = 0, tf_oesp = 0, tf_ebx = 0, tf_edx = 0,
     tf_ecx = 0, tf_eax = 0, tf_gs = 0, tf_padding1 = 0, tf_fs = 0, tf_padding2 = 0, tf_es = 0,
     tf_padding3 = 0, tf_ds = 0, tf_padding4 = 0, tf_trapno = 0, tf_err = 0, tf_eip = 0,
     tf_cs = 0, tf_padding5 = 0, tf_eflags = 0, tf_esp = 0, tf_ss = 0, tf_padding6 = 0\<rparr>"

definition proc0 :: proc where
  "proc0 = \<lparr>p_sz = 0, p_pgdir = 0, p_kstack = 0, p_state = UNUSED, p_pid = 0, p_parent = None,
     p_tf = trapframe0, p_context = At_sched, p_chan = None, p_killed = False, p_frozen = False,
     p_ofile = (\<lambda>_. None), p_cwd = None, p_name = [], p_pendingSignals = 0, p_signalMask = 0,
     p_signalMaskBU = 0, p_signalHandlerMasks = (\<lambda>_. 0), p_signalHandler = (\<lambda>_. 0),
     p_uTrapFrameBU = 0\<rparr>"

definition buf0 :: buf where
  "buf0 = \<lparr>b_flags = 0, b_dev = 0, b_blockno = 0, b_refcnt = 0, b_prev = 0, b_next = 0,
     b_qnext = None, b_data = replicate BSIZE 0\<rparr>"

definition sb0 :: superblock where
  "sb0 = \<lparr>sb_size = 0, sb_nblocks = 0, sb_ninodes = 0, sb_nlog = 0, sb_logstart = 0,
     sb_inodestart = 0, sb_bmapstart = 0\<rparr>"

definition inode0 :: inode where
  "inode0 = \<lparr>ip_dev = 0, ip_inum = 0, ip_ref = 0, ip_valid = False, ip_type = 0, ip_major = 0,
     ip_minor = 0, ip_nlink = 0, ip_size = 0, ip_addrs = replicate (NDIRECT + 1) 0\<rparr>"

definition ofile0 :: ofile where
  "ofile0 = \<lparr>f_type = FD_NONE, f_ref = 0, f_readable = False, f_writable = False, f_pipe = 0,
     f_ip = 0, f_off = 0\<rparr>"

definition pipe0 :: pipe where
  "pipe0 = \<lparr>pi_data = (\<lambda>_. 0), pi_nread = 0, pi_nwrite = 0, pi_readopen = False,
     pi_writeopen = False\<rparr>"

definition log0 :: log_state where
  "log0 = \<lparr>lg_start = 0, lg_size = 0, lg_outstanding = 0, lg_committing = False, lg_dev = 0,
     lg_n = 0, lg_block = (\<lambda>_. 0)\<rparr>"

definition input0 :: input_state where
  "input0 = \<lparr>in_buf = (\<lambda>_. 0), in_r = 0, in_w = 0, in_e = 0\<rparr>"

definition kernel0 :: kernel where
  "kernel0 = \<lparr>
     cpus = (\<lambda>_. cpu0), ncpu = 1, lapic_id = 0,
     eflags_if = True, locks = (\<lambda>_. spinlock0), slocks = (\<lambda>_. sleeplock0),
     mem = (\<lambda>_. 0), kend = 0x80120000, kdata = 0x80108000,
     freelist = 0, use_lock = True, kpgdir = 0,
     ptable = (\<lambda>_. proc0), initproc = None, nextpid = 1,
     ticks = 0, bufs = (\<lambda>_. buf0), idequeue = None,
     havedisk1 = True, ide_err = False, disk = (\<lambda>_ _. replicate BSIZE 0), log = log0,
     sb = sb0, icache = (\<lambda>_. inode0), ftable = (\<lambda>_. ofile0),
     pipes = (\<lambda>_. pipe0), devsw_read = (\<lambda>_. None), devsw_write = (\<lambda>_. None),
     input = input0, cons_locking = True, kbd_shift = 0, uart = True, uart_out = [],
     crt = (\<lambda>_. 0), crt_pos = 0, forkret_first = True\<rparr>"

lemma kernel0_sel [simp]:
  "cpus kernel0 = (\<lambda>_. cpu0)"
  "ncpu kernel0 = 1"
  "lapic_id kernel0 = 0"
  "eflags_if kernel0 = True"
  "locks kernel0 = (\<lambda>_. spinlock0)"
  "slocks kernel0 = (\<lambda>_. sleeplock0)"
  "mem kernel0 = (\<lambda>_. 0)"
  "kend kernel0 = 0x80120000"
  "kdata kernel0 = 0x80108000"
  "freelist kernel0 = 0"
  "use_lock kernel0 = True"
  "kpgdir kernel0 = 0"
  "ptable kernel0 = (\<lambda>_. proc0)"
  "initproc kernel0 = None"
  "nextpid kernel0 = 1"
  "ticks kernel0 = 0"
  "bufs kernel0 = (\<lambda>_. buf0)"
  "idequeue kernel0 = None"
  "havedisk1 kernel0 = True"
  "ide_err kernel0 = False"
  "disk kernel0 = (\<lambda>_ _. replicate BSIZE 0)"
  "log kernel0 = log0"
  "sb kernel0 = sb0"
  "icache kernel0 = (\<lambda>_. inode0)"
  "ftable kernel0 = (\<lambda>_. ofile0)"
  "pipes kernel0 = (\<lambda>_. pipe0)"
  "devsw_read kernel0 = (\<lambda>_. None)"
  "devsw_write kernel0 = (\<lambda>_. None)"
  "input kernel0 = input0"
  "cons_locking kernel0 = True"
  "kbd_shift kernel0 = 0"
  "uart kernel0 = True"
  "uart_out kernel0 = []"
  "crt kernel0 = (\<lambda>_. 0)"
  "crt_pos kernel0 = 0"
  "forkret_first kernel0 = True"
  by (simp_all add: kernel0_def)

section \<open>Normal forms of updates\<close>

text \<open>Updates of different fields commute; rewriting with these equations sorts them.\<close>

lemma kernel_order:
  fixes s :: kernel
  shows
  "s\<lparr>cpus := x1, eflags_if := x0\<rparr> = s\<lparr>eflags_if := x0, cpus := x1\<rparr>"
  "s\<lparr>locks := x2, eflags_if := x0\<rparr> = s\<lparr>eflags_if := x0, locks := x2\<rparr>"
  "s\<lparr>locks := x2, cpus := x1\<rparr> = s\<lparr>cpus := x1, locks := x2\<rparr>"
  "s\<lparr>slocks := x3, eflags_if := x0\<rparr> = s\<lparr>eflags_if := x0, slocks := x3\<rparr>"
  "s\<lparr>slocks := x3, cpus := x1\<rparr> = s\<lparr>cpus := x1, slocks := x3\<rparr>"
  "s\<lparr>slocks := x3, locks := x2\<rparr> = s\<lparr>locks := x2, slocks := x3\<rparr>"
  "s\<lparr>ptable := x4, eflags_if := x0\<rparr> = s\<lparr>eflags_if := x0, ptable := x4\<rparr>"
  "s\<lparr>ptable := x4, cpus := x1\<rparr> = s\<lparr>cpus := x1, ptable := x4\<rparr>"
  "s\<lparr>ptable := x4, locks := x2\<rparr> = s\<lparr>locks := x2, ptable := x4\<rparr>"
  "s\<lparr>ptable := x4, slocks := x3\<rparr> = s\<lparr>slocks := x3, ptable := x4\<rparr>"
  "s\<lparr>mem := x5, eflags_if := x0\<rparr> = s\<lparr>eflags_if := x0, mem := x5\<rparr>"
  "s\<lparr>mem := x5, cpus := x1\<rparr> = s\<lparr>cpus := x1, mem := x5\<rparr>"
  "s\<lparr>mem := x5, locks := x2\<rparr> = s\<lparr>locks := x2, mem := x5\<rparr>"
  "s\<lparr>mem := x5, slocks := x3\<rparr> = s\<lparr>slocks := x3, mem := x5\<rparr>"
  "s\<lparr>mem := x5, ptable := x4\<rparr> = s\<lparr>ptable := x4, mem := x5\<rparr>"
  "s\<lparr>freelist := x6, eflags_if := x0\<rparr> = s\<lparr>eflags_if := x0, freelist := x6\<rparr>"
  "s\<lparr>freelist := x6, cpus := x1\<rparr> = s\<lparr>cpus := x1, freelist := x6\<rparr>"
  "s\<lparr>freelist := x6, locks := x2\<rparr> = s\<lparr>locks := x2, freelist := x6\<rparr>"
  "s\<lparr>freelist := x6, slocks := x3\<rparr> = s\<lparr>slocks := x3, freelist := x6\<rparr>"
  "s\<lparr>freelist := x6, ptable := x4\<rparr> = s\<lparr>ptable := x4, freelist := x6\<rparr>"
  "s\<lparr>freelist := x6, mem := x5\<rparr> = s\<lparr>mem := x5, freelist := x6\<rparr>"
  "s\<lparr>ticks := x7, eflags_if := x0\<rparr> = s\<lparr>eflags_if := x0, ticks := x7\<rparr>"
  "s\<lparr>ticks := x7, cpus := x1\<rparr> = s\<lparr>cpus := x1, ticks := x7\<rparr>"
  "s\<lparr>ticks := x7, locks := x2\<rparr> = s\<lparr>locks := x2, ticks := x7\<rparr>"
  "s\<lparr>ticks := x7, slocks := x3\<rparr> = s\<lparr>slocks := x3, ticks := x7\<rparr>"
  "s\<lparr>ticks := x7, ptable := x4\<rparr> = s\<lparr>ptable := x4, ticks := x7\<rparr>"
  "s\<lparr>ticks := x7, mem := x5\<rparr> = s\<lparr>mem := x5, ticks := x7\<rparr>"
  "s\<lparr>ticks := x7, freelist := x6\<rparr> = s\<lparr>freelist := x6, ticks := x7\<rparr>"
  "s\<lparr>bufs := x8, eflags_if := x0\<rparr> = s\<lparr>eflags_if := x0, bufs := x8\<rparr>"
  "s\<lparr>bufs := x8, cpus := x1\<rparr> = s\<lparr>cpus := x1, bufs := x8\<rparr>"
  "s\<lparr>bufs := x8, locks := x2\<rparr> = s\<lparr>locks := x2, bufs := x8\<rparr>"
  "s\<lparr>bufs := x8, slocks := x3\<rparr> = s\<lparr>slocks := x3, bufs := x8\<rparr>"
  "s\<lparr>bufs := x8, ptable := x4\<rparr> = s\<lparr>ptable := x4, bufs := x8\<rparr>"
  "s\<lparr>bufs := x8, mem := x5\<rparr> = s\<lparr>mem := x5, bufs := x8\<rparr>"
  "s\<lparr>bufs := x8, freelist := x6\<rparr> = s\<lparr>freelist := x6, bufs := x8\<rparr>"
  "s\<lparr>bufs := x8, ticks := x7\<rparr> = s\<lparr>ticks := x7, bufs := x8\<rparr>"
  "s\<lparr>idequeue := x9, eflags_if := x0\<rparr> = s\<lparr>eflags_if := x0, idequeue := x9\<rparr>"
  "s\<lparr>idequeue := x9, cpus := x1\<rparr> = s\<lparr>cpus := x1, idequeue := x9\<rparr>"
  "s\<lparr>idequeue := x9, locks := x2\<rparr> = s\<lparr>locks := x2, idequeue := x9\<rparr>"
  "s\<lparr>idequeue := x9, slocks := x3\<rparr> = s\<lparr>slocks := x3, idequeue := x9\<rparr>"
  "s\<lparr>idequeue := x9, ptable := x4\<rparr> = s\<lparr>ptable := x4, idequeue := x9\<rparr>"
  "s\<lparr>idequeue := x9, mem := x5\<rparr> = s\<lparr>mem := x5, idequeue := x9\<rparr>"
  "s\<lparr>idequeue := x9, freelist := x6\<rparr> = s\<lparr>freelist := x6, idequeue := x9\<rparr>"
  "s\<lparr>idequeue := x9, ticks := x7\<rparr> = s\<lparr>ticks := x7, idequeue := x9\<rparr>"
  "s\<lparr>idequeue := x9, bufs := x8\<rparr> = s\<lparr>bufs := x8, idequeue := x9\<rparr>"
  "s\<lparr>disk := x10, eflags_if := x0\<rparr> = s\<lparr>eflags_if := x0, disk := x10\<rparr>"
  "s\<lparr>disk := x10, cpus := x1\<rparr> = s\<lparr>cpus := x1, disk := x10\<rparr>"
  "s\<lparr>disk := x10, locks := x2\<rparr> = s\<lparr>locks := x2, disk := x10\<rparr>"
  "s\<lparr>disk := x10, slocks := x3\<rparr> = s\<lparr>slocks := x3, disk := x10\<rparr>"
  "s\<lparr>disk := x10, ptable := x4\<rparr> = s\<lparr>ptable := x4, disk := x10\<rparr>"
  "s\<lparr>disk := x10, mem := x5\<rparr> = s\<lparr>mem := x5, disk := x10\<rparr>"
  "s\<lparr>disk := x10, freelist := x6\<rparr> = s\<lparr>freelist := x6, disk := x10\<rparr>"
  "s\<lparr>disk := x10, ticks := x7\<rparr> = s\<lparr>ticks := x7, disk := x10\<rparr>"
  "s\<lparr>disk := x10, bufs := x8\<rparr> = s\<lparr>bufs := x8, disk := x10\<rparr>"
  "s\<lparr>disk := x10, idequeue := x9\<rparr> = s\<lparr>idequeue := x9, disk := x10\<rparr>"
  "s\<lparr>log := x11, eflags_if := x0\<rparr> = s\<lparr>eflags_if := x0, log := x11\<rparr>"
  "s\<lparr>log := x11, cpus := x1\<rparr> = s\<lparr>cpus := x1, log := x11\<rparr>"
  "s\<lparr>log := x11, locks := x2\<rparr> = s\<lparr>locks := x2, log := x11\<rparr>"
  "s\<lparr>log := x11, slocks := x3\<rparr> = s\<lparr>slocks := x3, log := x11\<rparr>"
  "s\<lparr>log := x11, ptable := x4\<rparr> = s\<lparr>ptable := x4, log := x11\<rparr>"
  "s\<lparr>log := x11, mem := x5\<rparr> = s\<lparr>mem := x5, log := x11\<rparr>"
  "s\<lparr>log := x11, freelist := x6\<rparr> = s\<lparr>freelist := x6, log := x11\<rparr>"
  "s\<lparr>log := x11, ticks := x7\<rparr> = s\<lparr>ticks := x7, log := x11\<rparr>"
  "s\<lparr>log := x11, bufs := x8\<rparr> = s\<lparr>bufs := x8, log := x11\<rparr>"
  "s\<lparr>log := x11, idequeue := x9\<rparr> = s\<lparr>idequeue := x9, log := x11\<rparr>"
  "s\<lparr>log := x11, disk := x10\<rparr> = s\<lparr>disk := x10, log := x11\<rparr>"
  "s\<lparr>icache := x12, eflags_if := x0\<rparr> = s\<lparr>eflags_if := x0, icache := x12\<rparr>"
  "s\<lparr>icache := x12, cpus := x1\<rparr> = s\<lparr>cpus := x1, icache := x12\<rparr>"
  "s\<lparr>icache := x12, locks := x2\<rparr> = s\<lparr>locks := x2, icache := x12\<rparr>"
  "s\<lparr>icache := x12, slocks := x3\<rparr> = s\<lparr>slocks := x3, icache := x12\<rparr>"
  "s\<lparr>icache := x12, ptable := x4\<rparr> = s\<lparr>ptable := x4, icache := x12\<rparr>"
  "s\<lparr>icache := x12, mem := x5\<rparr> = s\<lparr>mem := x5, icache := x12\<rparr>"
  "s\<lparr>icache := x12, freelist := x6\<rparr> = s\<lparr>freelist := x6, icache := x12\<rparr>"
  "s\<lparr>icache := x12, ticks := x7\<rparr> = s\<lparr>ticks := x7, icache := x12\<rparr>"
  "s\<lparr>icache := x12, bufs := x8\<rparr> = s\<lparr>bufs := x8, icache := x12\<rparr>"
  "s\<lparr>icache := x12, idequeue := x9\<rparr> = s\<lparr>idequeue := x9, icache := x12\<rparr>"
  "s\<lparr>icache := x12, disk := x10\<rparr> = s\<lparr>disk := x10, icache := x12\<rparr>"
  "s\<lparr>icache := x12, log := x11\<rparr> = s\<lparr>log := x11, icache := x12\<rparr>"
  "s\<lparr>ftable := x13, eflags_if := x0\<rparr> = s\<lparr>eflags_if := x0, ftable := x13\<rparr>"
  "s\<lparr>ftable := x13, cpus := x1\<rparr> = s\<lparr>cpus := x1, ftable := x13\<rparr>"
  "s\<lparr>ftable := x13, locks := x2\<rparr> = s\<lparr>locks := x2, ftable := x13\<rparr>"
  "s\<lparr>ftable := x13, slocks := x3\<rparr> = s\<lparr>slocks := x3, ftable := x13\<rparr>"
  "s\<lparr>ftable := x13, ptable := x4\<rparr> = s\<lparr>ptable := x4, ftable := x13\<rparr>"
  "s\<lparr>ftable := x13, mem := x5\<rparr> = s\<lparr>mem := x5, ftable := x13\<rparr>"
  "s\<lparr>ftable := x13, freelist := x6\<rparr> = s\<lparr>freelist := x6, ftable := x13\<rparr>"
  "s\<lparr>ftable := x13, ticks := x7\<rparr> = s\<lparr>ticks := x7, ftable := x13\<rparr>"
  "s\<lparr>ftable := x13, bufs := x8\<rparr> = s\<lparr>bufs := x8, ftable := x13\<rparr>"
  "s\<lparr>ftable := x13, idequeue := x9\<rparr> = s\<lparr>idequeue := x9, ftable := x13\<rparr>"
  "s\<lparr>ftable := x13, disk := x10\<rparr> = s\<lparr>disk := x10, ftable := x13\<rparr>"
  "s\<lparr>ftable := x13, log := x11\<rparr> = s\<lparr>log := x11, ftable := x13\<rparr>"
  "s\<lparr>ftable := x13, icache := x12\<rparr> = s\<lparr>icache := x12, ftable := x13\<rparr>"
  "s\<lparr>pipes := x14, eflags_if := x0\<rparr> = s\<lparr>eflags_if := x0, pipes := x14\<rparr>"
  "s\<lparr>pipes := x14, cpus := x1\<rparr> = s\<lparr>cpus := x1, pipes := x14\<rparr>"
  "s\<lparr>pipes := x14, locks := x2\<rparr> = s\<lparr>locks := x2, pipes := x14\<rparr>"
  "s\<lparr>pipes := x14, slocks := x3\<rparr> = s\<lparr>slocks := x3, pipes := x14\<rparr>"
  "s\<lparr>pipes := x14, ptable := x4\<rparr> = s\<lparr>ptable := x4, pipes := x14\<rparr>"
  "s\<lparr>pipes := x14, mem := x5\<rparr> = s\<lparr>mem := x5, pipes := x14\<rparr>"
  "s\<lparr>pipes := x14, freelist := x6\<rparr> = s\<lparr>freelist := x6, pipes := x14\<rparr>"
  "s\<lparr>pipes := x14, ticks := x7\<rparr> = s\<lparr>ticks := x7, pipes := x14\<rparr>"
  "s\<lparr>pipes := x14, bufs := x8\<rparr> = s\<lparr>bufs := x8, pipes := x14\<rparr>"
  "s\<lparr>pipes := x14, idequeue := x9\<rparr> = s\<lparr>idequeue := x9, pipes := x14\<rparr>"
  "s\<lparr>pipes := x14, disk := x10\<rparr> = s\<lparr>disk := x10, pipes := x14\<rparr>"
  "s\<lparr>pipes := x14, log := x11\<rparr> = s\<lparr>log := x11, pipes := x14\<rparr>"
  "s\<lparr>pipes := x14, icache := x12\<rparr> = s\<lparr>icache := x12, pipes := x14\<rparr>"
  "s\<lparr>pipes := x14, ftable := x13\<rparr> = s\<lparr>ftable := x13, pipes := x14\<rparr>"
  "s\<lparr>input := x15, eflags_if := x0\<rparr> = s\<lparr>eflags_if := x0, input := x15\<rparr>"
  "s\<lparr>input := x15, cpus := x1\<rparr> = s\<lparr>cpus := x1, input := x15\<rparr>"
  "s\<lparr>input := x15, locks := x2\<rparr> = s\<lparr>locks := x2, input := x15\<rparr>"
  "s\<lparr>input := x15, slocks := x3\<rparr> = s\<lparr>slocks := x3, input := x15\<rparr>"
  "s\<lparr>input := x15, ptable := x4\<rparr> = s\<lparr>ptable := x4, input := x15\<rparr>"
  "s\<lparr>input := x15, mem := x5\<rparr> = s\<lparr>mem := x5, input := x15\<rparr>"
  "s\<lparr>input := x15, freelist := x6\<rparr> = s\<lparr>freelist := x6, input := x15\<rparr>"
  "s\<lparr>input := x15, ticks := x7\<rparr> = s\<lparr>ticks := x7, input := x15\<rparr>"
  "s\<lparr>input := x15, bufs := x8\<rparr> = s\<lparr>bufs := x8, input := x15\<rparr>"
  "s\<lparr>input := x15, idequeue := x9\<rparr> = s\<lparr>idequeue := x9, input := x15\<rparr>"
  "s\<lparr>input := x15, disk := x10\<rparr> = s\<lparr>disk := x10, input := x15\<rparr>"
  "s\<lparr>input := x15, log := x11\<rparr> = s\<lparr>log := x11, input := x15\<rparr>"
  "s\<lparr>input := x15, icache := x12\<rparr> = s\<lparr>icache := x12, input := x15\<rparr>"
  "s\<lparr>input := x15, ftable := x13\<rparr> = s\<lparr>ftable := x13, input := x15\<rparr>"
  "s\<lparr>input := x15, pipes := x14\<rparr> = s\<lparr>pipes := x14, input := x15\<rparr>"
  by (cases s; simp)+

lemma cpu_order:
  fixes q :: cpu
  shows
  "q\<lparr>c_cr3 := x1, c_proc := x0\<rparr> = q\<lparr>c_proc := x0, c_cr3 := x1\<rparr>"
  "q\<lparr>c_esp0 := x2, c_proc := x0\<rparr> = q\<lparr>c_proc := x0, c_esp0 := x2\<rparr>"
  "q\<lparr>c_esp0 := x2, c_cr3 := x1\<rparr> = q\<lparr>c_cr3 := x1, c_esp0 := x2\<rparr>"
  "q\<lparr>c_intena := x3, c_proc := x0\<rparr> = q\<lparr>c_proc := x0, c_intena := x3\<rparr>"
  "q\<lparr>c_intena := x3, c_cr3 := x1\<rparr> = q\<lparr>c_cr3 := x1, c_intena := x3\<rparr>"
  "q\<lparr>c_intena := x3, c_esp0 := x2\<rparr> = q\<lparr>c_esp0 := x2, c_intena := x3\<rparr>"
  "q\<lparr>c_ncli := x4, c_proc := x0\<rparr> = q\<lparr>c_proc := x0, c_ncli := x4\<rparr>"
  "q\<lparr>c_ncli := x4, c_cr3 := x1\<rparr> = q\<lparr>c_cr3 := x1, c_ncli := x4\<rparr>"
  "q\<lparr>c_ncli := x4, c_esp0 := x2\<rparr> = q\<lparr>c_esp0 := x2, c_ncli := x4\<rparr>"
  "q\<lparr>c_ncli := x4, c_intena := x3\<rparr> = q\<lparr>c_intena := x3, c_ncli := x4\<rparr>"
  by (cases q; simp)+

end
