(* ===== verification/Kernel_Monad.thy ===== *)
theory Kernel_Monad
  imports Kernel_State
begin

text \<open>
  Kernel code as computations. A kernel function with result type \<open>'a\<close> is a function of
  type \<open>'a K\<close>: it takes the kernel and the \<^emph>\<open>world\<close> and ends in one of three ways:

  \<^item> \<open>Done a s w\<close>: it returned \<open>a\<close>, leaving the kernel \<open>s\<close> and the world \<open>w\<close>;
  \<^item> \<open>Panic msg\<close>: it called \<open>panic(msg)\<close>, which never returns. A fault in kernel mode
    (a null or unmapped address) is also a panic: \<open>trap()\<close> panics with \<open>trap\<close>;
  \<^item> \<open>Stuck s\<close>: it waits for a change that the rest of the system never makes.

  The world is what the rest of the system (other CPUs, other processes, devices) does
  while this thread waits: one function for each time the thread spins on a memory cell or
  gives up the CPU in \<open>swtch\<close>, in order. With the empty world a thread that has to wait is
  stuck. Between two waits a computation is not interleaved with anything; the theory
  Cas_Protocol studies the interleavings of the process state machine at the grain of
  single compare-and-swap instructions.
\<close>

section \<open>Outcomes and sequencing\<close>

type_synonym world = "(kernel \<Rightarrow> kernel) list"

datatype 'a outcome = Done 'a kernel world | Panic string | Stuck kernel

type_synonym 'a K = "kernel \<Rightarrow> world \<Rightarrow> 'a outcome"

definition kret :: "'a \<Rightarrow> 'a K" where
  "kret a = (\<lambda>s w. Done a s w)"

definition kpanic :: "string \<Rightarrow> 'a K" where
  "kpanic msg = (\<lambda>s w. Panic msg)"

definition kbind :: "'a K \<Rightarrow> ('a \<Rightarrow> 'b K) \<Rightarrow> 'b K" where
  "kbind m f = (\<lambda>s w. case m s w of
       Done a t v \<Rightarrow> f a t v
     | Panic msg \<Rightarrow> Panic msg
     | Stuck t \<Rightarrow> Stuck t)"

definition kseq :: "'a K \<Rightarrow> 'b K \<Rightarrow> 'b K" where
  "kseq m n = kbind m (\<lambda>_. n)"

definition kget :: "(kernel \<Rightarrow> 'a) \<Rightarrow> 'a K" where
  "kget f = (\<lambda>s w. Done (f s) s w)"

definition kmod :: "(kernel \<Rightarrow> kernel) \<Rightarrow> unit K" where
  "kmod f = (\<lambda>s w. Done () (f s) w)"

text \<open>Branching on a value read from the kernel.\<close>

definition kif :: "(kernel \<Rightarrow> bool) \<Rightarrow> 'a K \<Rightarrow> 'a K \<Rightarrow> 'a K" where
  "kif c m n = (\<lambda>s w. if c s then m s w else n s w)"

text \<open>Wait for the rest of the system to make one move.\<close>

definition kworld :: "unit K" where
  "kworld = (\<lambda>s w. case w of [] \<Rightarrow> Stuck s | e # v \<Rightarrow> Done () (e s) v)"

lemma kret_app [simp]: "kret a s w = Done a s w"
  by (simp add: kret_def)

lemma kpanic_app [simp]: "kpanic msg s w = Panic msg"
  by (simp add: kpanic_def)

lemma kget_app [simp]: "kget f s w = Done (f s) s w"
  by (simp add: kget_def)

lemma kmod_app [simp]: "kmod f s w = Done () (f s) w"
  by (simp add: kmod_def)

lemma kif_app [simp]: "kif c m n s w = (if c s then m s w else n s w)"
  by (simp add: kif_def)

lemma kworld_app [simp]:
  "kworld s [] = Stuck s"
  "kworld s (e # v) = Done () (e s) v"
  by (simp_all add: kworld_def)

lemma kbind_app [simp]:
  "kbind m f s w = (case m s w of
       Done a t v \<Rightarrow> f a t v | Panic msg \<Rightarrow> Panic msg | Stuck t \<Rightarrow> Stuck t)"
  by (simp add: kbind_def)

lemma kseq_app [simp]:
  "kseq m n s w = (case m s w of
       Done a t v \<Rightarrow> n t v | Panic msg \<Rightarrow> Panic msg | Stuck t \<Rightarrow> Stuck t)"
  by (simp add: kseq_def)

text \<open>Running a computation in stages.\<close>

lemma kbind_done: "m s w = Done a t v \<Longrightarrow> kbind m f s w = f a t v"
  by simp

lemma kseq_done: "m s w = Done a t v \<Longrightarrow> kseq m n s w = n t v"
  by simp

lemma kseq_assoc: "kseq (kseq m n) k = kseq m (kseq n k)"
  by (rule ext, rule ext) (simp split: outcome.split)

lemma kseq_kbind: "kseq (kbind m f) k = kbind m (\<lambda>a. kseq (f a) k)"
  by (rule ext, rule ext) (simp split: outcome.split)

lemma kbind_DoneE:
  assumes "kbind m f s w = Done b t v"
  obtains a t' v' where "m s w = Done a t' v'" and "f a t' v' = Done b t v"
  using assms by (auto split: outcome.splits)

lemma kseq_DoneE:
  assumes "kseq m n s w = Done b t v"
  obtains a t' v' where "m s w = Done a t' v'" and "n t' v' = Done b t v"
  using assms by (auto split: outcome.splits)

section \<open>Loops\<close>

text \<open>\<open>kfor n i f\<close> is \<open>for(; i < i + n; i++) f(i)\<close> with \<open>n\<close> rounds to go;
  \<open>kfind n i f\<close> is such a loop whose body may return a value from the function.\<close>

primrec kfor :: "nat \<Rightarrow> nat \<Rightarrow> (nat \<Rightarrow> unit K) \<Rightarrow> unit K" where
  "kfor 0 i f = kret ()"
| "kfor (Suc n) i f = kseq (f i) (kfor n (Suc i) f)"

primrec kfind :: "nat \<Rightarrow> nat \<Rightarrow> (nat \<Rightarrow> 'a option K) \<Rightarrow> 'a option K" where
  "kfind 0 i f = kret None"
| "kfind (Suc n) i f = kbind (f i) (\<lambda>r. case r of
       None \<Rightarrow> kfind n (Suc i) f
     | Some a \<Rightarrow> kret (Some a))"

lemma kfind_skip:
  "(\<And>j. j < n \<Longrightarrow> f (i + j) s w = Done None s w) \<Longrightarrow> kfind (n + m) i f s w = kfind m (i + n) f s w"
proof (induction n arbitrary: i)
  case (Suc n)
  have "kfind (n + m) (Suc i) f s w = kfind m (Suc i + n) f s w"
    using Suc.prems [of "Suc _"] by (intro Suc.IH) simp
  with Suc.prems [of 0] show ?case by simp
qed simp

lemma kfor_skip:
  "(\<And>j. j < n \<Longrightarrow> f (i + j) s w = Done () s w) \<Longrightarrow> kfor (n + m) i f s w = kfor m (i + n) f s w"
proof (induction n arbitrary: i)
  case (Suc n)
  have "kfor (n + m) (Suc i) f s w = kfor m (Suc i + n) f s w"
    using Suc.prems [of "Suc _"] by (intro Suc.IH) simp
  with Suc.prems [of 0] show ?case by simp
qed simp

lemma kfor_nop:
  assumes "\<And>j. j < n \<Longrightarrow> f (i + j) s w = Done () s w"
  shows "kfor n i f s w = Done () s w"
proof -
  have "kfor (n + 0) i f s w = kfor 0 (i + n) f s w" using assms by (rule kfor_skip)
  then show ?thesis by simp
qed

text \<open>
  \<open>kwhile c body\<close> is \<open>while(c) body\<close> for a body that waits for the world in every round:
  a round uses at least one move of the world, so \<open>length w + 1\<close> tests of the condition
  are enough and a loop that needs more is stuck.
\<close>

primrec kwhile_n :: "nat \<Rightarrow> (kernel \<Rightarrow> bool) \<Rightarrow> unit K \<Rightarrow> unit K" where
  "kwhile_n 0 c body = (\<lambda>s w. Stuck s)"
| "kwhile_n (Suc n) c body = kif c (kseq body (kwhile_n n c body)) (kret ())"

definition kwhile :: "(kernel \<Rightarrow> bool) \<Rightarrow> unit K \<Rightarrow> unit K" where
  "kwhile c body = (\<lambda>s w. kwhile_n (Suc (length w)) c body s w)"

text \<open>A body that waits: every run that returns has used up some of the world.\<close>

definition consumes :: "'a K \<Rightarrow> bool" where
  "consumes m \<longleftrightarrow> (\<forall>s w a t v. m s w = Done a t v \<longrightarrow> length v < length w)"

text \<open>A computation that never adds to the world.\<close>

definition shrinks :: "'a K \<Rightarrow> bool" where
  "shrinks m \<longleftrightarrow> (\<forall>s w a t v. m s w = Done a t v \<longrightarrow> length v \<le> length w)"

lemma consumes_kworld [simp]: "consumes kworld"
  by (auto simp: consumes_def kworld_def split: list.splits)

lemma kwhile_n_enough:
  assumes body: "consumes body"
  shows "length w < n \<Longrightarrow> length w < m \<Longrightarrow> kwhile_n n c body s w = kwhile_n m c body s w"
proof (induction n arbitrary: m s w)
  case 0
  then show ?case by simp
next
  case (Suc n)
  then obtain m' where m: "m = Suc m'" by (cases m) auto
  show ?case
  proof (cases "body s w")
    case (Done a t v)
    with body have v: "length v < length w" by (auto simp: consumes_def)
    have "kwhile_n n c body t v = kwhile_n m' c body t v"
      using v Suc.prems m by (intro Suc.IH) auto
    with Done show ?thesis by (simp add: m)
  qed (simp_all add: m)
qed

text \<open>The fuel is enough: the loop satisfies the equation of \<open>while\<close>.\<close>

lemma kwhile_unfold:
  assumes body: "consumes body"
  shows "kwhile c body s w = (if c s then kseq body (kwhile c body) s w else Done () s w)"
proof (cases "c s")
  case True
  show ?thesis
  proof (cases "body s w")
    case (Done a t v)
    with body have v: "length v < length w" by (auto simp: consumes_def)
    have "kwhile_n (length w) c body t v = kwhile_n (Suc (length v)) c body t v"
      using v by (intro kwhile_n_enough [OF body]) auto
    with Done True show ?thesis by (simp add: kwhile_def)
  qed (use True in \<open>simp_all add: kwhile_def\<close>)
qed (simp add: kwhile_def)

lemma kwhile_false [simp]: "\<not> c s \<Longrightarrow> kwhile c body s w = Done () s w"
  by (simp add: kwhile_def)

text \<open>When the loop returns, its condition is false.\<close>

lemma kwhile_n_exit: "kwhile_n n c body s w = Done r t v \<Longrightarrow> \<not> c t"
proof (induction n arbitrary: s w)
  case (Suc n)
  then show ?case by (auto split: if_splits outcome.splits)
qed simp

lemma kwhile_exit: "kwhile c body s w = Done r t v \<Longrightarrow> \<not> c t"
  unfolding kwhile_def by (rule kwhile_n_exit)

section \<open>Invariants of computations\<close>

text \<open>\<open>keeps I m\<close>: whenever \<open>m\<close> returns from a kernel that satisfies \<open>I\<close>, and every move
  of the world keeps \<open>I\<close>, the kernel it leaves satisfies \<open>I\<close> again.\<close>

definition rely :: "(kernel \<Rightarrow> bool) \<Rightarrow> world \<Rightarrow> bool" where
  "rely I w \<longleftrightarrow> (\<forall>e \<in> set w. \<forall>s. I s \<longrightarrow> I (e s))"

definition keeps :: "(kernel \<Rightarrow> bool) \<Rightarrow> 'a K \<Rightarrow> bool" where
  "keeps I m \<longleftrightarrow> (\<forall>s w a t v. I s \<longrightarrow> rely I w \<longrightarrow> m s w = Done a t v \<longrightarrow> I t \<and> rely I v)"

lemma rely_Nil [simp]: "rely I []"
  by (simp add: rely_def)

lemma keepsD: "keeps I m \<Longrightarrow> I s \<Longrightarrow> rely I w \<Longrightarrow> m s w = Done a t v \<Longrightarrow> I t \<and> rely I v"
  unfolding keeps_def by blast

lemma keeps_kret [keeps_intros]: "keeps I (kret a)"
  by (simp add: keeps_def)

lemma keeps_kpanic [keeps_intros]: "keeps I (kpanic msg)"
  by (simp add: keeps_def)

lemma keeps_kget [keeps_intros]: "keeps I (kget f)"
  by (simp add: keeps_def)

lemma keeps_kmod [keeps_intros]: "(\<And>s. I s \<Longrightarrow> I (f s)) \<Longrightarrow> keeps I (kmod f)"
  by (simp add: keeps_def)

lemma keeps_kworld [keeps_intros]: "keeps I kworld"
  unfolding keeps_def rely_def kworld_def by (simp split: list.splits)

lemma keeps_kif [keeps_intros]: "keeps I m \<Longrightarrow> keeps I n \<Longrightarrow> keeps I (kif c m n)"
  unfolding keeps_def kif_def by meson

lemma keeps_kbind [keeps_intros]:
  assumes "keeps I m" and "\<And>a. keeps I (f a)"
  shows "keeps I (kbind m f)"
  unfolding keeps_def
proof (intro allI impI)
  fix s w b t v
  assume I: "I s" "rely I w" and run: "kbind m f s w = Done b t v"
  from run obtain a t' v' where m: "m s w = Done a t' v'" and f: "f a t' v' = Done b t v"
    by (rule kbind_DoneE)
  from assms(1) I m have "I t' \<and> rely I v'" by (blast dest: keepsD)
  with assms(2) f show "I t \<and> rely I v" by (blast dest: keepsD)
qed

lemma keeps_kseq [keeps_intros]: "keeps I m \<Longrightarrow> keeps I n \<Longrightarrow> keeps I (kseq m n)"
  unfolding kseq_def by (intro keeps_kbind)

lemma keeps_if [keeps_intros]:
  "(c \<Longrightarrow> keeps I m) \<Longrightarrow> (\<not> c \<Longrightarrow> keeps I n) \<Longrightarrow> keeps I (if c then m else n)"
  by simp

lemma keeps_case_option [keeps_intros]:
  "keeps I m \<Longrightarrow> (\<And>a. keeps I (f a)) \<Longrightarrow> keeps I (case r of None \<Rightarrow> m | Some a \<Rightarrow> f a)"
  by (cases r) auto

lemma keeps_kfor [keeps_intros]: "(\<And>i. keeps I (f i)) \<Longrightarrow> keeps I (kfor n i f)"
  by (induction n arbitrary: i)
    (simp_all only: kfor.simps keeps_kret keeps_kseq)

lemma keeps_kfind [keeps_intros]: "(\<And>i. keeps I (f i)) \<Longrightarrow> keeps I (kfind n i f)"
proof (induction n arbitrary: i)
  case 0
  show ?case by (simp only: kfind.simps keeps_kret)
next
  case (Suc n)
  show ?case
    unfolding kfind.simps by (intro keeps_kbind Suc.prems keeps_case_option Suc.IH keeps_kret)
qed

lemma keeps_kwhile_n: "keeps I body \<Longrightarrow> keeps I (kwhile_n n c body)"
proof (induction n)
  case 0
  show ?case by (simp add: keeps_def)
next
  case (Suc n)
  then show ?case by (simp only: kwhile_n.simps keeps_kif keeps_kseq keeps_kret)
qed

lemma keeps_kwhile [keeps_intros]: "keeps I body \<Longrightarrow> keeps I (kwhile c body)"
  unfolding kwhile_def keeps_def [of I "\<lambda>s w. kwhile_n (Suc (length w)) c body s w"]
proof (intro allI impI)
  fix s w a t v
  assume "keeps I body" and I: "I s" "rely I w"
    and run: "kwhile_n (Suc (length w)) c body s w = Done a t v"
  then have "keeps I (kwhile_n (Suc (length w)) c body)" by (simp only: keeps_kwhile_n)
  from keepsD [OF this I run] show "I t \<and> rely I v" .
qed

end
