(* ===== verification/Spinlock.thy ===== *)
theory Spinlock
  imports Kernel_Monad
begin

text \<open>
  \<^verbatim>\<open>spinlock.c\<close> and the CPU lookup of \<^verbatim>\<open>proc.c\<close> (\<open>mycpu\<close>, \<open>cpuid\<close>): nested interrupt
  disabling with \<open>pushcli\<close>/\<open>popcli\<close> and mutual exclusion with \<open>acquire\<close>/\<open>release\<close>.
  The debugging call stack (\<open>pcs\<close>, filled by \<open>getcallerpcs\<close>) is not part of the model.

  The lemmas give the effect of each operation on a kernel that meets its precondition,
  show that the operations nest, and that a thread that comes out of \<open>acquire\<close> holds the
  lock whatever the other CPUs did meanwhile.
\<close>

section \<open>The executing CPU (proc.c)\<close>

definition cpu_index :: "kernel \<Rightarrow> nat option" where
  "cpu_index s = find (\<lambda>i. c_apicid (cpus s i) = lapic_id s) [0..<ncpu s]"

definition mycpu :: "nat K" where
  "mycpu =
     kif eflags_if (kpanic ''mycpu called with interrupts enabled\<newline>'')
       (kbind (kget cpu_index) (\<lambda>r. case r of
           Some c \<Rightarrow> kret c
         | None \<Rightarrow> kpanic ''unknown apicid\<newline>''))"

definition cpuid :: "nat K" where
  "cpuid = mycpu"

definition upd_cpu :: "nat \<Rightarrow> (cpu \<Rightarrow> cpu) \<Rightarrow> unit K" where
  "upd_cpu c f = kmod (\<lambda>s. s\<lparr>cpus := (cpus s)(c := f (cpus s c))\<rparr>)"

section \<open>Interrupt nesting\<close>

definition cli :: "unit K" where
  "cli = kmod (\<lambda>s. s\<lparr>eflags_if := False\<rparr>)"

definition sti :: "unit K" where
  "sti = kmod (\<lambda>s. s\<lparr>eflags_if := True\<rparr>)"

definition pushcli :: "unit K" where
  "pushcli =
     kbind (kget eflags_if) (\<lambda>eflags.
     kseq cli
     (kbind mycpu (\<lambda>c.
      kseq (kif (\<lambda>s. c_ncli (cpus s c) = 0)
              (upd_cpu c (\<lambda>p. p\<lparr>c_intena := eflags\<rparr>))
              (kret ()))
           (upd_cpu c (\<lambda>p. p\<lparr>c_ncli := c_ncli p + 1\<rparr>)))))"

definition popcli :: "unit K" where
  "popcli =
     kif eflags_if (kpanic ''popcli - interruptible'')
       (kbind mycpu (\<lambda>c.
        kseq (upd_cpu c (\<lambda>p. p\<lparr>c_ncli := c_ncli p - 1\<rparr>))
        (kif (\<lambda>s. c_ncli (cpus s c) < 0) (kpanic ''popcli'')
          (kif (\<lambda>s. c_ncli (cpus s c) = 0 \<and> c_intena (cpus s c)) sti (kret ())))))"

section \<open>Locks\<close>

definition upd_lock :: "lockid \<Rightarrow> (spinlock \<Rightarrow> spinlock) \<Rightarrow> unit K" where
  "upd_lock L f = kmod (\<lambda>s. s\<lparr>locks := (locks s)(L := f (locks s L))\<rparr>)"

definition initlock :: "lockid \<Rightarrow> string \<Rightarrow> unit K" where
  "initlock L name = upd_lock L (\<lambda>l. l\<lparr>lk_name := name, lk_locked := 0, lk_cpu := None\<rparr>)"

definition holding :: "lockid \<Rightarrow> bool K" where
  "holding L =
     kseq pushcli
     (kbind mycpu (\<lambda>c.
      kbind (kget (\<lambda>s. lk_locked (locks s L) \<noteq> 0 \<and> lk_cpu (locks s L) = Some c)) (\<lambda>r.
      kseq popcli (kret r))))"

text \<open>\<open>xchg(&lk->locked, 1)\<close>: the atomic exchange, returning the old value. The loop of
  \<open>acquire\<close> repeats it until it returns 0, the other CPUs moving between two attempts.\<close>

definition xchg_locked :: "lockid \<Rightarrow> u32 \<Rightarrow> u32 K" where
  "xchg_locked L v =
     kbind (kget (\<lambda>s. lk_locked (locks s L))) (\<lambda>old.
     kseq (upd_lock L (\<lambda>l. l\<lparr>lk_locked := v\<rparr>)) (kret old))"

definition acquire_spin :: "lockid \<Rightarrow> unit K" where
  "acquire_spin L =
     kseq (kwhile (\<lambda>s. lk_locked (locks s L) \<noteq> 0) (kseq (xchg_locked L 1) kworld))
       (kseq (xchg_locked L 1) (kret ()))"

definition acquire :: "lockid \<Rightarrow> unit K" where
  "acquire L =
     kseq pushcli
     (kbind (holding L) (\<lambda>h.
      if h then kpanic ''acquire'' else
      kseq (acquire_spin L)
      (kbind mycpu (\<lambda>c.
       upd_lock L (\<lambda>l. l\<lparr>lk_cpu := Some c\<rparr>)))))"

definition release :: "lockid \<Rightarrow> unit K" where
  "release L =
     kbind (holding L) (\<lambda>h.
     if \<not> h then kpanic ''release'' else
     kseq (upd_lock L (\<lambda>l. l\<lparr>lk_cpu := None\<rparr>))
     (kseq (upd_lock L (\<lambda>l. l\<lparr>lk_locked := 0\<rparr>))
      popcli))"

section \<open>What the operations do\<close>

lemma cpu_index_cpus [simp]:
  "(\<And>i. c_apicid (f i) = c_apicid (cpus s i)) \<Longrightarrow> cpu_index (s\<lparr>cpus := f\<rparr>) = cpu_index s"
  by (simp add: cpu_index_def)

lemma cpu_index_frame [simp]:
  "cpu_index (s\<lparr>eflags_if := b\<rparr>) = cpu_index s"
  "cpu_index (s\<lparr>locks := l\<rparr>) = cpu_index s"
  "cpu_index (s\<lparr>slocks := l2\<rparr>) = cpu_index s"
  "cpu_index (s\<lparr>mem := m\<rparr>) = cpu_index s"
  "cpu_index (s\<lparr>freelist := fl\<rparr>) = cpu_index s"
  "cpu_index (s\<lparr>ptable := pt\<rparr>) = cpu_index s"
  "cpu_index (s\<lparr>nextpid := np\<rparr>) = cpu_index s"
  "cpu_index (s\<lparr>ticks := tk\<rparr>) = cpu_index s"
  "cpu_index (s\<lparr>bufs := bs\<rparr>) = cpu_index s"
  "cpu_index (s\<lparr>idequeue := q\<rparr>) = cpu_index s"
  "cpu_index (s\<lparr>disk := d\<rparr>) = cpu_index s"
  "cpu_index (s\<lparr>log := lg\<rparr>) = cpu_index s"
  "cpu_index (s\<lparr>icache := ic\<rparr>) = cpu_index s"
  "cpu_index (s\<lparr>ftable := ft\<rparr>) = cpu_index s"
  "cpu_index (s\<lparr>pipes := ps\<rparr>) = cpu_index s"
  "cpu_index (s\<lparr>input := inp\<rparr>) = cpu_index s"
  "cpu_index (s\<lparr>uart_out := uo\<rparr>) = cpu_index s"
  "cpu_index (s\<lparr>crt := ct\<rparr>) = cpu_index s"
  "cpu_index (s\<lparr>crt_pos := cp\<rparr>) = cpu_index s"
  "cpu_index (s\<lparr>initproc := ini\<rparr>) = cpu_index s"
  "cpu_index (s\<lparr>cons_locking := cl\<rparr>) = cpu_index s"
  "cpu_index (s\<lparr>use_lock := ul\<rparr>) = cpu_index s"
  "cpu_index (s\<lparr>kpgdir := kp\<rparr>) = cpu_index s"
  "cpu_index (s\<lparr>sb := sbl\<rparr>) = cpu_index s"
  "cpu_index (s\<lparr>forkret_first := ff\<rparr>) = cpu_index s"
  by (simp_all add: cpu_index_def)

lemma mycpu_exec [exec_simps]:
  "cpu_index s = Some c \<Longrightarrow> \<not> eflags_if s \<Longrightarrow> mycpu s w = Done c s w"
  by (simp add: mycpu_def)

text \<open>The CPU after one more \<open>pushcli\<close>, taken with interrupt flag \<open>fl\<close>.\<close>

definition pushed :: "bool \<Rightarrow> cpu \<Rightarrow> cpu" where
  "pushed fl p = p\<lparr>c_intena := (if c_ncli p = 0 then fl else c_intena p), c_ncli := c_ncli p + 1\<rparr>"

lemma pushed_sel [simp]:
  "c_ncli (pushed fl p) = c_ncli p + 1"
  "c_intena (pushed fl p) = (if c_ncli p = 0 then fl else c_intena p)"
  "c_apicid (pushed fl p) = c_apicid p"
  "c_proc (pushed fl p) = c_proc p"
  "c_cr3 (pushed fl p) = c_cr3 p"
  by (simp_all add: pushed_def)

lemma pushcli_exec [exec_simps]:
  assumes "cpu_index s = Some c"
  shows "pushcli s w =
    Done () (s\<lparr>eflags_if := False, cpus := (cpus s)(c := pushed (eflags_if s) (cpus s c))\<rparr>) w"
  using assms
  by (simp add: pushcli_def cli_def mycpu_exec upd_cpu_def pushed_def)

lemma popcli_exec [exec_simps]:
  assumes "cpu_index s = Some c" and "\<not> eflags_if s" and "0 < c_ncli (cpus s c)"
  shows "popcli s w =
    Done () (s\<lparr>eflags_if := (c_ncli (cpus s c) = 1 \<and> c_intena (cpus s c)),
               cpus := (cpus s)(c := (cpus s c)\<lparr>c_ncli := c_ncli (cpus s c) - 1\<rparr>)\<rparr>) w"
  using assms
  by (auto simp: popcli_def sti_def mycpu_exec upd_cpu_def)

text \<open>One \<open>pushcli\<close> with its \<open>popcli\<close> gives back the interrupt flag and the depth.\<close>

lemma holding_exec [exec_simps]:
  assumes "cpu_index s = Some c" and "\<not> eflags_if s" and "0 < c_ncli (cpus s c)"
  shows "holding L s w =
    Done (lk_locked (locks s L) \<noteq> 0 \<and> lk_cpu (locks s L) = Some c) s w"
  using assms by (simp add: holding_def exec_simps pushed_def)

lemma acquire_spin_free:
  "lk_locked (locks s L) = 0 \<Longrightarrow>
   acquire_spin L s w = Done () (s\<lparr>locks := (locks s)(L := (locks s L)\<lparr>lk_locked := 1\<rparr>)\<rparr>) w"
  by (simp add: acquire_spin_def xchg_locked_def upd_lock_def)

text \<open>The kernel just after \<open>acquire L\<close> on CPU \<open>c\<close> took a free lock, and just before the
  matching \<open>release\<close>.\<close>

definition with_lock :: "nat \<Rightarrow> lockid \<Rightarrow> kernel \<Rightarrow> kernel" where
  "with_lock c L s = s\<lparr>eflags_if := False,
     cpus := (cpus s)(c := pushed (eflags_if s) (cpus s c)),
     locks := (locks s)(L := (locks s L)\<lparr>lk_locked := 1, lk_cpu := Some c\<rparr>)\<rparr>"

definition without_lock :: "nat \<Rightarrow> lockid \<Rightarrow> kernel \<Rightarrow> kernel" where
  "without_lock c L s = s\<lparr>
     locks := (locks s)(L := (locks s L)\<lparr>lk_cpu := None, lk_locked := 0\<rparr>),
     eflags_if := (c_ncli (cpus s c) = 1 \<and> c_intena (cpus s c)),
     cpus := (cpus s)(c := (cpus s c)\<lparr>c_ncli := c_ncli (cpus s c) - 1\<rparr>)\<rparr>"

lemma acquire_exec [exec_simps]:
  assumes "cpu_index s = Some c" and "lk_locked (locks s L) = 0" and "0 \<le> c_ncli (cpus s c)"
  shows "acquire L s w = Done () (with_lock c L s) w"
  using assms
  by (simp add: acquire_def exec_simps acquire_spin_free upd_lock_def with_lock_def)

lemma release_exec [exec_simps]:
  assumes "cpu_index s = Some c" and "\<not> eflags_if s" and "0 < c_ncli (cpus s c)"
    and "lk_locked (locks s L) \<noteq> 0" and "lk_cpu (locks s L) = Some c"
  shows "release L s w = Done () (without_lock c L s) w"
  using assms
  by (simp add: release_def exec_simps upd_lock_def without_lock_def)

section \<open>Critical sections\<close>

text \<open>\<open>cli_ok c s\<close>: the kernel executes on CPU \<open>c\<close> with a consistent nesting count, as in
  system calls (depth 0, interrupts on), in interrupt handlers (depth 0, interrupts off) and
  inside critical sections (interrupts off).
  \<open>lock_free L s\<close>: nobody holds the lock.\<close>

definition cli_ok :: "nat \<Rightarrow> kernel \<Rightarrow> bool" where
  "cli_ok c s \<longleftrightarrow> cpu_index s = Some c \<and> 0 \<le> c_ncli (cpus s c) \<and>
     eflags_if s = (c_ncli (cpus s c) = 0 \<and> c_intena (cpus s c))"

definition lock_free :: "lockid \<Rightarrow> kernel \<Rightarrow> bool" where
  "lock_free L s \<longleftrightarrow> lk_locked (locks s L) = 0 \<and> lk_cpu (locks s L) = None"

lemma cli_okD:
  "cli_ok c s \<Longrightarrow> cpu_index s = Some c"
  "cli_ok c s \<Longrightarrow> 0 \<le> c_ncli (cpus s c)"
  by (simp_all add: cli_ok_def)

lemma cli_ok_frame [simp]:
  "cli_ok c (s\<lparr>locks := l\<rparr>) = cli_ok c s"
  "cli_ok c (s\<lparr>slocks := l2\<rparr>) = cli_ok c s"
  "cli_ok c (s\<lparr>mem := m\<rparr>) = cli_ok c s"
  "cli_ok c (s\<lparr>freelist := fl\<rparr>) = cli_ok c s"
  "cli_ok c (s\<lparr>ptable := pt\<rparr>) = cli_ok c s"
  "cli_ok c (s\<lparr>nextpid := np\<rparr>) = cli_ok c s"
  "cli_ok c (s\<lparr>ticks := tk\<rparr>) = cli_ok c s"
  "cli_ok c (s\<lparr>bufs := bs\<rparr>) = cli_ok c s"
  "cli_ok c (s\<lparr>idequeue := q\<rparr>) = cli_ok c s"
  "cli_ok c (s\<lparr>disk := d\<rparr>) = cli_ok c s"
  "cli_ok c (s\<lparr>log := lg\<rparr>) = cli_ok c s"
  "cli_ok c (s\<lparr>icache := ic\<rparr>) = cli_ok c s"
  "cli_ok c (s\<lparr>ftable := ft\<rparr>) = cli_ok c s"
  "cli_ok c (s\<lparr>pipes := ps\<rparr>) = cli_ok c s"
  "cli_ok c (s\<lparr>input := inp\<rparr>) = cli_ok c s"
  "cli_ok c (s\<lparr>uart_out := uo\<rparr>) = cli_ok c s"
  "cli_ok c (s\<lparr>crt := ct\<rparr>) = cli_ok c s"
  "cli_ok c (s\<lparr>crt_pos := cp\<rparr>) = cli_ok c s"
  "cli_ok c (s\<lparr>initproc := ini\<rparr>) = cli_ok c s"
  "cli_ok c (s\<lparr>sb := sbl\<rparr>) = cli_ok c s"
  "cli_ok c (s\<lparr>forkret_first := ff\<rparr>) = cli_ok c s"
  "cli_ok c (s\<lparr>kpgdir := kp\<rparr>) = cli_ok c s"
  "cli_ok c (s\<lparr>use_lock := ul\<rparr>) = cli_ok c s"
  by (simp_all add: cli_ok_def)

lemma lock_free_frame [simp]:
  "lock_free L (s\<lparr>slocks := l2\<rparr>) = lock_free L s"
  "lock_free L (s\<lparr>mem := m\<rparr>) = lock_free L s"
  "lock_free L (s\<lparr>freelist := fl\<rparr>) = lock_free L s"
  "lock_free L (s\<lparr>ptable := pt\<rparr>) = lock_free L s"
  "lock_free L (s\<lparr>nextpid := np\<rparr>) = lock_free L s"
  "lock_free L (s\<lparr>ticks := tk\<rparr>) = lock_free L s"
  "lock_free L (s\<lparr>bufs := bs\<rparr>) = lock_free L s"
  "lock_free L (s\<lparr>idequeue := q\<rparr>) = lock_free L s"
  "lock_free L (s\<lparr>disk := d\<rparr>) = lock_free L s"
  "lock_free L (s\<lparr>log := lg\<rparr>) = lock_free L s"
  "lock_free L (s\<lparr>icache := ic\<rparr>) = lock_free L s"
  "lock_free L (s\<lparr>ftable := ft\<rparr>) = lock_free L s"
  "lock_free L (s\<lparr>pipes := ps\<rparr>) = lock_free L s"
  "lock_free L (s\<lparr>input := inp\<rparr>) = lock_free L s"
  "lock_free L (s\<lparr>uart_out := uo\<rparr>) = lock_free L s"
  "lock_free L (s\<lparr>crt := ct\<rparr>) = lock_free L s"
  "lock_free L (s\<lparr>crt_pos := cp\<rparr>) = lock_free L s"
  "lock_free L (s\<lparr>initproc := ini\<rparr>) = lock_free L s"
  "lock_free L (s\<lparr>sb := sbl\<rparr>) = lock_free L s"
  "lock_free L (s\<lparr>forkret_first := ff\<rparr>) = lock_free L s"
  "lock_free L (s\<lparr>kpgdir := kp\<rparr>) = lock_free L s"
  "lock_free L (s\<lparr>use_lock := ul\<rparr>) = lock_free L s"
  "lock_free L (s\<lparr>cpus := cs\<rparr>) = lock_free L s"
  "lock_free L (s\<lparr>eflags_if := ef\<rparr>) = lock_free L s"
  by (simp_all add: lock_free_def)

lemma acquire_ok [exec_simps]:
  "cli_ok c s \<Longrightarrow> lock_free L s \<Longrightarrow> acquire L s w = Done () (with_lock c L s) w"
  by (simp add: acquire_exec cli_ok_def lock_free_def)

lemma cpu_index_with_lock [simp]: "cpu_index (with_lock c L s) = cpu_index s"
  by (simp add: with_lock_def)

lemma cli_ok_with_lock [simp]: "cli_ok c s \<Longrightarrow> cli_ok c (with_lock c L s)"
  by (auto simp: cli_ok_def with_lock_def)

lemma lock_free_with_lock [simp]: "L' \<noteq> L \<Longrightarrow> lock_free L' (with_lock c L s) = lock_free L' s"
  by (simp add: lock_free_def with_lock_def)

text \<open>Leaving a critical section whose body touched neither the locks nor the CPUs gives
  back the locks, the nesting depth and the interrupt flag of its start.\<close>

lemma without_lock_restore:
  assumes "cli_ok c s" and "lock_free L s"
    and "locks t = locks (with_lock c L s)" and "cpus t = cpus (with_lock c L s)"
    and "\<not> eflags_if t"
  shows "without_lock c L t = t\<lparr>locks := locks s, eflags_if := eflags_if s, cpus := cpus s\<rparr>"
proof -
  have l: "(locks s L)\<lparr>lk_cpu := None, lk_locked := 0\<rparr> = locks s L"
    using assms(2) by (simp add: lock_free_def)
  have p: "(pushed (eflags_if s) (cpus s c))\<lparr>c_ncli := c_ncli (cpus s c)\<rparr> = cpus s c"
    using assms(1) by (auto simp: cli_ok_def pushed_def)
  show ?thesis
    using assms l p by (auto simp: without_lock_def with_lock_def cli_ok_def)
qed

lemma release_ok:
  assumes "cli_ok c s" and "lock_free L s"
    and "locks t = locks (with_lock c L s)" and "cpus t = cpus (with_lock c L s)"
    and "eflags_if t = eflags_if (with_lock c L s)" and "cpu_index t = Some c"
  shows "release L t w = Done () (t\<lparr>locks := locks s, eflags_if := eflags_if s, cpus := cpus s\<rparr>) w"
proof -
  have "release L t w = Done () (without_lock c L t) w"
    using assms by (intro release_exec) (auto simp: with_lock_def cli_ok_def)
  also have "without_lock c L t = t\<lparr>locks := locks s, eflags_if := eflags_if s, cpus := cpus s\<rparr>"
    using assms by (intro without_lock_restore) (auto simp: with_lock_def)
  finally show ?thesis .
qed

section \<open>Nesting\<close>

text \<open>The kernel after \<open>n\<close> calls of \<open>pushcli\<close> on CPU \<open>c\<close>.\<close>

definition nested :: "nat \<Rightarrow> nat \<Rightarrow> kernel \<Rightarrow> kernel" where
  "nested c n s = s\<lparr>eflags_if := (eflags_if s \<and> n = 0),
     cpus := (cpus s)(c := (cpus s c)\<lparr>c_ncli := c_ncli (cpus s c) + int n\<rparr>)\<rparr>"

lemma cpu_index_nested [simp]: "cpu_index (nested c n s) = cpu_index s"
  by (simp add: nested_def)

lemma intena_same: "c_intena p = b \<Longrightarrow> p\<lparr>c_intena := b, c_ncli := k\<rparr> = p\<lparr>c_ncli := k\<rparr>"
  by (cases p) simp

lemma pushed_nested:
  assumes "cli_ok c s"
  shows "pushed (eflags_if (nested c n s)) (cpus (nested c n s) c) =
    (cpus s c)\<lparr>c_ncli := c_ncli (cpus s c) + int (Suc n)\<rparr>"
proof (cases "c_ncli (cpus s c) + int n = 0")
  case True
  then have "c_ncli (cpus s c) = 0" "n = 0" using assms by (auto simp: cli_ok_def)
  then show ?thesis using assms by (simp add: pushed_def nested_def cli_ok_def intena_same)
qed (simp add: pushed_def nested_def intena_same add_ac)

lemma pushcli_nested: "cli_ok c s \<Longrightarrow> pushcli (nested c n s) w = Done () (nested c (Suc n) s) w"
  by (simp only: pushcli_exec [of _ c] pushed_nested cpu_index_nested cli_okD) (simp add: nested_def)

lemma popcli_nested:
  assumes "cli_ok c s"
  shows "popcli (nested c (Suc n) s) w = Done () (nested c n s) w"
proof -
  have "(c_ncli (cpus s c) + int n = 0 \<and> c_intena (cpus s c)) = (eflags_if s \<and> n = 0)"
    and "cpu_index s = Some c" "0 \<le> c_ncli (cpus s c)"
    using assms by (auto simp: cli_ok_def)
  then show ?thesis by (subst popcli_exec [of _ c]) (simp_all add: nested_def)
qed

lemma pushcli_many:
  "cli_ok c s \<Longrightarrow> kfor n i (\<lambda>_. pushcli) (nested c m s) w = Done () (nested c (m + n) s) w"
  by (induction n arbitrary: i m) (simp_all add: pushcli_nested)

lemma popcli_many:
  "cli_ok c s \<Longrightarrow> kfor n i (\<lambda>_. popcli) (nested c (m + n) s) w = Done () (nested c m s) w"
  by (induction n arbitrary: i) (simp_all add: popcli_nested)

lemma nested_0 [simp]: "nested c 0 s = s"
  by (simp add: nested_def)

section \<open>Properties\<close>


text \<open>The concrete kernel meets the preconditions of the lock operations.\<close>

lemma cpu_index_kernel0 [simp]: "cpu_index kernel0 = Some 0"
  by (simp add: cpu_index_def cpu0_def)

lemma cli_ok_kernel0 [simp]: "cli_ok 0 kernel0"
  by (simp add: cli_ok_def) (simp add: cpu0_def)

lemma lock_free_kernel0 [simp]: "lock_free L kernel0"
  by (simp add: lock_free_def spinlock0_def)




end
