(* ===== verification/Memory.thy ===== *)
theory Memory
  imports Prelude
begin

text \<open>
  Byte-addressed memory: runs of bytes and little-endian loads and stores. Addresses are
  32-bit words and address arithmetic wraps. \<open>read_bytes\<close> and \<open>write_bytes\<close> are the
  reference operations to which the loops of \<^verbatim>\<open>string.c\<close> and the structure copies of the
  kernel are reduced.
\<close>

section \<open>Runs of bytes\<close>

type_synonym memory = "u32 \<Rightarrow> u8"

definition read_bytes :: "memory \<Rightarrow> u32 \<Rightarrow> nat \<Rightarrow> u8 list" where
  "read_bytes m a n = map (\<lambda>i. m (a + of_nat i)) [0..<n]"

definition write_bytes :: "memory \<Rightarrow> u32 \<Rightarrow> u8 list \<Rightarrow> memory" where
  "write_bytes m a bs = (\<lambda>x. if unat (x - a) < length bs then bs ! unat (x - a) else m x)"

lemma length_read_bytes [simp]: "length (read_bytes m a n) = n"
  by (simp add: read_bytes_def)

lemma nth_read_bytes [simp]: "i < n \<Longrightarrow> read_bytes m a n ! i = m (a + of_nat i)"
  by (simp add: read_bytes_def)

lemma write_bytes_Nil [simp]: "write_bytes m a [] = m"
  by (simp add: write_bytes_def)

lemma unat_of_nat_u32: "i < 2 ^ 32 \<Longrightarrow> unat (of_nat i :: u32) = i"
  by (simp add: unat_of_nat)

lemma write_bytes_inside:
  "i < length bs \<Longrightarrow> length bs \<le> 2 ^ 32 \<Longrightarrow> write_bytes m a bs (a + of_nat i) = bs ! i"
  by (simp add: write_bytes_def unat_of_nat_u32)

lemma write_bytes_outside:
  "length bs \<le> unat (x - a) \<Longrightarrow> write_bytes m a bs x = m x"
  by (simp add: write_bytes_def)

lemma read_write_bytes:
  "length bs \<le> 2 ^ 32 \<Longrightarrow> n = length bs \<Longrightarrow> read_bytes (write_bytes m a bs) a n = bs"
  by (intro nth_equalityI) (simp_all add: write_bytes_inside)

lemma read_write_bytes_disjoint:
  "(\<And>i. i < n \<Longrightarrow> length bs \<le> unat (b + of_nat i - a)) \<Longrightarrow>
   read_bytes (write_bytes m a bs) b n = read_bytes m b n"
  by (intro nth_equalityI) (simp_all add: write_bytes_outside)

lemma read_bytes_cong:
  "(\<And>i. i < n \<Longrightarrow> m (a + of_nat i) = m' (a + of_nat i)) \<Longrightarrow> read_bytes m a n = read_bytes m' a n"
  by (intro nth_equalityI) simp_all

text \<open>Writing the first byte and then the rest is writing the whole run, in either order.\<close>

lemma write_bytes_Cons:
  assumes "length bs < 2 ^ 32"
  shows "write_bytes m a (b # bs) = write_bytes (m(a := b)) (a + 1) bs"
proof
  fix x
  show "write_bytes m a (b # bs) x = write_bytes (m(a := b)) (a + 1) bs x"
  proof (cases "x = a")
    case True
    have "unat (- 1 :: u32) = 2 ^ 32 - 1" by (simp add: unsigned_minus_1_eq_mask mask_eq_exp_minus_1)
    with True assms show ?thesis by (simp add: write_bytes_def)
  next
    case False
    then have "unat (x - a) \<noteq> 0" by (simp add: unat_eq_0)
    moreover have "x - (a + 1) = (x - a) - 1" by simp
    ultimately have "unat (x - (a + 1)) = unat (x - a) - 1"
      by (metis gr0I unat_minus_one unat_0)
    with False \<open>unat (x - a) \<noteq> 0\<close> show ?thesis
      by (auto simp: write_bytes_def nth_Cons split: nat.splits)
  qed
qed

lemma read_bytes_Suc: "read_bytes m a (Suc n) = m a # read_bytes m (a + 1) n"
  by (intro nth_equalityI) (simp_all add: nth_Cons algebra_simps split: nat.splits)

lemma read_bytes_snoc: "read_bytes m a (Suc n) = read_bytes m a n @ [m (a + of_nat n)]"
  by (simp add: read_bytes_def)

lemma write_bytes_append:
  assumes "length xs + length ys \<le> 2 ^ 32"
  shows "write_bytes m a (xs @ ys) = write_bytes (write_bytes m a xs) (a + of_nat (length xs)) ys"
  using assms
proof (induction xs arbitrary: m a)
  case (Cons x xs)
  then have "write_bytes m a ((x # xs) @ ys) = write_bytes (m(a := x)) (a + 1) (xs @ ys)"
    by (simp add: write_bytes_Cons)
  also have "\<dots> = write_bytes (write_bytes (m(a := x)) (a + 1) xs) (a + 1 + of_nat (length xs)) ys"
    using Cons by simp
  also have "write_bytes (m(a := x)) (a + 1) xs = write_bytes m a (x # xs)"
    using Cons.prems by (simp add: write_bytes_Cons)
  finally show ?case by (simp add: algebra_simps)
qed simp

lemma write_bytes_snoc:
  assumes "length bs < 2 ^ 32"
  shows "write_bytes m a (bs @ [b]) = write_bytes (m(a + of_nat (length bs) := b)) a bs"
proof
  fix x
  have eq: "unat (x - a) = length bs \<longleftrightarrow> x = a + of_nat (length bs)"
  proof
    assume "unat (x - a) = length bs"
    then have "of_nat (unat (x - a)) = (of_nat (length bs) :: u32)" by simp
    then have "x - a = of_nat (length bs)" by simp
    then show "x = a + of_nat (length bs)" by (simp add: algebra_simps)
  next
    assume "x = a + of_nat (length bs)"
    with assms show "unat (x - a) = length bs" by (simp add: unat_of_nat_u32)
  qed
  consider "unat (x - a) < length bs" | "unat (x - a) = length bs" | "length bs < unat (x - a)"
    by linarith
  then show "write_bytes m a (bs @ [b]) x = write_bytes (m(a + of_nat (length bs) := b)) a bs x"
  proof cases
    case 2
    then have "x = a + of_nat (length bs)" by (simp only: eq)
    with 2 show ?thesis by (simp add: write_bytes_def)
  next
    case 3
    then have "x \<noteq> a + of_nat (length bs)" using eq by simp
    with 3 show ?thesis by (simp add: write_bytes_def)
  qed (simp add: write_bytes_def nth_append)
qed

section \<open>Little-endian words\<close>

definition le16 :: "u16 \<Rightarrow> u8 list" where
  "le16 v = [ucast v, ucast (drop_bit 8 v)]"

definition of_le16 :: "u8 list \<Rightarrow> u16" where
  "of_le16 bs = (ucast (bs ! 0) OR push_bit 8 (ucast (bs ! 1)))"

definition le32 :: "u32 \<Rightarrow> u8 list" where
  "le32 v = [ucast v, ucast (drop_bit 8 v), ucast (drop_bit 16 v), ucast (drop_bit 24 v)]"

definition of_le32 :: "u8 list \<Rightarrow> u32" where
  "of_le32 bs = (ucast (bs ! 0) OR push_bit 8 (ucast (bs ! 1)) OR
     push_bit 16 (ucast (bs ! 2)) OR push_bit 24 (ucast (bs ! 3)))"

lemma length_le16 [simp]: "length (le16 v) = 2"
  by (simp add: le16_def)

lemma length_le32 [simp]: "length (le32 v) = 4"
  by (simp add: le32_def)

lemma of_le16_le16 [simp]: "of_le16 (le16 v) = v"
  by (rule bit_word_eqI) (auto simp: of_le16_def le16_def bit_simps)

lemma of_le32_le32 [simp]: "of_le32 (le32 v) = v"
proof (rule bit_word_eqI)
  fix n assume "n < LENGTH(32)"
  then consider "n < 8" | "8 \<le> n \<and> n < 16" | "16 \<le> n \<and> n < 24" | "24 \<le> n \<and> n < 32"
    by fastforce
  then show "bit (of_le32 (le32 v)) n = bit v n"
    by cases (auto simp: of_le32_def le32_def bit_simps)
qed

definition load32 :: "memory \<Rightarrow> u32 \<Rightarrow> u32" where
  "load32 m a = of_le32 (read_bytes m a 4)"

definition store32 :: "memory \<Rightarrow> u32 \<Rightarrow> u32 \<Rightarrow> memory" where
  "store32 m a v = write_bytes m a (le32 v)"

lemma load32_store32 [simp]: "load32 (store32 m a v) a = v"
  by (simp add: load32_def store32_def read_write_bytes)

end
