(* ===== verification/Mmu.thy ===== *)
theory Mmu
  imports Memory
begin

text \<open>
  The address arithmetic of \<^verbatim>\<open>mmu.h\<close> and \<^verbatim>\<open>memlayout.h\<close>: page rounding, the three parts of a
  virtual address, page table entries, and the direct map between physical addresses and
  kernel addresses. The lemmas give the laws of pages: two different page-aligned addresses
  begin disjoint pages, and rounding finds the neighbouring page boundaries.
\<close>

section \<open>Memory layout (memlayout.h)\<close>

abbreviation (input) EXTMEM :: u32 where "EXTMEM \<equiv> 0x100000"
abbreviation (input) PHYSTOP :: u32 where "PHYSTOP \<equiv> 0xE000000"
abbreviation (input) DEVSPACE :: u32 where "DEVSPACE \<equiv> 0xFE000000"
abbreviation (input) KERNBASE :: u32 where "KERNBASE \<equiv> 0x80000000"
abbreviation (input) KERNLINK :: u32 where "KERNLINK \<equiv> 0x80100000"

definition V2P :: "u32 \<Rightarrow> u32" where
  "V2P a = a - KERNBASE"

definition P2V :: "u32 \<Rightarrow> u32" where
  "P2V a = a + KERNBASE"

lemma P2V_V2P [simp]: "P2V (V2P a) = a" and V2P_P2V [simp]: "V2P (P2V a) = a"
  by (simp_all add: P2V_def V2P_def)

section \<open>Pages and page table entries (mmu.h)\<close>

abbreviation (input) PGSIZE :: u32 where "PGSIZE \<equiv> 4096"
abbreviation (input) NPDENTRIES :: nat where "NPDENTRIES \<equiv> 1024"
abbreviation (input) PTE_P :: u32 where "PTE_P \<equiv> 1"
abbreviation (input) PTE_W :: u32 where "PTE_W \<equiv> 2"
abbreviation (input) PTE_U :: u32 where "PTE_U \<equiv> 4"

definition PDX :: "u32 \<Rightarrow> u32" where
  "PDX va = (drop_bit 22 va) AND 0x3FF"

definition PTX :: "u32 \<Rightarrow> u32" where
  "PTX va = (drop_bit 12 va) AND 0x3FF"

definition PGADDR :: "u32 \<Rightarrow> u32 \<Rightarrow> u32 \<Rightarrow> u32" where
  "PGADDR d t off = (push_bit 22 d OR push_bit 12 t OR off)"

definition PGROUNDUP :: "u32 \<Rightarrow> u32" where
  "PGROUNDUP sz = (sz + PGSIZE - 1) AND NOT (PGSIZE - 1)"

definition PGROUNDDOWN :: "u32 \<Rightarrow> u32" where
  "PGROUNDDOWN a = a AND NOT (PGSIZE - 1)"

definition PTE_ADDR :: "u32 \<Rightarrow> u32" where
  "PTE_ADDR pte = pte AND NOT 0xFFF"

definition PTE_FLAGS :: "u32 \<Rightarrow> u32" where
  "PTE_FLAGS pte = pte AND 0xFFF"

section \<open>Alignment\<close>

definition pg_aligned :: "u32 \<Rightarrow> bool" where
  "pg_aligned a \<longleftrightarrow> a mod PGSIZE = 0"

lemma mod_pgsize: "(a :: u32) mod PGSIZE = take_bit 12 a"
  by (simp add: take_bit_eq_mod)

lemma mask12: "(0xFFF :: u32) = mask 12"
  by (simp add: mask_eq_exp_minus_1)

lemma mask10: "(0x3FF :: u32) = mask 10"
  by (simp add: mask_eq_exp_minus_1)

lemma pg_aligned_take_bit: "pg_aligned a \<longleftrightarrow> take_bit 12 a = 0"
  by (simp only: pg_aligned_def mod_pgsize)

lemma pg_aligned_unat: "pg_aligned a \<longleftrightarrow> 4096 dvd unat a"
proof -
  have "unat (a mod PGSIZE) = unat a mod 4096" by (simp add: unat_mod)
  then show ?thesis
    by (metis dvd_eq_mod_eq_0 pg_aligned_def unat_0_iff)
qed

lemma dvd_pg_exp: "(4096 :: nat) dvd 2 ^ 32"
  by simp

lemma pg_aligned_diff: "pg_aligned a \<Longrightarrow> pg_aligned b \<Longrightarrow> pg_aligned (a - b)"
  unfolding pg_aligned_unat unat_sub_if_size
  by (auto simp: word_size intro!: dvd_diff_nat dvd_add)

lemma pg_aligned_add: "pg_aligned a \<Longrightarrow> pg_aligned b \<Longrightarrow> pg_aligned (a + b)"
  unfolding pg_aligned_unat unat_word_ariths
  by (auto intro!: dvd_mod)

lemma pg_aligned_pgsize [simp]: "pg_aligned PGSIZE"
  by (simp add: pg_aligned_def)

text \<open>A byte of one page is at distance at least a page from the start of another.\<close>

lemma pages_disjoint:
  assumes "pg_aligned x" and "pg_aligned v" and "x \<noteq> v" and "i < 4096"
  shows "4096 \<le> unat (x + of_nat i - v)"
proof -
  let ?d = "x - v"
  from assms(1,2) have "4096 dvd unat ?d"
    by (simp add: pg_aligned_diff flip: pg_aligned_unat)
  then obtain k where k: "unat ?d = 4096 * k" by (auto elim: dvdE)
  moreover have "unat ?d \<noteq> 0"
    using assms(3) by (simp add: unat_0_iff)
  moreover have "unat ?d < 2 ^ 32"
    by (rule unat_lt_u32)
  ultimately have "4096 \<le> unat ?d" and "unat ?d + i < 2 ^ 32"
    using assms(4) by (auto simp: numeral_eq_Suc [of "num.One"])
  then have sum: "unat (?d + of_nat i) = unat ?d + i"
    by (simp add: unat_word_ariths unat_of_nat)
  have eq: "x + of_nat i - v = ?d + of_nat i"
    by simp
  show ?thesis
    unfolding eq sum using \<open>4096 \<le> unat ?d\<close> by simp
qed

lemma pg_aligned_PGROUNDDOWN [simp]: "pg_aligned (PGROUNDDOWN a)"
  unfolding pg_aligned_take_bit PGROUNDDOWN_def
  by (rule bit_word_eqI) (auto simp: bit_simps mask12)

lemma pg_aligned_PGROUNDUP [simp]: "pg_aligned (PGROUNDUP a)"
  unfolding pg_aligned_take_bit PGROUNDUP_def
  by (rule bit_word_eqI) (auto simp: bit_simps mask12)

lemma pg_aligned_PTE_ADDR [simp]: "pg_aligned (PTE_ADDR a)"
  unfolding pg_aligned_take_bit PTE_ADDR_def
  by (rule bit_word_eqI) (auto simp: bit_simps mask12)

end
