(* ===== verification/Cstring.thy ===== *)
theory Cstring
  imports Memory
begin

text \<open>
  \<^verbatim>\<open>string.c\<close>. The two bulk routines \<open>memset\<close> and \<open>memmove\<close> are loops over memory as in
  the source; the lemmas show that they have the effect of one write of a byte list, for
  \<open>memset\<close> on both of its paths and for \<open>memmove\<close> also when source and destination
  overlap. The string routines read through a pointer, modelled as the sequence of the
  bytes found from it (\<open>cstr\<close>), and return the bytes they store.
\<close>

section \<open>memset\<close>

primrec stosb :: "nat \<Rightarrow> u32 \<Rightarrow> u8 \<Rightarrow> memory \<Rightarrow> memory" where
  "stosb 0 a b m = m"
| "stosb (Suc n) a b m = stosb n (a + 1) b (m(a := b))"

primrec stosl :: "nat \<Rightarrow> u32 \<Rightarrow> u32 \<Rightarrow> memory \<Rightarrow> memory" where
  "stosl 0 a v m = m"
| "stosl (Suc n) a v m = stosl n (a + 4) v (store32 m a v)"

definition memset :: "u32 \<Rightarrow> u32 \<Rightarrow> u32 \<Rightarrow> memory \<Rightarrow> memory" where
  "memset dst c n m =
     (if dst mod 4 = 0 \<and> n mod 4 = 0 then
        (let c = c AND 0xFF in
         stosl (unat (n div 4)) dst
           (push_bit 24 c OR push_bit 16 c OR push_bit 8 c OR c) m)
      else stosb (unat n) dst (ucast c) m)"

lemma stosb_write_bytes: "n \<le> 2 ^ 32 \<Longrightarrow> stosb n a b m = write_bytes m a (replicate n b)"
  by (induction n arbitrary: a m) (simp_all add: write_bytes_Cons)

lemma stosl_write_bytes:
  "4 * n \<le> 2 ^ 32 \<Longrightarrow> stosl n a v m = write_bytes m a (concat (replicate n (le32 v)))"
proof (induction n arbitrary: a m)
  case (Suc n)
  have len: "length (concat (replicate n (le32 v))) = 4 * n" for n
    by (induction n) simp_all
  have "stosl (Suc n) a v m = write_bytes (store32 m a v) (a + 4) (concat (replicate n (le32 v)))"
    using Suc by simp
  also have "\<dots> = write_bytes m a (le32 v @ concat (replicate n (le32 v)))"
    using Suc.prems by (subst write_bytes_append) (simp_all add: store32_def len)
  finally show ?case by simp
qed simp

lemma le32_splat:
  fixes c :: u32
  defines "d \<equiv> c AND 0xFF"
  shows "le32 (push_bit 24 d OR push_bit 16 d OR push_bit 8 d OR d) = replicate 4 (ucast c)"
proof -
  have m: "(0xFF :: u32) = mask 8"
    by (simp add: mask_eq_exp_minus_1)
  have "replicate 4 (ucast c :: u8) = [ucast c, ucast c, ucast c, ucast c]"
    by (simp add: numeral_eq_Suc)
  then show ?thesis
    by (auto simp: le32_def d_def bit_simps m intro!: bit_word_eqI)
qed

lemma concat_replicate_replicate: "concat (replicate n (replicate k x)) = replicate (n * k) x"
  by (induction n) (simp_all add: replicate_add)

lemma memset_bytes: "memset dst c n m = write_bytes m dst (replicate (unat n) (ucast c))"
proof (cases "dst mod 4 = 0 \<and> n mod 4 = 0")
  case True
  have "unat n mod 4 = unat (n mod 4)"
    by (simp add: unat_mod)
  with True have n: "unat n div 4 * 4 = unat n"
    by auto
  have q: "unat (n div 4) = unat n div 4"
    by (simp add: unat_div)
  have "unat n < 2 ^ 32"
    by (rule unat_lt_u32)
  then have "stosl (unat n div 4) dst v m =
      write_bytes m dst (concat (replicate (unat n div 4) (le32 v)))" for v
    using n by (intro stosl_write_bytes) linarith
  then show ?thesis
    using True
    by (simp only: memset_def Let_def q le32_splat concat_replicate_replicate n if_True simp_thms)
next
  case False
  have "unat n \<le> 2 ^ 32"
    using unat_lt_u32 by (rule less_imp_le)
  with False show ?thesis by (auto simp: memset_def stosb_write_bytes)
qed

text \<open>C36. \<open>memset\<close> stores \<open>n\<close> copies of the low byte of \<open>c\<close> from \<open>dst\<close> and nothing else,
  on the word-wise path for aligned areas as on the byte-wise one; they are then read back.\<close>

theorem memset_spec:
  "memset dst c n m = write_bytes m dst (replicate (unat n) (ucast c)) \<and>
   read_bytes (memset dst c n m) dst (unat n) = replicate (unat n) (ucast c)"
  using less_imp_le [OF unat_lt_u32] by (simp add: memset_bytes read_write_bytes)

section \<open>memmove\<close>

primrec copy_fwd :: "nat \<Rightarrow> u32 \<Rightarrow> u32 \<Rightarrow> memory \<Rightarrow> memory" where
  "copy_fwd 0 d s m = m"
| "copy_fwd (Suc n) d s m = copy_fwd n (d + 1) (s + 1) (m(d := m s))"

primrec copy_bwd :: "nat \<Rightarrow> u32 \<Rightarrow> u32 \<Rightarrow> memory \<Rightarrow> memory" where
  "copy_bwd 0 d s m = m"
| "copy_bwd (Suc n) d s m = copy_bwd n (d - 1) (s - 1) (m(d - 1 := m (s - 1)))"

definition memmove :: "u32 \<Rightarrow> u32 \<Rightarrow> u32 \<Rightarrow> memory \<Rightarrow> memory" where
  "memmove dst src n m =
     (if src < dst \<and> dst < src + n then copy_bwd (unat n) (dst + n) (src + n) m
      else copy_fwd (unat n) dst src m)"

lemma copy_fwd_write_bytes:
  assumes "n \<le> 2 ^ 32" and "\<And>i j. i < j \<Longrightarrow> j < n \<Longrightarrow> d + of_nat i \<noteq> s + of_nat j"
  shows "copy_fwd n d s m = write_bytes m d (read_bytes m s n)"
  using assms
proof (induction n arbitrary: d s m)
  case (Suc n)
  have d: "d \<noteq> s + 1 + of_nat j" if "j < n" for j
    using Suc.prems(2) [of 0 "Suc j"] that by (simp add: algebra_simps)
  have "copy_fwd (Suc n) d s m =
      write_bytes (m(d := m s)) (d + 1) (read_bytes (m(d := m s)) (s + 1) n)"
  proof -
    have "d + 1 + of_nat i \<noteq> s + 1 + of_nat j" if "i < j" "j < n" for i j
      using Suc.prems(2) [of "Suc i" "Suc j"] that by (simp add: algebra_simps)
    then show ?thesis
      unfolding copy_fwd.simps using Suc.prems(1) by (intro Suc.IH) auto
  qed
  also have "read_bytes (m(d := m s)) (s + 1) n = read_bytes m (s + 1) n"
    using d by (intro read_bytes_cong) auto
  also have "write_bytes (m(d := m s)) (d + 1) (read_bytes m (s + 1) n) =
      write_bytes m d (read_bytes m s (Suc n))"
    unfolding read_bytes_Suc using Suc.prems(1) by (intro write_bytes_Cons [symmetric]) simp
  finally show ?case .
qed (simp add: read_bytes_def)

lemma copy_bwd_write_bytes:
  assumes "n \<le> 2 ^ 32" and "\<And>i j. i < j \<Longrightarrow> j < n \<Longrightarrow> d + of_nat j \<noteq> s + of_nat i"
  shows "copy_bwd n (d + of_nat n) (s + of_nat n) m = write_bytes m d (read_bytes m s n)"
  using assms
proof (induction n arbitrary: m)
  case (Suc n)
  let ?m = "m(d + of_nat n := m (s + of_nat n))"
  have "d + of_nat (Suc n) - 1 = d + of_nat n" and "s + of_nat (Suc n) - 1 = s + of_nat n"
    by simp_all
  then have "copy_bwd (Suc n) (d + of_nat (Suc n)) (s + of_nat (Suc n)) m =
      copy_bwd n (d + of_nat n) (s + of_nat n) ?m"
    by (simp only: copy_bwd.simps)
  also have "\<dots> = write_bytes ?m d (read_bytes ?m s n)"
    using Suc.prems by (intro Suc.IH) auto
  also have "read_bytes ?m s n = read_bytes m s n"
    using Suc.prems(2) by (intro read_bytes_cong) fastforce
  also have "write_bytes ?m d (read_bytes m s n) = write_bytes m d (read_bytes m s (Suc n))"
    unfolding read_bytes_snoc using Suc.prems(1) by (subst write_bytes_snoc) simp_all
  finally show ?case .
qed (simp add: read_bytes_def)

lemma add_of_nat_u32_eq:
  assumes "unat (a :: u32) + i < 2 ^ 32" and "unat (b :: u32) + j < 2 ^ 32"
  shows "a + of_nat i = b + of_nat j \<longleftrightarrow> unat a + i = unat b + j"
proof -
  have unat: "unat (x + of_nat k) = unat x + k" if "unat (x :: u32) + k < 2 ^ 32" for x k
    using that by (simp add: unat_word_ariths unat_of_nat)
  show ?thesis
    using unat [OF assms(1)] unat [OF assms(2)] by (simp add: word_unat_eq_iff)
qed

text \<open>C35. \<open>memmove\<close> leaves at the destination what the source held before the call, also
  when the two areas overlap in either direction, and changes nothing else. The areas must
  not reach the end of the address space.\<close>

theorem memmove_spec:
  assumes src: "unat src + unat n < 2 ^ 32" and dst: "unat dst + unat n < 2 ^ 32"
  shows "memmove dst src n m = write_bytes m dst (read_bytes m src (unat n))"
proof (cases "src < dst \<and> dst < src + n")
  case True
  have "copy_bwd (unat n) (dst + of_nat (unat n)) (src + of_nat (unat n)) m =
      write_bytes m dst (read_bytes m src (unat n))"
  proof (rule copy_bwd_write_bytes)
    show "unat n \<le> 2 ^ 32" using unat_lt_u32 by (rule less_imp_le)
  next
    fix i j :: nat assume ij: "i < j" "j < unat n"
    have "unat src < unat dst" using True by (simp add: word_less_nat_alt)
    then show "dst + of_nat j \<noteq> src + of_nat i"
      using src dst ij by (subst add_of_nat_u32_eq) auto
  qed
  with True show ?thesis by (simp add: memmove_def)
next
  case False
  have "unat (src + n) = unat src + unat n"
    using src by (simp add: unat_word_ariths)
  with False have order: "unat dst \<le> unat src \<or> unat src + unat n \<le> unat dst"
    by (auto simp: word_less_nat_alt)
  have "copy_fwd (unat n) dst src m = write_bytes m dst (read_bytes m src (unat n))"
  proof (rule copy_fwd_write_bytes)
    show "unat n \<le> 2 ^ 32" using unat_lt_u32 by (rule less_imp_le)
  next
    fix i j :: nat assume ij: "i < j" "j < unat n"
    then show "dst + of_nat i \<noteq> src + of_nat j"
      using src dst order by (subst add_of_nat_u32_eq) auto
  qed
  with False show ?thesis by (auto simp: memmove_def)
qed

text \<open>An overlapping move, by two bytes upwards: the six bytes arrive intact.\<close>

theorem memmove_spec_witness:
  "memmove 102 100 6 (\<lambda>a. ucast a) =
     write_bytes (\<lambda>a. ucast a) 102 [100, 101, 102, 103, 104, 105]"
proof -
  have "read_bytes (\<lambda>a. ucast a) 100 (unat (6 :: u32)) = [100, 101, 102, 103, 104, 105]"
    by (simp add: read_bytes_def upt_rec)
  with memmove_spec [of 100 6 102 "\<lambda>a. ucast a"] show ?thesis by simp
qed

definition memcpy :: "u32 \<Rightarrow> u32 \<Rightarrow> u32 \<Rightarrow> memory \<Rightarrow> memory" where
  "memcpy dst src n m = memmove dst src n m"

section \<open>Strings\<close>

type_synonym cstr = "nat \<Rightarrow> u8"

text \<open>The bytes found from an address, and those of a character array (0 past its end).\<close>

definition at_addr :: "memory \<Rightarrow> u32 \<Rightarrow> cstr" where
  "at_addr m a i = m (a + of_nat i)"

definition of_list :: "u8 list \<Rightarrow> cstr" where
  "of_list bs i = (if i < length bs then bs ! i else 0)"

primrec memcmp_from :: "nat \<Rightarrow> nat \<Rightarrow> cstr \<Rightarrow> cstr \<Rightarrow> int" where
  "memcmp_from 0 i s1 s2 = 0"
| "memcmp_from (Suc n) i s1 s2 =
     (if s1 i \<noteq> s2 i then uint (s1 i) - uint (s2 i) else memcmp_from n (Suc i) s1 s2)"

definition memcmp :: "cstr \<Rightarrow> cstr \<Rightarrow> nat \<Rightarrow> int" where
  "memcmp v1 v2 n = memcmp_from n 0 v1 v2"

primrec strncmp_from :: "nat \<Rightarrow> nat \<Rightarrow> cstr \<Rightarrow> cstr \<Rightarrow> int" where
  "strncmp_from 0 i p q = 0"
| "strncmp_from (Suc n) i p q =
     (if p i \<noteq> 0 \<and> p i = q i then strncmp_from n (Suc i) p q
      else uint (p i) - uint (q i))"

definition strncmp :: "cstr \<Rightarrow> cstr \<Rightarrow> nat \<Rightarrow> int" where
  "strncmp p q n = strncmp_from n 0 p q"

text \<open>\<open>strncpy\<close> stores exactly \<open>n\<close> bytes: the string, then zeros.\<close>

primrec strncpy_from :: "nat \<Rightarrow> nat \<Rightarrow> cstr \<Rightarrow> u8 list" where
  "strncpy_from 0 i t = []"
| "strncpy_from (Suc n) i t =
     (if t i \<noteq> 0 then t i # strncpy_from n (Suc i) t else 0 # replicate n 0)"

definition strncpy :: "cstr \<Rightarrow> nat \<Rightarrow> u8 list" where
  "strncpy t n = strncpy_from n 0 t"

text \<open>\<open>safestrcpy\<close>: the bytes stored by \<open>while(--n > 0 && (*s++ = *t++) != 0); *s = 0\<close>.
  After copying a NUL the final store puts a second one behind it.\<close>

primrec safestrcpy_from :: "nat \<Rightarrow> nat \<Rightarrow> cstr \<Rightarrow> u8 list" where
  "safestrcpy_from 0 i t = []"
| "safestrcpy_from (Suc n) i t =
     (if n > 0 then (if t i \<noteq> 0 then t i # safestrcpy_from n (Suc i) t else [0, 0]) else [0])"

definition safestrcpy :: "u8 list \<Rightarrow> cstr \<Rightarrow> nat \<Rightarrow> u8 list" where
  "safestrcpy s t n = safestrcpy_from n 0 t @ drop (length (safestrcpy_from n 0 t)) s"

text \<open>\<open>strlen\<close> does not return on a sequence without a NUL.\<close>

partial_function (option) strlen_from :: "nat \<Rightarrow> cstr \<Rightarrow> nat option" where
  "strlen_from n s = (if s n = 0 then Some n else strlen_from (Suc n) s)"

definition strlen :: "cstr \<Rightarrow> nat option" where
  "strlen s = strlen_from 0 s"

text \<open>The string found from a pointer, cut at the first NUL or after \<open>n\<close> bytes.\<close>

primrec cut_at :: "nat \<Rightarrow> nat \<Rightarrow> cstr \<Rightarrow> u8 list" where
  "cut_at 0 i s = []"
| "cut_at (Suc n) i s = (if s i = 0 then [] else s i # cut_at n (Suc i) s)"

lemma strncmp_from_eq_0: "strncmp_from n i p q = 0 \<longleftrightarrow> cut_at n i p = cut_at n i q"
  by (induction n arbitrary: i) (auto simp: word_uint_eq_iff)

lemma length_strncpy [simp]: "length (strncpy t n) = n"
proof -
  have "length (strncpy_from n i t) = n" for i
    by (induction n arbitrary: i) simp_all
  then show ?thesis by (simp add: strncpy_def)
qed

lemma cut_shift: "cut_at n (Suc i) s = cut_at n i (\<lambda>k. s (Suc k))"
  by (induction n arbitrary: i) simp_all

lemma of_list_Cons_Suc [simp]: "(\<lambda>k. of_list (b # bs) (Suc k)) = of_list bs"
  by (simp add: of_list_def fun_eq_iff)

lemma of_list_Cons_0 [simp]: "of_list (b # bs) 0 = b"
  by (simp add: of_list_def)

lemma cut_zeros [simp]: "cut_at n 0 (of_list (replicate m 0)) = []"
  by (cases n) (auto simp: of_list_def)

lemma cut_strncpy: "cut_at n 0 (of_list (strncpy_from n i t)) = cut_at n i t"
  by (induction n arbitrary: i) (simp_all add: cut_shift [of _ 0] del: replicate.simps)


lemma safestrcpy_from_spec:
  assumes "0 < n"
  shows "length (safestrcpy_from n i t) \<le> n \<and>
    cut_at n 0 (of_list (safestrcpy_from n i t)) = cut_at (n - 1) i t \<and>
    0 \<in> set (safestrcpy_from n i t)"
  using assms
proof (induction n arbitrary: i)
  case (Suc n)
  show ?case
  proof (cases "n = 0")
    case False
    then obtain k where "n = Suc k" by (cases n) auto
    with Suc.IH [of "Suc i"] show ?thesis
      by (auto simp: cut_shift [of _ 0])
  qed simp
qed simp

lemma cut_at_append:
  "0 \<in> set ws \<Longrightarrow> cut_at n 0 (of_list (ws @ rest)) = cut_at n 0 (of_list ws)"
proof (induction ws arbitrary: n)
  case (Cons b ws)
  then show ?case by (cases n) (auto simp: cut_shift [of _ 0])
qed simp

text \<open>C38. \<open>safestrcpy\<close> into an array of \<open>n\<close> bytes writes no further than the array, leaves a
  NUL-terminated string there, and that string is the source cut at \<open>n - 1\<close> bytes.\<close>

theorem safestrcpy_spec:
  assumes "0 < n" and "length s = n"
  shows "length (safestrcpy s t n) = n \<and> 0 \<in> set (safestrcpy s t n) \<and>
    cut_at n 0 (of_list (safestrcpy s t n)) = cut_at (n - 1) 0 t"
  using safestrcpy_from_spec [OF assms(1), of 0 t] assms(2)
  by (auto simp: safestrcpy_def cut_at_append)

theorem safestrcpy_spec_witness:
  "safestrcpy (replicate 4 7) (of_list [104, 105]) 4 = [104, 105, 0, 0] \<and>
   cut_at 4 0 (of_list (safestrcpy (replicate 4 7) (of_list [104, 105]) 4)) = [104, 105]"
proof -
  have "cut_at 4 0 (of_list (safestrcpy (replicate 4 7) (of_list [104, 105]) 4)) =
      cut_at 3 0 (of_list [104, 105])"
    using safestrcpy_spec [of 4 "replicate 4 7" "of_list [104, 105]"] by simp
  moreover have "cut_at 3 0 (of_list [104, 105]) = [104, 105]"
    by code_simp
  moreover have "safestrcpy (replicate 4 7) (of_list [104, 105]) 4 = [104, 105, 0, 0]"
    by code_simp
  ultimately show ?thesis by simp
qed

lemma strlen_at_nul:
  assumes "\<And>j. i \<le> j \<Longrightarrow> j < k \<Longrightarrow> s j \<noteq> 0" and "s k = 0" and "i \<le> k"
  shows "strlen_from i s = Some k"
  using assms
proof (induction "k - i" arbitrary: i)
  case 0
  then show ?case by (simp add: strlen_from.simps)
next
  case (Suc n)
  then have "strlen_from (Suc i) s = Some k" by (intro Suc.hyps) auto
  moreover have "s i \<noteq> 0" using Suc.hyps(2) Suc.prems by auto
  ultimately show ?case by (simp add: strlen_from.simps [of i])
qed

end
