(* ===== verification/Kalloc.thy ===== *)
theory Kalloc
  imports Spinlock Mmu Cstring
begin

text \<open>
  \<^verbatim>\<open>kalloc.c\<close>: the physical page allocator. The free pages form a linked list threaded
  through the pages themselves; \<open>free_path\<close> reads it off the memory.

  The interface of the allocator is the locale \<open>page_allocator\<close>, stated over the list of
  free pages; it is interpreted by \<open>kalloc\<close> and \<open>kfree\<close>. Its client lemmas (an allocated
  page is not free any more, pages come back in LIFO order, two allocations give different
  pages) follow from the interface alone.
\<close>

section \<open>The code\<close>

definition kmemset :: "u32 \<Rightarrow> u32 \<Rightarrow> u32 \<Rightarrow> unit K" where
  "kmemset dst c n = kmod (\<lambda>s. s\<lparr>mem := memset dst c n (mem s)\<rparr>)"

definition kmemmove :: "u32 \<Rightarrow> u32 \<Rightarrow> u32 \<Rightarrow> unit K" where
  "kmemmove dst src n = kmod (\<lambda>s. s\<lparr>mem := memmove dst src n (mem s)\<rparr>)"

definition kstore32 :: "u32 \<Rightarrow> u32 \<Rightarrow> unit K" where
  "kstore32 a v = kmod (\<lambda>s. s\<lparr>mem := store32 (mem s) a v\<rparr>)"

definition kload32 :: "u32 \<Rightarrow> u32 K" where
  "kload32 a = kget (\<lambda>s. load32 (mem s) a)"

definition kmem_acquire :: "unit K" where
  "kmem_acquire = kif use_lock (acquire L_kmem) (kret ())"

definition kmem_release :: "unit K" where
  "kmem_release = kif use_lock (release L_kmem) (kret ())"

definition kfree :: "u32 \<Rightarrow> unit K" where
  "kfree v =
     kif (\<lambda>s. v mod PGSIZE \<noteq> 0 \<or> v < kend s \<or> V2P v \<ge> PHYSTOP) (kpanic ''kfree'')
     (kseq (kmemset v 1 PGSIZE)
     (kseq kmem_acquire
     (kseq (kbind (kget freelist) (\<lambda>next. kstore32 v next))
     (kseq (kmod (\<lambda>s. s\<lparr>freelist := v\<rparr>))
      kmem_release))))"

definition kalloc :: "u32 K" where
  "kalloc =
     kseq kmem_acquire
     (kbind (kget freelist) (\<lambda>r.
      kseq (if r \<noteq> 0 then kbind (kload32 r) (\<lambda>next. kmod (\<lambda>s. s\<lparr>freelist := next\<rparr>)) else kret ())
      (kseq kmem_release
       (kret r))))"

text \<open>The loop of \<open>freerange\<close>, with as many rounds as there are whole pages in the range
  and one more for the last test.\<close>

primrec freerange_loop :: "nat \<Rightarrow> u32 \<Rightarrow> u32 \<Rightarrow> unit K" where
  "freerange_loop 0 p vend = (\<lambda>s w. Stuck s)"
| "freerange_loop (Suc n) p vend =
     (if p + PGSIZE \<le> vend then kseq (kfree p) (freerange_loop n (p + PGSIZE) vend)
      else kret ())"

definition freerange :: "u32 \<Rightarrow> u32 \<Rightarrow> unit K" where
  "freerange vstart vend =
     (let p = PGROUNDUP vstart in
      freerange_loop (Suc (unat (vend - p) div 4096)) p vend)"

definition kinit1 :: "u32 \<Rightarrow> u32 \<Rightarrow> unit K" where
  "kinit1 vstart vend =
     kseq (initlock L_kmem ''kmem'')
     (kseq (kmod (\<lambda>s. s\<lparr>use_lock := False\<rparr>))
      (freerange vstart vend))"

definition kinit2 :: "u32 \<Rightarrow> u32 \<Rightarrow> unit K" where
  "kinit2 vstart vend =
     kseq (freerange vstart vend)
      (kmod (\<lambda>s. s\<lparr>use_lock := True\<rparr>))"

section \<open>The free list\<close>

primrec free_path :: "memory \<Rightarrow> u32 \<Rightarrow> u32 list \<Rightarrow> bool" where
  "free_path m p [] \<longleftrightarrow> p = 0"
| "free_path m p (x # xs) \<longleftrightarrow> p = x \<and> x \<noteq> 0 \<and> free_path m (load32 m x) xs"

definition page_ok :: "kernel \<Rightarrow> u32 \<Rightarrow> bool" where
  "page_ok s v \<longleftrightarrow> pg_aligned v \<and> kend s \<le> v \<and> V2P v < PHYSTOP"

definition free_pages :: "kernel \<Rightarrow> u32 list \<Rightarrow> bool" where
  "free_pages s ps \<longleftrightarrow> kend s \<noteq> 0 \<and> free_path (mem s) (freelist s) ps \<and>
     distinct ps \<and> (\<forall>v \<in> set ps. page_ok s v)"

definition kmem_ready :: "kernel \<Rightarrow> bool" where
  "kmem_ready s \<longleftrightarrow> (use_lock s \<longrightarrow> (\<exists>c. cli_ok c s) \<and> lock_free L_kmem s)"

lemma page_ok_nonzero: "page_ok s v \<Longrightarrow> kend s \<noteq> 0 \<Longrightarrow> v \<noteq> 0"
  by (auto simp: page_ok_def)

lemma free_path_write_page:
  assumes "length bs \<le> 4096" and "pg_aligned v" and "\<And>x. x \<in> set ps \<Longrightarrow> pg_aligned x \<and> x \<noteq> v"
  shows "free_path (write_bytes m v bs) p ps = free_path m p ps"
  using assms(3)
proof (induction ps arbitrary: p)
  case (Cons x ps)
  have "length bs \<le> unat (x + of_nat i - v)" if "i < 4" for i
    using pages_disjoint [of x v i] Cons.prems [of x] assms(1,2) that by auto
  then have "load32 (write_bytes m v bs) x = load32 m x"
    unfolding load32_def by (subst read_write_bytes_disjoint) auto
  with Cons show ?case by simp
qed simp

section \<open>Effect of the operations\<close>

definition kmem_locked :: "kernel \<Rightarrow> kernel" where
  "kmem_locked s = (if use_lock s then with_lock (the (cpu_index s)) L_kmem s else s)"

lemma kmem_locked_sel [simp]:
  "mem (kmem_locked s) = mem s"
  "freelist (kmem_locked s) = freelist s"
  by (simp_all add: kmem_locked_def with_lock_def)

lemma kmem_acquire_exec: "kmem_ready s \<Longrightarrow> kmem_acquire s w = Done () (kmem_locked s) w"
  by (auto simp: kmem_acquire_def kmem_ready_def kmem_locked_def acquire_ok cli_okD(1))

lemma kmem_release_exec:
  assumes "kmem_ready s"
  shows "kmem_release (kmem_locked s) w = Done () s w"
    and "kmem_release ((kmem_locked s)\<lparr>freelist := f\<rparr>) w = Done () (s\<lparr>freelist := f\<rparr>) w"
    and "kmem_release ((kmem_locked s)\<lparr>mem := m, freelist := f\<rparr>) w = Done () (s\<lparr>mem := m, freelist := f\<rparr>) w"
proof -
  have "release L_kmem (kmem_locked s) w = Done () s w \<and>
    release L_kmem ((kmem_locked s)\<lparr>freelist := f\<rparr>) w = Done () (s\<lparr>freelist := f\<rparr>) w \<and>
    release L_kmem ((kmem_locked s)\<lparr>mem := m, freelist := f\<rparr>) w = Done () (s\<lparr>mem := m, freelist := f\<rparr>) w"
    if l: "use_lock s"
  proof -
    from assms l obtain c where c: "cli_ok c s" and free: "lock_free L_kmem s"
      by (auto simp: kmem_ready_def)
    note i = cli_okD(1) [OF c]
    show ?thesis
      unfolding kmem_locked_def using l
      by (simp add: i release_ok [OF c free]) (simp add: with_lock_def)
  qed
  then show "kmem_release (kmem_locked s) w = Done () s w"
    and "kmem_release ((kmem_locked s)\<lparr>freelist := f\<rparr>) w = Done () (s\<lparr>freelist := f\<rparr>) w"
    and "kmem_release ((kmem_locked s)\<lparr>mem := m, freelist := f\<rparr>) w = Done () (s\<lparr>mem := m, freelist := f\<rparr>) w"
    by (auto simp: kmem_release_def kmem_locked_def with_lock_def)
qed

lemma kalloc_exec:
  assumes "kmem_ready s"
  shows "kalloc s w = Done (freelist s)
    (if freelist s = 0 then s else s\<lparr>freelist := load32 (mem s) (freelist s)\<rparr>) w"
  using assms by (simp add: kalloc_def kmem_acquire_exec kmem_release_exec kload32_def)

lemma kmem_ready_mem [simp]: "kmem_ready (s\<lparr>mem := m\<rparr>) = kmem_ready s"
  by (simp add: kmem_ready_def cli_ok_def lock_free_def)

lemma kmem_locked_mem [simp]: "kmem_locked (s\<lparr>mem := m\<rparr>) = (kmem_locked s)\<lparr>mem := m\<rparr>"
  by (simp add: kmem_locked_def with_lock_def)

text \<open>The memory after \<open>kfree(v)\<close>: a page of ones, then the link to the old list head.\<close>

definition freed_page :: "u32 \<Rightarrow> u8 list" where
  "freed_page next = le32 next @ replicate 4092 1"

lemma kfree_mem: "store32 (memset v 1 PGSIZE m) v next = write_bytes m v (freed_page next)"
proof
  fix x
  show "store32 (memset v 1 PGSIZE m) v next x = write_bytes m v (freed_page next) x"
    unfolding store32_def memset_bytes freed_page_def
    by (simp add: write_bytes_def nth_append)
qed

lemma kfree_exec:
  assumes "kmem_ready s" and "page_ok s v"
  shows "kfree v s w = Done ()
    (s\<lparr>mem := write_bytes (mem s) v (freed_page (freelist s)), freelist := v\<rparr>) w"
proof -
  have "\<not> (v mod PGSIZE \<noteq> 0 \<or> v < kend s \<or> V2P v \<ge> PHYSTOP)"
    using assms(2) by (auto simp: page_ok_def pg_aligned_def)
  then show ?thesis
    using assms(1)
    by (simp add: kfree_def kmemset_def kstore32_def kmem_acquire_exec kmem_release_exec
        kfree_mem)
qed

section \<open>The interface of the allocator\<close>

text \<open>Run a computation \<open>n\<close> times and collect the results.\<close>

primrec krepeat :: "nat \<Rightarrow> 'a K \<Rightarrow> 'a list K" where
  "krepeat 0 m = kret []"
| "krepeat (Suc n) m = kbind m (\<lambda>x. kbind (krepeat n m) (\<lambda>xs. kret (x # xs)))"

locale page_allocator =
  fixes alloc :: "u32 K" and free :: "u32 \<Rightarrow> unit K"
    and pages :: "kernel \<Rightarrow> u32 list \<Rightarrow> bool" and ok :: "kernel \<Rightarrow> u32 \<Rightarrow> bool"
  assumes alloc_none: "pages s [] \<Longrightarrow> alloc s w = Done 0 s w"
    and alloc_some: "pages s (p # ps) \<Longrightarrow>
      \<exists>t. alloc s w = Done p t w \<and> pages t ps \<and> mem t = mem s \<and> ok t = ok s"
    and free_page: "pages s ps \<Longrightarrow> ok s p \<Longrightarrow> p \<notin> set ps \<Longrightarrow>
      \<exists>t. free p s w = Done () t w \<and> pages t (p # ps) \<and> ok t = ok s \<and>
        (\<forall>x. 4096 \<le> unat (x - p) \<longrightarrow> mem t x = mem s x)"
    and pages_ok: "pages s ps \<Longrightarrow> p \<in> set ps \<Longrightarrow> ok s p \<and> p \<noteq> 0"
    and pages_distinct: "pages s ps \<Longrightarrow> distinct ps"
begin

lemma alloc_returns: "pages s ps \<Longrightarrow> \<exists>r t. alloc s w = Done r t w \<and> (r = 0 \<longleftrightarrow> ps = []) \<and> pages t (tl ps)"
  using alloc_none alloc_some pages_ok by (cases ps) fastforce+

lemma alloc_fresh:
  "pages s ps \<Longrightarrow> alloc s w = Done r t v \<Longrightarrow> r \<noteq> 0 \<Longrightarrow>
   ok s r \<and> ps = r # tl ps \<and> r \<notin> set (tl ps) \<and> pages t (tl ps) \<and> mem t = mem s \<and> v = w"
proof (cases ps)
  case (Cons p qs)
  moreover assume "pages s ps" and "alloc s w = Done r t v" and "r \<noteq> 0"
  ultimately show ?thesis
    using alloc_some [of s p qs w] pages_ok [of s ps p] pages_distinct [of s ps] by auto
qed (auto simp: alloc_none)

lemma alloc_many:
  "pages s ps \<Longrightarrow> n \<le> length ps \<Longrightarrow>
   \<exists>t. krepeat n alloc s w = Done (take n ps) t w \<and> pages t (drop n ps) \<and> mem t = mem s"
proof (induction n arbitrary: s ps)
  case (Suc n)
  then obtain p qs where ps: "ps = p # qs" by (cases ps) auto
  with Suc.prems alloc_some obtain t where t: "alloc s w = Done p t w" "pages t qs" "mem t = mem s"
    by blast
  with Suc.IH [of t qs] Suc.prems ps show ?case by auto
qed simp

lemma free_alloc:
  assumes "pages s ps" and "ok s p" and "p \<notin> set ps"
  shows "\<exists>t u. free p s w = Done () t w \<and> alloc t w = Done p u w \<and> pages u ps \<and>
    (\<forall>x. 4096 \<le> unat (x - p) \<longrightarrow> mem u x = mem s x)"
  using free_page [OF assms, of w] alloc_some by metis

end

text \<open>The allocator of the kernel provides this interface.\<close>

definition kmem_pages :: "kernel \<Rightarrow> u32 list \<Rightarrow> bool" where
  "kmem_pages s ps \<longleftrightarrow> kmem_ready s \<and> free_pages s ps"

lemma kmem_ready_freelist [simp]: "kmem_ready (s\<lparr>freelist := f\<rparr>) = kmem_ready s"
  by (simp add: kmem_ready_def cli_ok_def lock_free_def)

lemma page_ok_frame [simp]:
  "page_ok (s\<lparr>freelist := f\<rparr>) = page_ok s"
  "page_ok (s\<lparr>mem := m\<rparr>) = page_ok s"
  by (auto simp: page_ok_def)

lemma length_freed_page [simp]: "length (freed_page next) = 4096"
  by (simp add: freed_page_def)

lemma load32_freed_page [simp]: "load32 (write_bytes m v (freed_page next)) v = next"
proof -
  have "read_bytes (write_bytes m v (freed_page next)) v 4 = le32 next"
    by (intro nth_equalityI) (simp_all add: write_bytes_inside, simp add: freed_page_def nth_append)
  then show ?thesis by (simp add: load32_def)
qed

lemma kmem_pages_push:
  assumes "kmem_pages s ps" and "page_ok s p" and "p \<notin> set ps"
  shows "kmem_pages (s\<lparr>mem := write_bytes (mem s) p (freed_page (freelist s)), freelist := p\<rparr>) (p # ps)"
proof -
  have "free_path (write_bytes (mem s) p (freed_page (freelist s))) (freelist s) ps"
    using assms by (subst free_path_write_page)
      (auto simp: kmem_pages_def free_pages_def page_ok_def)
  then show ?thesis
    using assms page_ok_nonzero [of s p] by (simp add: kmem_pages_def free_pages_def)
qed

interpretation kmem: page_allocator kalloc kfree kmem_pages page_ok
proof
  fix s w p ps
  show "kmem_pages s [] \<Longrightarrow> kalloc s w = Done 0 s w"
    by (simp add: kmem_pages_def free_pages_def kalloc_exec)
  show "\<exists>t. kalloc s w = Done p t w \<and> kmem_pages t ps \<and> mem t = mem s \<and> page_ok t = page_ok s"
    if "kmem_pages s (p # ps)"
    using that by (simp add: kmem_pages_def free_pages_def kalloc_exec)
  show "\<exists>t. kfree p s w = Done () t w \<and> kmem_pages t (p # ps) \<and> page_ok t = page_ok s \<and>
      (\<forall>x. 4096 \<le> unat (x - p) \<longrightarrow> mem t x = mem s x)"
    if "kmem_pages s ps" "page_ok s p" "p \<notin> set ps"
    using that kmem_pages_push [OF that] by (simp add: kfree_exec kmem_pages_def write_bytes_outside)
  show "page_ok s p \<and> p \<noteq> 0" if "kmem_pages s ps" "p \<in> set ps"
    using that page_ok_nonzero by (auto simp: kmem_pages_def free_pages_def)
  show "distinct ps" if "kmem_pages s ps"
    using that by (simp add: kmem_pages_def free_pages_def)
qed

section \<open>Building the list\<close>

text \<open>The page addresses \<open>freerange\<close> visits, the last one first.\<close>

primrec range_pages :: "nat \<Rightarrow> u32 \<Rightarrow> u32 list \<Rightarrow> u32 list" where
  "range_pages 0 p ps = ps"
| "range_pages (Suc n) p ps = range_pages n (p + PGSIZE) (p # ps)"

lemma range_pages_eq:
  "range_pages n p ps = rev (map (\<lambda>i. p + of_nat i * PGSIZE) [0..<n]) @ ps"
proof (induction n arbitrary: p ps)
  case (Suc n)
  have "map (\<lambda>i. p + of_nat i * PGSIZE) [0..<Suc n] =
      p # map (\<lambda>i. p + PGSIZE + of_nat i * PGSIZE) [0..<n]"
    by (simp only: map_upt_Suc) (simp add: algebra_simps)
  with Suc show ?case by (simp del: upt_Suc)
qed simp

lemma unat_add_pgsize:
  "unat (p :: u32) + 4096 \<le> 0x8E000000 \<Longrightarrow> unat (p + PGSIZE) = unat p + 4096"
  by (simp add: unat_word_ariths)

text \<open>\<open>below_top s p n vend\<close>: the range that begins at \<open>p\<close> holds \<open>n\<close> whole pages, all of
  them allocatable.\<close>

definition below_top :: "kernel \<Rightarrow> u32 \<Rightarrow> nat \<Rightarrow> u32 \<Rightarrow> bool" where
  "below_top s p n vend \<longleftrightarrow> pg_aligned p \<and> kend s \<le> p \<and> KERNBASE \<le> p \<and> vend \<le> P2V PHYSTOP \<and>
     unat p + 4096 * n \<le> unat vend \<and> unat vend < unat p + 4096 * Suc n"

lemma below_top_next:
  assumes "below_top s p n vend"
  shows "p + PGSIZE \<le> vend \<longleftrightarrow> 0 < n"
    and "0 < n \<Longrightarrow> below_top s (p + PGSIZE) (n - 1) vend \<and> page_ok s p \<and> p < p + PGSIZE"
proof -
  have v: "unat vend \<le> 0x8E000000" and p: "unat p \<le> 0x8E000000" "0x80000000 \<le> unat p"
    using assms by (auto simp: below_top_def P2V_def word_le_nat_alt)
  have "unat (p + PGSIZE) = unat p + 4096"
    using p by (simp add: unat_word_ariths)
  note next_p = this
  show "p + PGSIZE \<le> vend \<longleftrightarrow> 0 < n"
    using assms next_p by (cases n) (auto simp: below_top_def word_le_nat_alt)
  show "below_top s (p + PGSIZE) (n - 1) vend \<and> page_ok s p \<and> p < p + PGSIZE" if "0 < n"
  proof -
    have "unat p < 0x8E000000"
      using assms that v by (auto simp: below_top_def)
    then have "V2P p < PHYSTOP"
      using p by (simp add: V2P_def word_less_nat_alt unat_sub_if_size)
    then show ?thesis
      using assms next_p that
      by (cases n) (auto simp: below_top_def page_ok_def pg_aligned_add word_le_nat_alt word_less_nat_alt)
  qed
qed

lemma below_top_frame [simp]:
  "below_top (s\<lparr>freelist := f\<rparr>) = below_top s"
  "below_top (s\<lparr>mem := m\<rparr>) = below_top s"
  by (auto simp: below_top_def fun_eq_iff)

lemma freerange_loop_exec:
  assumes "kmem_pages s ps" and "below_top s p n vend" and "\<forall>x \<in> set ps. x < p \<or> vend \<le> x"
  shows "\<exists>t. freerange_loop (Suc n) p vend s w = Done () t w \<and> kmem_pages t (range_pages n p ps)"
  using assms
proof (induction n arbitrary: s p ps)
  case 0
  then show ?case using below_top_next(1) [OF 0(2)] by simp
next
  case (Suc n)
  have more: "p + PGSIZE \<le> vend"
    and nxt: "below_top s (p + PGSIZE) n vend" "page_ok s p" "p < p + PGSIZE"
    using below_top_next [OF Suc.prems(2)] by auto
  have fresh: "p \<notin> set ps" using Suc.prems(3) more nxt(3) by auto
  let ?t = "s\<lparr>mem := write_bytes (mem s) p (freed_page (freelist s)), freelist := p\<rparr>"
  have "kfree p s w = Done () ?t w"
    using Suc.prems(1) nxt(2) by (intro kfree_exec) (auto simp: kmem_pages_def)
  moreover have "\<exists>t. freerange_loop (Suc n) (p + PGSIZE) vend ?t w = Done () t w \<and>
      kmem_pages t (range_pages n (p + PGSIZE) (p # ps))"
    using kmem_pages_push [OF Suc.prems(1) nxt(2) fresh] nxt Suc.prems(3)
    by (intro Suc.IH) auto
  ultimately show ?case
    using more by (subst freerange_loop.simps(2)) (simp del: freerange_loop.simps)
qed

section \<open>Properties\<close>

lemma kmem_pages_kernel0 [simp]: "kmem_pages kernel0 []"
  by (auto simp: kmem_pages_def free_pages_def kmem_ready_def intro: cli_ok_kernel0)

lemma below_top_kernel0: "below_top kernel0 0x80400000 2 0x80402fff"
  by (simp add: below_top_def pg_aligned_def P2V_def)

text \<open>The concrete kernel with two pages on its free list.\<close>

definition kernel_2pages :: kernel where
  "kernel_2pages = (let s = kernel0\<lparr>mem := write_bytes (mem kernel0) 0x80400000 (freed_page 0),
       freelist := 0x80400000\<rparr>
     in s\<lparr>mem := write_bytes (mem s) 0x80401000 (freed_page 0x80400000), freelist := 0x80401000\<rparr>)"

lemma page_ok_kernel0:
  "page_ok kernel0 v \<longleftrightarrow> v mod PGSIZE = 0 \<and> 0x80120000 \<le> v \<and> v - KERNBASE < PHYSTOP"
  by (simp add: page_ok_def pg_aligned_def V2P_def)

lemma kmem_pages_kernel_2pages: "kmem_pages kernel_2pages [0x80401000, 0x80400000]"
proof -
  let ?s = "kernel0\<lparr>mem := write_bytes (mem kernel0) 0x80400000 (freed_page (freelist kernel0)),
       freelist := 0x80400000\<rparr>"
  have s: "kmem_pages ?s [0x80400000]"
    by (rule kmem_pages_push) (simp_all add: page_ok_kernel0)
  show ?thesis
    using kmem_pages_push [OF s, where p = "0x80401000"]
    by (simp add: kernel_2pages_def Let_def page_ok_kernel0)
qed

text \<open>C27. Building the list: \<open>freerange\<close> stops, and puts exactly the whole pages of its
  range on the free list, in descending order and in front of the pages already there.\<close>

theorem freerange_builds:
  assumes "kmem_pages s ps" and "p = PGROUNDUP vstart" and "below_top s p n vend"
    and "\<forall>x \<in> set ps. x < p \<or> vend \<le> x"
  shows "\<exists>t. freerange vstart vend s w = Done () t w \<and>
    kmem_pages t (rev (map (\<lambda>i. p + of_nat i * PGSIZE) [0..<n]) @ ps)"
proof -
  have "p \<le> vend" using assms(3) by (simp add: below_top_def word_le_nat_alt)
  then have "unat (vend - p) = unat vend - unat p"
    by (simp add: unat_sub)
  also have "\<dots> div 4096 = n"
    using assms(3) by (intro div_nat_eqI) (auto simp: below_top_def)
  finally have "freerange vstart vend s w = freerange_loop (Suc n) p vend s w"
    by (simp add: freerange_def assms(2) Let_def)
  with freerange_loop_exec [OF assms(1,3,4), of w] show ?thesis
    by (simp add: range_pages_eq)
qed

theorem freerange_builds_witness:
  "\<exists>t. freerange 0x803ff001 0x80402fff kernel0 [] = Done () t [] \<and>
    kmem_pages t [0x80401000, 0x80400000]"
  using freerange_builds [OF kmem_pages_kernel0 _ below_top_kernel0, of "0x803ff001" "[]"]
  by (simp add: PGROUNDUP_def upt_rec)

text \<open>C28. Allocated pages do not overlap: as long as the free list has \<open>n\<close> pages, \<open>n\<close>
  calls of \<open>kalloc\<close> succeed, return \<open>n\<close> different allocatable pages, remove exactly them
  from the list and change no byte of memory.\<close>

theorem kalloc_distinct:
  assumes "kmem_pages s ps" and "n \<le> length ps"
  shows "\<exists>vs t. krepeat n kalloc s w = Done vs t w \<and> length vs = n \<and> distinct vs \<and>
    (\<forall>v \<in> set vs. page_ok s v \<and> v \<noteq> 0) \<and> kmem_pages t (drop n ps) \<and>
    set vs \<inter> set (drop n ps) = {} \<and> mem t = mem s"
proof -
  obtain t where t: "krepeat n kalloc s w = Done (take n ps) t w"
    "kmem_pages t (drop n ps)" "mem t = mem s"
    using kmem.alloc_many [OF assms] by blast
  have "distinct (take n ps @ drop n ps)"
    using kmem.pages_distinct [OF assms(1)] by simp
  then have "distinct (take n ps)" "set (take n ps) \<inter> set (drop n ps) = {}"
    unfolding distinct_append by blast+
  moreover have "\<forall>v \<in> set (take n ps). page_ok s v \<and> v \<noteq> 0"
    using kmem.pages_ok [OF assms(1)] by (blast dest: in_set_takeD)
  moreover have "length (take n ps) = n" using assms(2) by simp
  ultimately show ?thesis using t by blast
qed

theorem kalloc_distinct_witness:
  "\<exists>vs t. krepeat 2 kalloc kernel_2pages [] = Done vs t [] \<and> length vs = 2 \<and> distinct vs \<and>
    (\<forall>v \<in> set vs. page_ok kernel_2pages v \<and> v \<noteq> 0) \<and> kmem_pages t [] \<and>
    set vs \<inter> set [] = {} \<and> mem t = mem kernel_2pages"
  using kalloc_distinct [OF kmem_pages_kernel_2pages, of 2 "[]"] by simp

text \<open>C29. Freeing and allocating are inverse: after \<open>kfree(p)\<close> of a page that is not free,
  \<open>kalloc\<close> returns \<open>p\<close>, the free list is the one before, and no byte outside the page has
  changed. An address that is not a page of allocatable memory makes \<open>kfree\<close> panic.\<close>

theorem kfree_kalloc:
  "(kmem_pages s ps \<and> page_ok s p \<and> p \<notin> set ps \<longrightarrow>
     (\<exists>t u. kfree p s w = Done () t w \<and> kalloc t w = Done p u w \<and> kmem_pages u ps \<and>
       (\<forall>x. 4096 \<le> unat (x - p) \<longrightarrow> mem u x = mem s x))) \<and>
   (\<not> page_ok s p \<longrightarrow> kfree p s w = Panic ''kfree'')"
proof -
  have "kfree p s w = Panic ''kfree''" if "\<not> page_ok s p"
    using that by (auto simp: kfree_def page_ok_def pg_aligned_def not_le not_less)
  then show ?thesis using kmem.free_alloc [of s ps p w] by auto
qed

theorem kfree_kalloc_witness:
  "(\<exists>t u. kfree 0x80402000 kernel_2pages [] = Done () t [] \<and> kalloc t [] = Done 0x80402000 u [] \<and>
     kmem_pages u [0x80401000, 0x80400000] \<and>
     (\<forall>x. 4096 \<le> unat (x - 0x80402000) \<longrightarrow> mem u x = mem kernel_2pages x)) \<and>
   kfree 0x80402001 kernel_2pages [] = Panic ''kfree''"
  using kfree_kalloc [of kernel_2pages "[0x80401000, 0x80400000]" "0x80402000" "[]"]
    kfree_kalloc [of kernel_2pages "[]" "0x80402001" "[]"] kmem_pages_kernel_2pages
  by (simp add: kernel_2pages_def Let_def page_ok_kernel0)

end
