(* ===== verification/Console_Out.thy ===== *)
theory Console_Out
  imports Spinlock
begin

text \<open>
  The output half of \<^verbatim>\<open>console.c\<close> (\<open>printint\<close>, \<open>cprintf\<close>, \<open>cgaputc\<close>, \<open>consputc\<close>) and
  \<open>uartputc\<close> of \<^verbatim>\<open>uart.c\<close>. The bounded wait for the serial port's transmit register has
  no effect on the kernel and is not modelled. Since a panic ends the model, the flag
  \<open>panicked\<close> is always 0 here.
\<close>

abbreviation (input) BACKSPACE :: u32 where "BACKSPACE \<equiv> 0x100"

definition uartputc :: "u32 \<Rightarrow> unit K" where
  "uartputc c = kif uart (kmod (\<lambda>s. s\<lparr>uart_out := uart_out s @ [c]\<rparr>)) (kret ())"

definition cga_put :: "u32 \<Rightarrow> int \<times> (nat \<Rightarrow> u16) \<Rightarrow> int \<times> (nat \<Rightarrow> u16)" where
  "cga_put c = (\<lambda>(pos, m).
     if c = 10 then (pos + (80 - pos mod 80), m)
     else if c = BACKSPACE then (if pos > 0 then pos - 1 else pos, m)
     else (pos + 1, m(nat pos := ucast (c AND 0xff) OR 0x0700)))"

definition cga_scroll :: "int \<times> (nat \<Rightarrow> u16) \<Rightarrow> int \<times> (nat \<Rightarrow> u16)" where
  "cga_scroll = (\<lambda>(pos, m).
     if pos div 80 \<ge> 24 then
       let m1 = (\<lambda>i. if i < 23 * 80 then m (i + 80) else m i);
           pos1 = pos - 80
       in (pos1, \<lambda>i. if nat pos1 \<le> i \<and> i < 24 * 80 then 0 else m1 i)
     else (pos, m))"

definition cgaputc :: "u32 \<Rightarrow> unit K" where
  "cgaputc c =
     kbind (kget (\<lambda>s. cga_put c (crt_pos s, crt s))) (\<lambda>pm.
     if fst pm < 0 \<or> fst pm > 25 * 80 then
       kseq (kmod (\<lambda>s. s\<lparr>crt := snd pm\<rparr>)) (kpanic ''pos under/overflow'')
     else case cga_scroll pm of (pos, m) \<Rightarrow>
       kmod (\<lambda>s. s\<lparr>crt := m(nat pos := 0x0720), crt_pos := pos\<rparr>))"

definition consputc :: "u32 \<Rightarrow> unit K" where
  "consputc c =
     kseq (if c = BACKSPACE then kseq (uartputc 8) (kseq (uartputc 32) (uartputc 8))
           else uartputc c)
       (cgaputc c)"

primrec consputs :: "u32 list \<Rightarrow> unit K" where
  "consputs [] = kret ()"
| "consputs (c # cs) = kseq (consputc c) (consputs cs)"

text \<open>\<open>printint\<close>: the buffer is filled from the low digit up and printed backwards.\<close>

function digits_rev :: "nat \<Rightarrow> nat \<Rightarrow> nat list" where
  "digits_rev base x = x mod base # (if x div base = 0 \<or> base \<le> 1 then [] else digits_rev base (x div base))"
  by auto
termination by (relation "measure snd") (auto intro!: div_less_dividend intro: gr0I)

declare digits_rev.simps [simp del]

definition digit_char :: "nat \<Rightarrow> u32" where
  "digit_char d = (if d < 10 then 48 + of_nat d else 87 + of_nat d)"

definition printint_buf :: "u32 \<Rightarrow> nat \<Rightarrow> bool \<Rightarrow> u32 list" where
  "printint_buf xx base sign =
     (let neg = sign \<and> sint xx < 0;
          x = (if neg then - xx else xx);
          ds = map digit_char (digits_rev base (unat x))
      in if neg then ds @ [45] else ds)"

definition printint :: "u32 \<Rightarrow> nat \<Rightarrow> bool \<Rightarrow> unit K" where
  "printint xx base sign = consputs (rev (printint_buf xx base sign))"

text \<open>The arguments of \<open>cprintf\<close> after the format: integers and strings. Every call in the
  kernel passes the arguments its format asks for; a missing or mistyped one is undefined in
  C and a panic here.\<close>

datatype farg = A_int u32 | A_str "u32 list"

definition bytes_of :: "string \<Rightarrow> u32 list" where
  "bytes_of = map of_char"

fun cprintf_fmt :: "u32 list \<Rightarrow> farg list \<Rightarrow> unit K" where
  "cprintf_fmt [] args = kret ()"
| "cprintf_fmt [c] args = (if c = 37 then kret () else consputc c)"
| "cprintf_fmt (c # d # fmt) args =
     (if c \<noteq> 37 then kseq (consputc c) (cprintf_fmt (d # fmt) args)
      else if d = 100 then
        (case args of A_int x # as \<Rightarrow> kseq (printint x 10 True) (cprintf_fmt fmt as)
         | _ \<Rightarrow> kpanic ''cprintf: arguments'')
      else if d = 120 \<or> d = 112 then
        (case args of A_int x # as \<Rightarrow> kseq (printint x 16 False) (cprintf_fmt fmt as)
         | _ \<Rightarrow> kpanic ''cprintf: arguments'')
      else if d = 115 then
        (case args of A_str cs # as \<Rightarrow> kseq (consputs cs) (cprintf_fmt fmt as)
         | _ \<Rightarrow> kpanic ''cprintf: arguments'')
      else if d = 37 then kseq (consputc 37) (cprintf_fmt fmt args)
      else kseq (consputc 37) (kseq (consputc d) (cprintf_fmt fmt args)))"

definition cprintf :: "string \<Rightarrow> farg list \<Rightarrow> unit K" where
  "cprintf fmt args =
     kbind (kget cons_locking) (\<lambda>locking.
     kseq (if locking then acquire L_cons else kret ())
     (kseq (cprintf_fmt (bytes_of fmt) args)
      (if locking then release L_cons else kret ())))"

section \<open>Printing numbers\<close>

text \<open>The number a list of digits stands for, low digit first.\<close>

primrec digits_val :: "nat \<Rightarrow> nat list \<Rightarrow> nat" where
  "digits_val base [] = 0"
| "digits_val base (d # ds) = d + base * digits_val base ds"

lemma digits_val_rev: "1 < base \<Longrightarrow> digits_val base (digits_rev base x) = x"
proof (induction base x rule: digits_rev.induct)
  case (1 base x)
  then show ?case by (subst digits_rev.simps) (auto simp: div_eq_0_iff)
qed

lemma digits_rev_bound: "1 < base \<Longrightarrow> \<forall>d \<in> set (digits_rev base x). d < base"
proof (induction base x rule: digits_rev.induct)
  case (1 base x)
  have m: "x mod base < base" using 1(2) by simp
  show ?case
  proof (cases "x div base = 0 \<or> base \<le> 1")
    case True
    then show ?thesis unfolding digits_rev.simps [of base x] using m by (simp only: if_True list.set) blast
  next
    case False
    then show ?thesis
      unfolding digits_rev.simps [of base x] using m 1 by (simp only: if_False list.set) blast
  qed
qed

lemma length_digits_rev:
  "1 < base \<Longrightarrow> x < base ^ n \<Longrightarrow> 0 < n \<Longrightarrow> length (digits_rev base x) \<le> n"
proof (induction n arbitrary: x)
  case (Suc n)
  show ?case
  proof (cases "x div base = 0")
    case False
    have "x div base < base ^ n"
      using Suc.prems by (simp add: less_mult_imp_div_less mult.commute)
    moreover from this False have "0 < n" by (cases n) auto
    ultimately show ?thesis
      using Suc.IH [of "x div base"] Suc.prems(1) by (subst digits_rev.simps) auto
  qed (subst digits_rev.simps, simp)
qed simp

lemma digit_char_inj: "d < 16 \<Longrightarrow> e < 16 \<Longrightarrow> digit_char d = digit_char e \<longleftrightarrow> d = e"
  by (auto simp: digit_char_def word_unat_eq_iff unat_word_ariths unat_of_nat split: if_splits)

lemma digits_rev_no_zero:
  "1 < base \<Longrightarrow> last (digits_rev base x) = 0 \<Longrightarrow> length (digits_rev base x) = 1"
proof (induction base x rule: digits_rev.induct)
  case (1 base x)
  have ne: "digits_rev base y \<noteq> []" for y by (subst digits_rev.simps) simp
  show ?case
  proof (cases "x div base = 0")
    case False
    then have "length (digits_rev base (x div base)) = 1" and l: "last (digits_rev base (x div base)) = 0"
      using 1 ne by (auto simp: digits_rev.simps [of base x])
    then have "digits_rev base (x div base) = [0]"
      by (cases "digits_rev base (x div base)") auto
    with digits_val_rev [OF 1(2), of "x div base"] False show ?thesis by simp
  qed (subst digits_rev.simps, simp)
qed

text \<open>C34. \<open>printint\<close> prints the number it is given: with base 10 or 16 it sends the digits of
  the value, most significant first, with a minus sign for a negative signed value (the
  absolute value of \<open>INT_MIN\<close> included), no leading zero but for 0 itself, and its buffer
  of 16 characters is never overrun.\<close>

theorem printint_prints:
  assumes "base = 10 \<or> base = 16"
  shows "\<exists>ds. printint xx base sign = consputs ((if sign \<and> sint xx < 0 then [45] else []) @ map digit_char ds) \<and>
    digits_val base (rev ds) = (if sign then nat \<bar>sint xx\<bar> else unat xx) \<and>
    (\<forall>d \<in> set ds. d < base) \<and> ds \<noteq> [] \<and> (hd ds = 0 \<longrightarrow> length ds = 1) \<and>
    length (printint_buf xx base sign) \<le> 16"
proof -
  let ?neg = "sign \<and> sint xx < 0"
  let ?v = "unat (if ?neg then - xx else xx)"
  let ?ds = "rev (digits_rev base ?v)"
  have base: "1 < base" "base \<le> 16" using assms by auto
  have "?v < base ^ 10"
    using assms unat_lt_u32 [of "if ?neg then - xx else xx"] by (elim disjE) (simp_all del: if_split)
  then have len: "length (digits_rev base ?v) \<le> 10"
    by (rule length_digits_rev [OF base(1)]) simp
  have "?v = (if sign then nat \<bar>sint xx\<bar> else unat xx)"
    using unat_abs_u32 [of xx] nat_abs_sint_pos [of xx] by auto
  moreover have "hd ?ds = 0 \<longrightarrow> length ?ds = 1"
    using digits_rev_no_zero [OF base(1)] by (simp add: hd_rev)
  moreover have "?ds \<noteq> []" by (subst digits_rev.simps) simp
  moreover have "printint xx base sign = consputs ((if ?neg then [45] else []) @ map digit_char ?ds)"
    by (simp add: printint_def printint_buf_def Let_def rev_map)
  moreover have "length (printint_buf xx base sign) \<le> 16"
    using len by (auto simp: printint_buf_def Let_def split: if_splits)
  ultimately show ?thesis
    using digits_val_rev [OF base(1)] digits_rev_bound [OF base(1)]
    by (intro exI [of _ ?ds]) (simp add: set_rev)
qed

theorem printint_prints_witness:
  "\<exists>ds. printint 0x80000000 10 True =
      consputs ((if True \<and> sint (0x80000000 :: u32) < 0 then [45] else []) @ map digit_char ds) \<and>
    digits_val 10 (rev ds) = (if True then nat \<bar>sint (0x80000000 :: u32)\<bar> else unat (0x80000000 :: u32)) \<and>
    (\<forall>d \<in> set ds. d < 10) \<and> ds \<noteq> [] \<and> (hd ds = 0 \<longrightarrow> length ds = 1) \<and>
    length (printint_buf 0x80000000 10 True) \<le> 16"
  by (rule printint_prints) simp

end
