(* ===== verification/Bytes.thy ===== *)
theory Bytes
  imports Memory
begin

text \<open>
  Structures inside blocks: reading and overwriting fields of a list of bytes at an offset,
  as the code does through casts of \<open>b->data\<close>. Offsets are byte offsets.
\<close>

definition slice :: "nat \<Rightarrow> nat \<Rightarrow> u8 list \<Rightarrow> u8 list" where
  "slice off n bs = take n (drop off bs)"

definition splice :: "nat \<Rightarrow> u8 list \<Rightarrow> u8 list \<Rightarrow> u8 list" where
  "splice off xs bs = take off bs @ xs @ drop (off + length xs) bs"

definition get32 :: "u8 list \<Rightarrow> nat \<Rightarrow> u32" where
  "get32 bs off = of_le32 (slice off 4 bs)"

definition put32 :: "nat \<Rightarrow> u32 \<Rightarrow> u8 list \<Rightarrow> u8 list" where
  "put32 off v bs = splice off (le32 v) bs"

definition get16 :: "u8 list \<Rightarrow> nat \<Rightarrow> u16" where
  "get16 bs off = of_le16 (slice off 2 bs)"

definition put16 :: "nat \<Rightarrow> u16 \<Rightarrow> u8 list \<Rightarrow> u8 list" where
  "put16 off v bs = splice off (le16 v) bs"

lemma length_slice [simp]: "length (slice off n bs) = min n (length bs - off)"
  by (simp add: slice_def)

lemma length_splice [simp]: "off + length xs \<le> length bs \<Longrightarrow> length (splice off xs bs) = length bs"
  by (simp add: splice_def)

lemma slice_splice_same [simp]:
  "off + length xs \<le> length bs \<Longrightarrow> n = length xs \<Longrightarrow> slice off n (splice off xs bs) = xs"
  by (simp add: slice_def splice_def min_absorb2)

lemma nth_splice:
  "off + length xs \<le> length bs \<Longrightarrow> i < length bs \<Longrightarrow>
   splice off xs bs ! i = (if off \<le> i \<and> i < off + length xs then xs ! (i - off) else bs ! i)"
  by (auto simp: splice_def nth_append)

lemma nth_slice: "i < n \<Longrightarrow> off + i < length bs \<Longrightarrow> slice off n bs ! i = bs ! (off + i)"
  by (simp add: slice_def)

lemma slice_splice_disjoint [simp]:
  assumes "off + length xs \<le> length bs" and "off' + n \<le> off \<or> off + length xs \<le> off'"
  shows "slice off' n (splice off xs bs) = slice off' n bs"
  using assms by (intro nth_equalityI) (auto simp: nth_slice nth_splice)

lemma splice_slice_id: "off + n \<le> length bs \<Longrightarrow> splice off (slice off n bs) bs = bs"
  by (intro nth_equalityI) (auto simp: nth_splice nth_slice)

lemma get32_put32_same [simp]: "off + 4 \<le> length bs \<Longrightarrow> get32 (put32 off v bs) off = v"
  by (simp add: get32_def put32_def)

lemma get32_put32_other [simp]:
  "off + 4 \<le> length bs \<Longrightarrow> off' + 4 \<le> off \<or> off + 4 \<le> off' \<Longrightarrow> get32 (put32 off v bs) off' = get32 bs off'"
  by (simp add: get32_def put32_def)

lemma length_put32 [simp]: "off + 4 \<le> length bs \<Longrightarrow> length (put32 off v bs) = length bs"
  by (simp add: put32_def)

lemma get16_put16_same [simp]: "off + 2 \<le> length bs \<Longrightarrow> get16 (put16 off v bs) off = v"
  by (simp add: get16_def put16_def)

lemma get16_put16_other [simp]:
  "off + 2 \<le> length bs \<Longrightarrow> off' + 2 \<le> off \<or> off + 2 \<le> off' \<Longrightarrow> get16 (put16 off v bs) off' = get16 bs off'"
  by (simp add: get16_def put16_def)

lemma length_put16 [simp]: "off + 2 \<le> length bs \<Longrightarrow> length (put16 off v bs) = length bs"
  by (simp add: put16_def)

end
