(* ===== verification/Vm.thy ===== *)
theory Vm
  imports Kalloc Console_Out Bytes
begin

text \<open>
  \<^verbatim>\<open>vm.c\<close>: page tables. A page directory is the kernel address of its page; directory and
  table entries are read from and written to \<open>mem\<close>. \<open>lookup\<close> is the abstract view of a page
  table, a function from virtual addresses to page table entries.

  The kernel reaches user memory through the page table in the CPU's \<open>cr3\<close>: \<open>vread\<close> and
  \<open>vwrite\<close> are loads and stores at addresses that may be user addresses. An address that is
  not mapped (or not writable: \<open>CR0_WP\<close> is set) faults in kernel mode, and \<open>trap()\<close> panics.

  \<open>seginit\<close> loads the segment descriptors and has no counterpart here; of the task state
  segment that \<open>switchuvm\<close> fills, the model has the kernel stack pointer \<open>esp0\<close>.
\<close>

section \<open>Reading page tables\<close>

definition pde_addr :: "u32 \<Rightarrow> u32 \<Rightarrow> u32" where
  "pde_addr pgdir va = pgdir + 4 * PDX va"

definition pte_addr :: "memory \<Rightarrow> u32 \<Rightarrow> u32 \<Rightarrow> u32" where
  "pte_addr m pgdir va = P2V (PTE_ADDR (load32 m (pde_addr pgdir va))) + 4 * PTX va"

text \<open>The page table entry for \<open>va\<close>, 0 when there is no table.\<close>

definition lookup :: "memory \<Rightarrow> u32 \<Rightarrow> u32 \<Rightarrow> u32" where
  "lookup m pgdir va =
     (if load32 m (pde_addr pgdir va) AND PTE_P \<noteq> 0 then load32 m (pte_addr m pgdir va) else 0)"

section \<open>Memory accesses through the current page table\<close>

text \<open>The kernel address at which the byte at \<open>va\<close> is found: kernel addresses are mapped
  directly, user addresses by the page table. Kernel mode ignores \<open>PTE_U\<close>.\<close>

definition vaddr :: "memory \<Rightarrow> u32 \<Rightarrow> bool \<Rightarrow> u32 \<Rightarrow> u32 option" where
  "vaddr m pgdir wr va =
     (if KERNBASE \<le> va then Some va
      else let pte = lookup m pgdir va in
        if pte AND PTE_P \<noteq> 0 \<and> (wr \<longrightarrow> pte AND PTE_W \<noteq> 0)
        then Some (P2V (PTE_ADDR pte) + (va AND 0xFFF)) else None)"

text \<open>The page table in use: \<open>cr3\<close> of the executing CPU.\<close>

definition cur_pgdir :: "kernel \<Rightarrow> u32" where
  "cur_pgdir s = (case cpu_index s of Some c \<Rightarrow> P2V (c_cr3 (cpus s c)) | None \<Rightarrow> 0)"

primrec vread_list :: "memory \<Rightarrow> u32 \<Rightarrow> u32 \<Rightarrow> nat \<Rightarrow> u8 list option" where
  "vread_list m pgdir va 0 = Some []"
| "vread_list m pgdir va (Suc n) =
     (case vaddr m pgdir False va of None \<Rightarrow> None
      | Some a \<Rightarrow> map_option (\<lambda>bs. m a # bs) (vread_list m pgdir (va + 1) n))"

primrec vwrite_list :: "u32 \<Rightarrow> u32 \<Rightarrow> u8 list \<Rightarrow> memory \<Rightarrow> memory option" where
  "vwrite_list pgdir va [] m = Some m"
| "vwrite_list pgdir va (b # bs) m =
     (case vaddr m pgdir True va of None \<Rightarrow> None
      | Some a \<Rightarrow> vwrite_list pgdir (va + 1) bs (m(a := b)))"

definition vread :: "u32 \<Rightarrow> nat \<Rightarrow> u8 list K" where
  "vread va n =
     kbind (kget (\<lambda>s. vread_list (mem s) (cur_pgdir s) va n)) (\<lambda>r. case r of
       Some bs \<Rightarrow> kret bs
     | None \<Rightarrow> kpanic ''trap'')"

definition vwrite :: "u32 \<Rightarrow> u8 list \<Rightarrow> unit K" where
  "vwrite va bs =
     kbind (kget (\<lambda>s. vwrite_list (cur_pgdir s) va bs (mem s))) (\<lambda>r. case r of
       Some m \<Rightarrow> kmod (\<lambda>s. s\<lparr>mem := m\<rparr>)
     | None \<Rightarrow> kpanic ''trap'')"

definition vload32 :: "u32 \<Rightarrow> u32 K" where
  "vload32 va = kbind (vread va 4) (\<lambda>bs. kret (of_le32 bs))"

definition vstore32 :: "u32 \<Rightarrow> u32 \<Rightarrow> unit K" where
  "vstore32 va v = vwrite va (le32 v)"

section \<open>Page tables\<close>

definition walkpgdir :: "u32 \<Rightarrow> u32 \<Rightarrow> bool \<Rightarrow> u32 K" where
  "walkpgdir pgdir va alloc =
     kbind (kload32 (pde_addr pgdir va)) (\<lambda>pde.
     if pde AND PTE_P \<noteq> 0 then kret (P2V (PTE_ADDR pde) + 4 * PTX va)
     else if \<not> alloc then kret 0
     else kbind kalloc (\<lambda>pgtab.
       if pgtab = 0 then kret 0
       else kseq (kmemset pgtab 0 PGSIZE)
         (kseq (kstore32 (pde_addr pgdir va) (V2P pgtab OR PTE_P OR PTE_W OR PTE_U))
           (kret (pgtab + 4 * PTX va)))))"

text \<open>The loop of \<open>mappages\<close> ends when it reaches the page \<open>last\<close>; it is given a round for
  every page from \<open>a\<close> to \<open>last\<close>.\<close>

primrec mappages_loop :: "nat \<Rightarrow> u32 \<Rightarrow> u32 \<Rightarrow> u32 \<Rightarrow> u32 \<Rightarrow> u32 \<Rightarrow> u32 K" where
  "mappages_loop 0 pgdir a last_pg pa perm = (\<lambda>s w. Stuck s)"
| "mappages_loop (Suc n) pgdir a last_pg pa perm =
     kbind (walkpgdir pgdir a True) (\<lambda>pte.
     if pte = 0 then kret minus1
     else kbind (kload32 pte) (\<lambda>v.
       if v AND PTE_P \<noteq> 0 then kpanic ''remap''
       else kseq (kstore32 pte (pa OR perm OR PTE_P))
         (if a = last_pg then kret 0
          else mappages_loop n pgdir (a + PGSIZE) last_pg (pa + PGSIZE) perm)))"

definition mappages :: "u32 \<Rightarrow> u32 \<Rightarrow> u32 \<Rightarrow> u32 \<Rightarrow> u32 \<Rightarrow> u32 K" where
  "mappages pgdir va sz pa perm =
     (let a = PGROUNDDOWN va; last_pg = PGROUNDDOWN (va + sz - 1) in
      mappages_loop (Suc (unat (last_pg - a) div 4096)) pgdir a last_pg pa perm)"

text \<open>The loop of \<open>deallocuvm\<close>, given a round for every page from \<open>a\<close> to \<open>oldsz\<close> and one
  for the last test.\<close>

primrec deallocuvm_loop :: "nat \<Rightarrow> u32 \<Rightarrow> u32 \<Rightarrow> u32 \<Rightarrow> unit K" where
  "deallocuvm_loop 0 pgdir a oldsz = (\<lambda>s w. Stuck s)"
| "deallocuvm_loop (Suc n) pgdir a oldsz =
     (if \<not> a < oldsz then kret ()
      else kbind (walkpgdir pgdir a False) (\<lambda>pte.
        if pte = 0 then
          deallocuvm_loop n pgdir (PGADDR (PDX a + 1) 0 0 - PGSIZE + PGSIZE) oldsz
        else kseq
          (kbind (kload32 pte) (\<lambda>v.
           if v AND PTE_P \<noteq> 0 then
             if PTE_ADDR v = 0 then kpanic ''kfree''
             else kseq (kfree (P2V (PTE_ADDR v))) (kstore32 pte 0)
           else kret ()))
          (deallocuvm_loop n pgdir (a + PGSIZE) oldsz)))"

definition deallocuvm :: "u32 \<Rightarrow> u32 \<Rightarrow> u32 \<Rightarrow> u32 K" where
  "deallocuvm pgdir oldsz newsz =
     (if newsz \<ge> oldsz then kret oldsz
      else let a = PGROUNDUP newsz in
        kseq (deallocuvm_loop (Suc (Suc (unat (oldsz - a) div 4096))) pgdir a oldsz)
          (kret newsz))"

definition freevm :: "u32 \<Rightarrow> unit K" where
  "freevm pgdir =
     (if pgdir = 0 then kpanic ''freevm: no pgdir''
      else kseq (deallocuvm pgdir KERNBASE 0)
        (kseq (kfor NPDENTRIES 0 (\<lambda>i.
           kbind (kload32 (pgdir + 4 * of_nat i)) (\<lambda>pde.
           if pde AND PTE_P \<noteq> 0 then kfree (P2V (PTE_ADDR pde)) else kret ())))
         (kfree pgdir)))"

text \<open>The table \<open>kmap\<close>: virtual address, physical start and end, permissions.\<close>

definition kmap :: "kernel \<Rightarrow> (u32 \<times> u32 \<times> u32 \<times> u32) list" where
  "kmap s = [(KERNBASE, 0, EXTMEM, PTE_W),
     (KERNLINK, V2P KERNLINK, V2P (kdata s), 0),
     (kdata s, V2P (kdata s), PHYSTOP, PTE_W),
     (DEVSPACE, DEVSPACE, 0, PTE_W)]"

primrec setupkvm_loop :: "u32 \<Rightarrow> (u32 \<times> u32 \<times> u32 \<times> u32) list \<Rightarrow> u32 K" where
  "setupkvm_loop pgdir [] = kret pgdir"
| "setupkvm_loop pgdir (k # ks) =
     (case k of (virt, phys_start, phys_end, perm) \<Rightarrow>
       kbind (mappages pgdir virt (phys_end - phys_start) phys_start perm) (\<lambda>r.
       if sint r < 0 then kseq (freevm pgdir) (kret 0)
       else setupkvm_loop pgdir ks))"

definition setupkvm :: "u32 K" where
  "setupkvm =
     kbind kalloc (\<lambda>pgdir.
     if pgdir = 0 then kret 0
     else kseq (kmemset pgdir 0 PGSIZE)
       (if P2V PHYSTOP > DEVSPACE then kpanic ''PHYSTOP too high''
        else kbind (kget kmap) (\<lambda>ks. setupkvm_loop pgdir ks)))"

definition lcr3 :: "u32 \<Rightarrow> unit K" where
  "lcr3 v = kmod (\<lambda>s. case cpu_index s of
       Some c \<Rightarrow> s\<lparr>cpus := (cpus s)(c := (cpus s c)\<lparr>c_cr3 := v\<rparr>)\<rparr>
     | None \<Rightarrow> s)"

definition switchkvm :: "unit K" where
  "switchkvm = kbind (kget kpgdir) (\<lambda>d. lcr3 (V2P d))"

definition kvmalloc :: "unit K" where
  "kvmalloc = kbind setupkvm (\<lambda>d. kseq (kmod (\<lambda>s. s\<lparr>kpgdir := d\<rparr>)) switchkvm)"

definition switchuvm :: "nat option \<Rightarrow> unit K" where
  "switchuvm pp = (case pp of
     None \<Rightarrow> kpanic ''switchuvm: no process''
   | Some p \<Rightarrow>
       kif (\<lambda>s. p_kstack (ptable s p) = 0) (kpanic ''switchuvm: no kstack'')
       (kif (\<lambda>s. p_pgdir (ptable s p) = 0) (kpanic ''switchuvm: no pgdir'')
       (kseq pushcli
       (kbind mycpu (\<lambda>c.
        kbind (kget (\<lambda>s. p_kstack (ptable s p) + KSTACKSIZE)) (\<lambda>sp.
        kseq (upd_cpu c (\<lambda>q. q\<lparr>c_esp0 := sp\<rparr>))
        (kseq (kbind (kget (\<lambda>s. p_pgdir (ptable s p))) (\<lambda>d. lcr3 (V2P d)))
         popcli)))))))"

definition inituvm :: "u32 \<Rightarrow> u8 list \<Rightarrow> unit K" where
  "inituvm pgdir init =
     (if of_nat (length init) \<ge> PGSIZE then kpanic ''inituvm: more than a page''
      else kbind kalloc (\<lambda>v.
        kseq (kmemset v 0 PGSIZE)
        (kseq (mappages pgdir 0 PGSIZE (V2P v) (PTE_W OR PTE_U))
         (kmod (\<lambda>s. s\<lparr>mem := write_bytes (mem s) v init\<rparr>)))))"

text \<open>The loop of \<open>allocuvm\<close>; \<open>oldsz\<close> is for the deallocation on failure.\<close>

primrec allocuvm_loop :: "nat \<Rightarrow> u32 \<Rightarrow> u32 \<Rightarrow> u32 \<Rightarrow> u32 \<Rightarrow> u32 K" where
  "allocuvm_loop 0 pgdir a oldsz newsz = (\<lambda>s w. Stuck s)"
| "allocuvm_loop (Suc n) pgdir a oldsz newsz =
     (if \<not> a < newsz then kret newsz
      else kbind kalloc (\<lambda>v.
        if v = 0 then
          kseq (cprintf ''allocuvm out of memory\<newline>'' [])
          (kseq (deallocuvm pgdir newsz oldsz) (kret 0))
        else kseq (kmemset v 0 PGSIZE)
          (kbind (mappages pgdir a PGSIZE (V2P v) (PTE_W OR PTE_U)) (\<lambda>r.
           if sint r < 0 then
             kseq (cprintf ''allocuvm out of memory (2)\<newline>'' [])
             (kseq (deallocuvm pgdir newsz oldsz)
             (kseq (kfree v) (kret 0)))
           else allocuvm_loop n pgdir (a + PGSIZE) oldsz newsz))))"

definition allocuvm :: "u32 \<Rightarrow> u32 \<Rightarrow> u32 \<Rightarrow> u32 K" where
  "allocuvm pgdir oldsz newsz =
     (if newsz \<ge> KERNBASE then kret 0
      else if newsz < oldsz then kret oldsz
      else let a = PGROUNDUP oldsz in
        allocuvm_loop (Suc (Suc (unat (newsz - a) div 4096))) pgdir a oldsz newsz)"

definition clearpteu :: "u32 \<Rightarrow> u32 \<Rightarrow> unit K" where
  "clearpteu pgdir uva =
     kbind (walkpgdir pgdir uva False) (\<lambda>pte.
     if pte = 0 then kpanic ''clearpteu''
     else kbind (kload32 pte) (\<lambda>v. kstore32 pte (v AND NOT PTE_U)))"

primrec copyuvm_loop :: "nat \<Rightarrow> u32 \<Rightarrow> u32 \<Rightarrow> u32 \<Rightarrow> u32 \<Rightarrow> u32 K" where
  "copyuvm_loop 0 pgdir d i sz = (\<lambda>s w. Stuck s)"
| "copyuvm_loop (Suc n) pgdir d i sz =
     (if \<not> i < sz then kret d
      else kbind (walkpgdir pgdir i False) (\<lambda>pte.
        if pte = 0 then kpanic ''copyuvm: pte should exist''
        else kbind (kload32 pte) (\<lambda>v.
          if v AND PTE_P = 0 then kpanic ''copyuvm: page not present''
          else kbind kalloc (\<lambda>pg.
            if pg = 0 then kseq (freevm d) (kret 0)
            else kseq (kmemmove pg (P2V (PTE_ADDR v)) PGSIZE)
              (kbind (mappages d i PGSIZE (V2P pg) (PTE_FLAGS v)) (\<lambda>r.
               if sint r < 0 then kseq (kfree pg) (kseq (freevm d) (kret 0))
               else copyuvm_loop n pgdir d (i + PGSIZE) sz))))))"

definition copyuvm :: "u32 \<Rightarrow> u32 \<Rightarrow> u32 K" where
  "copyuvm pgdir sz =
     kbind setupkvm (\<lambda>d.
     if d = 0 then kret 0
     else copyuvm_loop (Suc (Suc (unat sz div 4096))) pgdir d 0 sz)"

text \<open>\<open>uva2ka\<close> dereferences the result of \<open>walkpgdir\<close> without a null test.\<close>

definition uva2ka :: "u32 \<Rightarrow> u32 \<Rightarrow> u32 K" where
  "uva2ka pgdir uva =
     kbind (walkpgdir pgdir uva False) (\<lambda>pte.
     kbind (vload32 pte) (\<lambda>v.
     if v AND PTE_P = 0 then kret 0
     else if v AND PTE_U = 0 then kret 0
     else kret (P2V (PTE_ADDR v))))"

text \<open>\<open>copyout\<close> copies the bytes \<open>buf\<close>, whose number is its argument \<open>len\<close>.\<close>

function copyout :: "u32 \<Rightarrow> u32 \<Rightarrow> u8 list \<Rightarrow> u32 K" where
  "copyout pgdir va buf =
     (if buf = [] then kret 0
      else let va0 = PGROUNDDOWN va;
               n = min (4096 - unat (va - va0)) (length buf) in
        kbind (uva2ka pgdir va0) (\<lambda>pa0.
        if pa0 = 0 then kret minus1
        else kseq (kmod (\<lambda>s. s\<lparr>mem := write_bytes (mem s) (pa0 + (va - va0)) (take n buf)\<rparr>))
          (copyout pgdir (va0 + PGSIZE) (drop n buf))))"
  by pat_completeness auto

lemma PGROUNDDOWN_plus: "PGROUNDDOWN va + (va AND 0xFFF) = va"
proof -
  have "PGROUNDDOWN va AND (va AND 0xFFF) = 0"
    unfolding PGROUNDDOWN_def by (rule bit_word_eqI) (auto simp: bit_simps mask12)
  then have "PGROUNDDOWN va + (va AND 0xFFF) = (PGROUNDDOWN va OR (va AND 0xFFF))"
    by (rule disjunctive_add_eq_or)
  also have "\<dots> = va"
    unfolding PGROUNDDOWN_def by (rule bit_word_eqI) (auto simp: bit_simps mask12)
  finally show ?thesis .
qed

lemma PGROUNDDOWN_diff: "va - PGROUNDDOWN va = va AND 0xFFF"
  by (metis PGROUNDDOWN_plus add_diff_cancel_left')

lemma and_mask12_lt: "unat ((va :: u32) AND 0xFFF) < 4096"
  using and_mask_less' [of 12 va] by (simp add: mask12 word_less_nat_alt)

termination copyout
  by (relation "measure (\<lambda>(_, _, buf). length buf)")
    (use and_mask12_lt in \<open>auto simp: PGROUNDDOWN_diff\<close>)

declare copyout.simps [simp del]

section \<open>A window of user memory\<close>

text \<open>
  The bytes that decide where a virtual address is found: its directory entry and its table
  entry. A range of user addresses is a \<^emph>\<open>window\<close> if all its bytes are mapped and writable,
  to different places, none of which decides about the range itself. The contents of a window
  are a list of bytes, and loads and stores in it read and splice that list.
\<close>

definition walk_bytes :: "memory \<Rightarrow> u32 \<Rightarrow> u32 \<Rightarrow> u32 set" where
  "walk_bytes m pgdir va =
     (\<lambda>k. pde_addr pgdir va + of_nat k) ` {..<4} \<union> (\<lambda>k. pte_addr m pgdir va + of_nat k) ` {..<4}"

definition uphys :: "memory \<Rightarrow> u32 \<Rightarrow> u32 \<Rightarrow> nat \<Rightarrow> u32" where
  "uphys m pgdir lo i = the (vaddr m pgdir True (lo + of_nat i))"

definition window :: "memory \<Rightarrow> u32 \<Rightarrow> u32 \<Rightarrow> nat \<Rightarrow> bool" where
  "window m pgdir lo n \<longleftrightarrow>
     (\<forall>i < n. vaddr m pgdir True (lo + of_nat i) \<noteq> None) \<and>
     inj_on (uphys m pgdir lo) {..<n} \<and>
     (\<forall>i < n. \<forall>j < n. uphys m pgdir lo j \<notin> walk_bytes m pgdir (lo + of_nat i))"

definition wview :: "memory \<Rightarrow> u32 \<Rightarrow> u32 \<Rightarrow> nat \<Rightarrow> u8 list" where
  "wview m pgdir lo n = map (\<lambda>i. m (uphys m pgdir lo i)) [0..<n]"

lemma length_wview [simp]: "length (wview m pgdir lo n) = n"
  by (simp add: wview_def)

lemma load32_cong: "(\<And>k. k < 4 \<Longrightarrow> m' (a + of_nat k) = m (a + of_nat k)) \<Longrightarrow> load32 m' a = load32 m a"
  unfolding load32_def by (rule arg_cong [OF read_bytes_cong])

lemma lookup_cong:
  assumes "\<And>x. x \<in> walk_bytes m pgdir va \<Longrightarrow> m' x = m x"
  shows "lookup m' pgdir va = lookup m pgdir va"
proof -
  have "load32 m' (pde_addr pgdir va) = load32 m (pde_addr pgdir va)"
    using assms by (intro load32_cong) (auto simp: walk_bytes_def)
  moreover from this have "pte_addr m' pgdir va = pte_addr m pgdir va"
    by (simp add: pte_addr_def)
  moreover have "load32 m' (pte_addr m pgdir va) = load32 m (pte_addr m pgdir va)"
    using assms by (intro load32_cong) (auto simp: walk_bytes_def)
  ultimately show ?thesis by (simp add: lookup_def)
qed

lemma walk_bytes_cong:
  assumes "\<And>x. x \<in> walk_bytes m pgdir va \<Longrightarrow> m' x = m x"
  shows "walk_bytes m' pgdir va = walk_bytes m pgdir va"
proof -
  have "load32 m' (pde_addr pgdir va) = load32 m (pde_addr pgdir va)"
    using assms by (intro load32_cong) (auto simp: walk_bytes_def)
  then show ?thesis by (simp add: walk_bytes_def pte_addr_def)
qed

lemma vaddr_cong:
  assumes "\<And>x. x \<in> walk_bytes m pgdir va \<Longrightarrow> m' x = m x"
  shows "vaddr m' pgdir wr va = vaddr m pgdir wr va"
proof -
  have "lookup m' pgdir va = lookup m pgdir va" using assms by (rule lookup_cong)
  then show ?thesis by (simp only: vaddr_def)
qed

text \<open>A store into the window keeps the translation of the window.\<close>

lemma window_upd:
  assumes win: "window m pgdir lo n" and j: "j < n" and m': "m' = m(uphys m pgdir lo j := b)"
  shows "\<forall>i < n. uphys m' pgdir lo i = uphys m pgdir lo i"
    and "window m' pgdir lo n" and "wview m' pgdir lo n = (wview m pgdir lo n)[j := b]"
proof -
  have same: "m' x = m x" if "x \<in> walk_bytes m pgdir (lo + of_nat i)" "i < n" for x i
    using win that j unfolding window_def m' by auto
  have v: "vaddr m' pgdir wr (lo + of_nat i) = vaddr m pgdir wr (lo + of_nat i)" if "i < n" for wr i
    using same that by (intro vaddr_cong)
  then have u: "uphys m' pgdir lo i = uphys m pgdir lo i" if "i < n" for i
    using that by (simp only: uphys_def)
  then show "\<forall>i < n. uphys m' pgdir lo i = uphys m pgdir lo i" by blast
  have wb: "walk_bytes m' pgdir (lo + of_nat i) = walk_bytes m pgdir (lo + of_nat i)" if "i < n" for i
    using same that by (intro walk_bytes_cong)
  have "inj_on (uphys m' pgdir lo) {..<n} = inj_on (uphys m pgdir lo) {..<n}"
    using u by (intro inj_on_cong) simp
  with win show "window m' pgdir lo n"
    unfolding window_def using u v wb by (metis (no_types, lifting))
  show "wview m' pgdir lo n = (wview m pgdir lo n)[j := b]"
  proof (rule nth_equalityI)
    fix i assume "i < length (wview m' pgdir lo n)"
    then have i: "i < n" by simp
    have "uphys m pgdir lo i = uphys m pgdir lo j \<longleftrightarrow> i = j"
      using win i j by (auto simp: window_def inj_on_def)
    then show "wview m' pgdir lo n ! i = (wview m pgdir lo n)[j := b] ! i"
      using i j u [OF i] by (simp add: wview_def m' nth_list_update)
  qed simp
qed

lemma splice_Cons:
  assumes "off + Suc (length bs) \<le> length xs"
  shows "splice off (b # bs) xs = splice (Suc off) bs (xs[off := b])"
proof (rule nth_equalityI)
  fix i assume "i < length (splice off (b # bs) xs)"
  then have "i < length xs" using assms by simp
  then show "splice off (b # bs) xs ! i = splice (Suc off) bs (xs[off := b]) ! i"
    using assms by (auto simp: nth_splice nth_Cons nth_list_update split: nat.splits)
      (metis Suc_diff_Suc diff_Suc_Suc diff_Suc_1 diff_diff_left plus_1_eq_Suc add.commute)
qed (use assms in simp)

text \<open>Stores into the window.\<close>

definition same_outside :: "memory \<Rightarrow> u32 \<Rightarrow> u32 \<Rightarrow> nat \<Rightarrow> memory \<Rightarrow> bool" where
  "same_outside m pgdir lo n m' \<longleftrightarrow> (\<forall>x. x \<notin> uphys m pgdir lo ` {..<n} \<longrightarrow> m' x = m x)"

lemma vwrite_window:
  assumes "window m pgdir lo n" and "off + length bs \<le> n"
  shows "\<exists>m'. vwrite_list pgdir (lo + of_nat off) bs m = Some m' \<and> window m' pgdir lo n \<and>
    wview m' pgdir lo n = splice off bs (wview m pgdir lo n) \<and>
    (\<forall>i < n. uphys m' pgdir lo i = uphys m pgdir lo i) \<and> same_outside m pgdir lo n m'"
  using assms
proof (induction bs arbitrary: off m)
  case Nil
  then show ?case by (simp add: splice_def same_outside_def)
next
  case (Cons b bs)
  have off: "off < n" using Cons.prems(2) by simp
  define m1 where "m1 = m(uphys m pgdir lo off := b)"
  note upd = window_upd [OF Cons.prems(1) off m1_def]
  have v: "vaddr m pgdir True (lo + of_nat off) = Some (uphys m pgdir lo off)"
    using Cons.prems(1) off by (auto simp: window_def uphys_def)
  have next_byte: "lo + of_nat off + 1 = lo + of_nat (Suc off)" by simp
  have "Suc off + length bs \<le> n" using Cons.prems(2) by simp
  then obtain m' where m': "vwrite_list pgdir (lo + of_nat (Suc off)) bs m1 = Some m'"
      "window m' pgdir lo n" "wview m' pgdir lo n = splice (Suc off) bs (wview m1 pgdir lo n)"
      "\<forall>i < n. uphys m' pgdir lo i = uphys m1 pgdir lo i" "same_outside m1 pgdir lo n m'"
    using Cons.IH [OF upd(2)] by blast
  have "same_outside m pgdir lo n m'"
    using m'(5) upd(1) off unfolding same_outside_def m1_def by auto
  moreover have "vwrite_list pgdir (lo + of_nat off) (b # bs) m = Some m'"
    by (simp only: vwrite_list.simps v option.case next_byte m1_def [symmetric] m'(1))
  moreover have "wview m' pgdir lo n = splice off (b # bs) (wview m pgdir lo n)"
    using m'(3) upd(3) Cons.prems(2) by (simp add: splice_Cons)
  ultimately show ?case using m'(2,4) upd(1) by auto
qed

lemma vaddr_read: "vaddr m pgdir True va = Some a \<Longrightarrow> vaddr m pgdir False va = Some a"
  by (auto simp: vaddr_def Let_def split: if_splits)

lemma vread_window:
  "window m pgdir lo n \<Longrightarrow> off + k \<le> n \<Longrightarrow>
   vread_list m pgdir (lo + of_nat off) k = Some (slice off k (wview m pgdir lo n))"
proof (induction k arbitrary: off)
  case (Suc k)
  have off: "off < n" using Suc.prems(2) by simp
  have "vaddr m pgdir True (lo + of_nat off) = Some (uphys m pgdir lo off)"
    using Suc.prems(1) off by (auto simp: window_def uphys_def)
  then have v: "vaddr m pgdir False (lo + of_nat off) = Some (uphys m pgdir lo off)"
    by (rule vaddr_read)
  have next_byte: "lo + of_nat off + 1 = lo + of_nat (Suc off)" by simp
  have "vread_list m pgdir (lo + of_nat (Suc off)) k = Some (slice (Suc off) k (wview m pgdir lo n))"
    using Suc.prems by (intro Suc.IH) auto
  then have "vread_list m pgdir (lo + of_nat off) (Suc k) =
      Some (m (uphys m pgdir lo off) # slice (Suc off) k (wview m pgdir lo n))"
    by (simp only: vread_list.simps v option.case next_byte option.map)
  also have "m (uphys m pgdir lo off) # slice (Suc off) k (wview m pgdir lo n) =
      slice off (Suc k) (wview m pgdir lo n)"
    using off by (simp add: slice_def Cons_nth_drop_Suc [symmetric]) (simp add: wview_def)
  finally show ?case .
qed (simp add: slice_def)

section \<open>Windows inside a page\<close>

lemma KERNBASE_bit: "KERNBASE \<le> a \<longleftrightarrow> bit a 31"
proof -
  define n where "n = unat a div 2 ^ 31"
  have "n < 2"
    using unat_lt_u32 [of a] by (simp add: less_mult_imp_div_less n_def)
  then have "odd n \<longleftrightarrow> 0 < n" by (auto simp: less_2_cases_iff)
  also have "0 < n \<longleftrightarrow> 2 ^ 31 \<le> unat a" by (simp add: n_def div_greater_zero_iff)
  finally have "odd n \<longleftrightarrow> KERNBASE \<le> a" by (simp add: word_le_nat_alt)
  moreover have "bit a 31 \<longleftrightarrow> odd n"
    using bit_unsigned_iff [where ?'a = nat, of a 31] by (simp add: n_def bit_iff_odd [of "unat a"])
  ultimately show ?thesis by simp
qed

lemma in_page_split:
  assumes "pg_aligned pg" and "k < 4096"
  shows "n < 12 \<Longrightarrow> \<not> bit pg n" and "12 \<le> n \<Longrightarrow> \<not> bit (of_nat k :: u32) n"
    and "pg + of_nat k = pg OR of_nat k"
proof -
  have k: "take_bit 12 (of_nat k :: u32) = of_nat k"
    using assms(2) by (simp add: take_bit_eq_mod unat_of_nat word_unat_eq_iff unat_mod)
  show lo: "\<not> bit pg n" if "n < 12" for n
    using assms(1) that by (metis pg_aligned_take_bit bit_take_bit_iff bit_0_eq bot_apply bot_bool_def)
  show hi: "\<not> bit (of_nat k :: u32) n" if "12 \<le> n" for n
    using k that by (metis bit_take_bit_iff not_le)
  show "pg + of_nat k = pg OR of_nat k"
    using lo hi by (intro disjunctive_add) (meson not_le)
qed

lemma in_page_parts:
  assumes "pg_aligned pg" and "k < 4096"
  shows "PDX (pg + of_nat k) = PDX pg" and "PTX (pg + of_nat k) = PTX pg"
    and "(pg + of_nat k) AND 0xFFF = of_nat k" and "PGROUNDDOWN (pg + of_nat k) = pg"
    and "KERNBASE \<le> pg + of_nat k \<longleftrightarrow> KERNBASE \<le> pg"
proof -
  define x :: u32 where "x = of_nat k"
  note s = in_page_split [OF assms, folded x_def]
  show "PDX (pg + of_nat k) = PDX pg" "PTX (pg + of_nat k) = PTX pg"
    unfolding x_def [symmetric] PDX_def PTX_def s(3) by (auto intro!: bit_word_eqI simp: bit_simps s(2))
  show "(pg + of_nat k) AND 0xFFF = of_nat k"
    unfolding x_def [symmetric] s(3) mask12 using s(1,2)
    by (auto intro!: bit_word_eqI simp: bit_simps) (meson not_le)
  show "PGROUNDDOWN (pg + of_nat k) = pg"
    unfolding x_def [symmetric] s(3) PGROUNDDOWN_def using s(1,2)
    by (auto intro!: bit_word_eqI simp: bit_simps mask12)
  show "KERNBASE \<le> pg + of_nat k \<longleftrightarrow> KERNBASE \<le> pg"
    unfolding KERNBASE_bit x_def [symmetric] s(3) by (simp add: bit_simps s(2))
qed

text \<open>A range inside one writable page of a process is a window, as long as the frame of the
  page does not hold the entries that map it.\<close>

lemma page_window:
  assumes pg: "pg_aligned pg" "pg < KERNBASE" and fits: "off + n \<le> 4096"
    and pte: "lookup m d pg = pte" "pte AND PTE_P \<noteq> 0" "pte AND PTE_W \<noteq> 0"
    and apart: "\<And>k. k < 4096 \<Longrightarrow> P2V (PTE_ADDR pte) + of_nat k \<notin> walk_bytes m d pg"
  shows "window m d (pg + of_nat off) n"
    and "i < n \<Longrightarrow> uphys m d (pg + of_nat off) i = P2V (PTE_ADDR pte) + of_nat (off + i)"
proof -
  let ?f = "P2V (PTE_ADDR pte)"
  have same: "pde_addr d (pg + of_nat k) = pde_addr d pg" "pte_addr m d (pg + of_nat k) = pte_addr m d pg"
    if "k < 4096" for k
    using in_page_parts(1,2) [OF pg(1) that] by (simp_all add: pde_addr_def pte_addr_def)
  have v: "vaddr m d True (pg + of_nat k) = Some (?f + of_nat k)" if "k < 4096" for k
  proof -
    have "lookup m d (pg + of_nat k) = pte"
      unfolding pte(1) [symmetric] using same [OF that] by (simp add: lookup_def)
    then show ?thesis
      using in_page_parts(3,5) [OF pg(1) that] pg(2) pte(2,3) by (simp add: vaddr_def Let_def not_le [symmetric])
  qed
  have sum: "pg + of_nat off + of_nat i = pg + of_nat (off + i)" for i by simp
  have u: "uphys m d (pg + of_nat off) i = ?f + of_nat (off + i)" if "i < n" for i
    using that fits v [of "off + i"] unfolding uphys_def sum by simp
  then show "i < n \<Longrightarrow> uphys m d (pg + of_nat off) i = ?f + of_nat (off + i)" .
  have w: "walk_bytes m d (pg + of_nat off + of_nat i) = walk_bytes m d pg" if "i < n" for i
    using that fits same [of "off + i"] unfolding walk_bytes_def sum by simp
  have inj: "inj_on (uphys m d (pg + of_nat off)) {..<n}"
  proof (rule inj_onI)
    fix i j assume "i \<in> {..<n}" "j \<in> {..<n}"
      and "uphys m d (pg + of_nat off) i = uphys m d (pg + of_nat off) j"
    then have "(of_nat (off + i) :: u32) = of_nat (off + j)" and lt: "i < n" "j < n"
      using u by auto
    then show "i = j" using fits of_nat_u32_inject [of "off + i" "off + j"] by simp
  qed
  have some: "vaddr m d True (pg + of_nat off + of_nat i) \<noteq> None" if "i < n" for i
    using that fits v [of "off + i"] unfolding sum by simp
  have "uphys m d (pg + of_nat off) j \<notin> walk_bytes m d (pg + of_nat off + of_nat i)"
    if "i < n" "j < n" for i j
    using apart [of "off + j"] u w that fits by (simp del: of_nat_add)
  then show "window m d (pg + of_nat off) n"
    using inj some unfolding window_def by blast
qed

section \<open>A kernel with a user process\<close>

text \<open>A machine on which process 0 runs with one user page: the page directory is at
  \<open>0x80200000\<close>, its only table at \<open>0x80201000\<close>, and address 0 is mapped, writable, to the
  frame at \<open>0x80202000\<close>. Examples that touch user memory start from it.\<close>

definition umem :: memory where
  "umem = (\<lambda>_. 0)(0x80200000 := 7, 0x80200001 := 0x10, 0x80200002 := 0x20,
     0x80201000 := 7, 0x80201001 := 0x20, 0x80201002 := 0x20)"

definition ukernel :: kernel where
  "ukernel = kernel0\<lparr>cpus := (\<lambda>_. cpu0\<lparr>c_proc := Some 0, c_cr3 := 0x200000\<rparr>), mem := umem,
     ptable := (\<lambda>_. proc0)(0 := proc0\<lparr>p_sz := 4096, p_pgdir := 0x80200000, p_kstack := 0x80300000, p_state := RUNNING,
       p_pid := 2\<rparr>)\<rparr>"

lemma umem_lookup: "lookup umem 0x80200000 0 = 0x202007"
  by (simp add: lookup_def pde_addr_def pte_addr_def PDX_def PTX_def load32_def read_bytes_def
      umem_def of_le32_def PTE_ADDR_def P2V_def upt_rec)

lemma umem_walk: "walk_bytes umem 0x80200000 0 = (\<lambda>k. 0x80200000 + of_nat k) ` {..<4} \<union>
    (\<lambda>k. 0x80201000 + of_nat k) ` {..<4}"
  by (simp add: walk_bytes_def pde_addr_def pte_addr_def PDX_def PTX_def load32_def read_bytes_def
      umem_def of_le32_def PTE_ADDR_def P2V_def upt_rec)

lemma umem_apart:
  assumes "k < 4096" shows "0x80202000 + of_nat k \<notin> walk_bytes umem 0x80200000 0"
proof -
  have "0x80202000 + of_nat k \<noteq> (0x80200000 + of_nat j :: u32)"
    "0x80202000 + of_nat k \<noteq> (0x80201000 + of_nat j :: u32)" if "j < 4" for j
    using assms that of_nat_u32_inject [of "k + 0x2000" j] of_nat_u32_inject [of "k + 0x1000" j]
    by (auto simp: algebra_simps)
  then show ?thesis unfolding umem_walk by auto
qed

lemma umem_window:
  assumes "off + n \<le> 4096"
  shows "window umem 0x80200000 (of_nat off) n"
    and "i < n \<Longrightarrow> uphys umem 0x80200000 (of_nat off) i = 0x80202000 + of_nat (off + i)"
  using page_window [of 0 off n umem "0x80200000" "0x202007"] assms umem_lookup umem_apart
  by (simp_all add: pg_aligned_def P2V_def PTE_ADDR_def)

lemma ukernel_sel [simp]:
  "mem ukernel = umem" "cur_pgdir ukernel = 0x80200000" "lapic_id ukernel = 0"
  "cpus ukernel = (\<lambda>_. cpu0\<lparr>c_proc := Some 0, c_cr3 := 0x200000\<rparr>)" "cli_ok 0 ukernel"
  "lock_free L ukernel"
  "ptable ukernel = (\<lambda>_. proc0)(0 := proc0\<lparr>p_sz := 4096, p_pgdir := 0x80200000, p_kstack := 0x80300000,
     p_state := RUNNING, p_pid := 2\<rparr>)"
  by (simp_all add: ukernel_def cur_pgdir_def P2V_def cpu_index_def cli_ok_def lock_free_def cpu0_def
      spinlock0_def)

end
