(* ===== verification/Proc_Sched.thy ===== *)
theory Proc_Sched
  imports Vm
begin

text \<open>
  The scheduling half of \<^verbatim>\<open>proc.c\<close>: compare-and-swap on process states, process ids,
  \<open>sched\<close>, \<open>yield\<close>, \<open>sleep\<close>, \<open>wakeup\<close>, \<open>kill\<close>, the built-in signal handlers and the
  per-CPU scheduler.

  \<open>swtch\<close> out of a process is one move of the world: the CPU's scheduler goes on, and some
  time later some CPU's scheduler switches back to the process. The spin loops
  \<open>while(p->state == -SLEEPING);\<close> let the world move once per round. The predicate
  \<open>running c p s\<close> says that process \<open>p\<close> executes on CPU \<open>c\<close>.
\<close>

section \<open>Compare and swap (x86.h)\<close>

text \<open>\<open>cas rd wr expected newval\<close>: the locked \<open>cmpxchg\<close> on the location read by \<open>rd\<close> and
  written by \<open>wr\<close>; the result says whether the swap took place.\<close>

definition cas :: "(kernel \<Rightarrow> 'a) \<Rightarrow> ('a \<Rightarrow> kernel \<Rightarrow> kernel) \<Rightarrow> 'a \<Rightarrow> 'a \<Rightarrow> bool K" where
  "cas rd wr expected newval =
     kbind (kget rd) (\<lambda>v.
     if v = expected then kseq (kmod (wr newval)) (kret True) else kret False)"

definition upd_proc :: "nat \<Rightarrow> (proc \<Rightarrow> proc) \<Rightarrow> unit K" where
  "upd_proc i f = kmod (\<lambda>s. s\<lparr>ptable := (ptable s)(i := f (ptable s i))\<rparr>)"

definition cas_state :: "nat \<Rightarrow> procstate \<Rightarrow> procstate \<Rightarrow> bool K" where
  "cas_state i = cas (\<lambda>s. p_state (ptable s i))
     (\<lambda>v s. s\<lparr>ptable := (ptable s)(i := (ptable s i)\<lparr>p_state := v\<rparr>)\<rparr>)"

text \<open>A fault on a null process pointer: no process runs, so the kernel page table is in use
  and has no page there.\<close>

definition the_proc :: "nat option \<Rightarrow> nat K" where
  "the_proc pp = (case pp of Some p \<Rightarrow> kret p | None \<Rightarrow> kpanic ''trap'')"

definition myproc :: "nat option K" where
  "myproc =
     kseq pushcli
     (kbind mycpu (\<lambda>c.
      kbind (kget (\<lambda>s. c_proc (cpus s c))) (\<lambda>p.
      kseq popcli (kret p))))"

definition curproc :: "nat K" where
  "curproc = kbind myproc the_proc"

text \<open>\<open>myproc()->killed\<close> as it is tested in wait loops.\<close>

definition cur_killed :: "kernel \<Rightarrow> bool" where
  "cur_killed s = (case cpu_index s of
     Some c \<Rightarrow> (case c_proc (cpus s c) of Some p \<Rightarrow> p_killed (ptable s p) | None \<Rightarrow> False)
   | None \<Rightarrow> False)"

definition pinit :: "unit K" where
  "pinit = initlock L_ptable ''ptable''"

section \<open>Process ids\<close>

text \<open>The retry loop of \<open>allocpid\<close>: a failed swap means that another CPU moved.\<close>

primrec allocpid_loop :: "nat \<Rightarrow> u32 K" where
  "allocpid_loop 0 = (\<lambda>s w. Stuck s)"
| "allocpid_loop (Suc n) =
     kbind (kget nextpid) (\<lambda>pid.
     kbind (cas nextpid (\<lambda>v s. s\<lparr>nextpid := v\<rparr>) pid (pid + 1)) (\<lambda>ok.
     if ok then kret pid else kseq kworld (allocpid_loop n)))"

definition allocpid :: "u32 K" where
  "allocpid =
     kseq pushcli
     (kbind (\<lambda>s w. allocpid_loop (Suc (length w)) s w) (\<lambda>pid.
      kseq popcli (kret (pid + 1))))"

section \<open>Giving up the CPU\<close>

definition swtch_out :: "nat \<Rightarrow> unit K" where
  "swtch_out p = kseq (upd_proc p (\<lambda>q. q\<lparr>p_context := At_sched\<rparr>)) kworld"

definition sched :: "unit K" where
  "sched =
     kbind myproc (\<lambda>pp.
     kbind mycpu (\<lambda>c.
     kif (\<lambda>s. c_ncli (cpus s c) \<noteq> 1) (kpanic ''sched locks'')
     (kbind (the_proc pp) (\<lambda>p.
      kif (\<lambda>s. p_state (ptable s p) = RUNNING) (kpanic ''sched running'')
      (kif eflags_if (kpanic ''sched interruptible'')
      (kbind (kget (\<lambda>s. c_intena (cpus s c))) (\<lambda>intena.
       kseq (swtch_out p)
       (kbind mycpu (\<lambda>c'. upd_cpu c' (\<lambda>q. q\<lparr>c_intena := intena\<rparr>)))))))))) "

definition yield :: "unit K" where
  "yield =
     kseq pushcli
     (kbind curproc (\<lambda>p.
      kbind (cas_state p RUNNING M_RUNNABLE) (\<lambda>ok.
      if \<not> ok then kpanic ''yeild cas''
      else kseq sched popcli)))"

definition sleep :: "chan \<Rightarrow> lockid option \<Rightarrow> unit K" where
  "sleep ch lk =
     kbind myproc (\<lambda>pp. case pp of
       None \<Rightarrow> kpanic ''sleep''
     | Some p \<Rightarrow> (case lk of
         None \<Rightarrow> kpanic ''sleep without lk''
       | Some L \<Rightarrow>
           kbind (cas_state p RUNNING M_SLEEPING) (\<lambda>ok.
           if \<not> ok then kpanic ''sleep cas''
           else kseq (if L \<noteq> L_ptable then kseq pushcli (release L) else kret ())
             (kseq (upd_proc p (\<lambda>q. q\<lparr>p_chan := Some ch\<rparr>))
             (kseq sched
             (kseq (upd_proc p (\<lambda>q. q\<lparr>p_chan := None\<rparr>))
              (if L \<noteq> L_ptable then kseq popcli (acquire L) else kret ())))))))"

definition wakeup1_proc :: "chan option \<Rightarrow> nat \<Rightarrow> unit K" where
  "wakeup1_proc ch i =
     kif (\<lambda>s. p_chan (ptable s i) = ch \<and>
            (p_state (ptable s i) = SLEEPING \<or> p_state (ptable s i) = M_SLEEPING))
       (kseq (kwhile (\<lambda>s. p_state (ptable s i) = M_SLEEPING) kworld)
       (kbind (cas_state i SLEEPING M_RUNNABLE) (\<lambda>ok.
        if ok then
          kseq (upd_proc i (\<lambda>q. q\<lparr>p_chan := None\<rparr>))
          (kbind (cas_state i M_RUNNABLE RUNNABLE) (\<lambda>ok2.
           if \<not> ok2 then kpanic ''wakeup cas'' else kret ()))
        else kret ())))
       (kret ())"

definition wakeup1 :: "chan option \<Rightarrow> unit K" where
  "wakeup1 ch = kfor NPROC 0 (wakeup1_proc ch)"

definition wakeup :: "chan \<Rightarrow> unit K" where
  "wakeup ch = kseq pushcli (kseq (wakeup1 (Some ch)) popcli)"

section \<open>Signals between processes\<close>

definition sigbit :: "nat \<Rightarrow> u32" where
  "sigbit i = push_bit i 1"

text \<open>\<open>kill(pid, signum)\<close>: one round of its loop over the table, returning the result of
  the function when it leaves the loop.\<close>

definition kill_proc :: "u32 \<Rightarrow> nat \<Rightarrow> nat \<Rightarrow> u32 option K" where
  "kill_proc pid sn i =
     kif (\<lambda>s. p_pid (ptable s i) = pid \<and> p_state (ptable s i) \<noteq> UNUSED)
       (kif (\<lambda>s. p_signalHandler (ptable s i) sn = SIG_IGN) (kseq popcli (kret (Some 0)))
         (kseq (upd_proc i (\<lambda>q. q\<lparr>p_pendingSignals := p_pendingSignals q OR sigbit sn\<rparr>))
         (kseq (kif (\<lambda>s. p_state (ptable s i) = SLEEPING \<or> p_state (ptable s i) = M_SLEEPING)
              (kif (\<lambda>s. sn = SIGKILL \<or>
                     (p_signalMask (ptable s i) AND sigbit sn = 0 \<and>
                      (p_signalHandler (ptable s i) sn = of_nat SIGKILL \<or>
                       p_signalHandler (ptable s i) sn = SIG_DFL)))
                (kseq (kwhile (\<lambda>s. p_state (ptable s i) = M_SLEEPING) kworld)
                 (kbind (cas_state i SLEEPING RUNNABLE) (\<lambda>_. kret ())))
                (kret ()))
              (kret ()))
          (kseq popcli (kret (Some 0))))))
       (kret None)"

definition kill :: "u32 \<Rightarrow> u32 \<Rightarrow> u32 K" where
  "kill pid signum =
     (if sint signum < 0 \<or> sint signum \<ge> 32 then kret minus1
      else kseq pushcli
        (kbind (kfind NPROC 0 (kill_proc pid (unat signum))) (\<lambda>r. case r of
           Some v \<Rightarrow> kret v
         | None \<Rightarrow> kseq popcli (kret minus1))))"

definition is_it_sigkill :: "nat \<Rightarrow> nat \<Rightarrow> bool K" where
  "is_it_sigkill p sn =
     (if sn = SIGKILL then kret True
      else kif (\<lambda>s. p_signalMask (ptable s p) AND sigbit sn = 0 \<and>
              (p_signalHandler (ptable s p) sn = of_nat SIGKILL \<or>
               p_signalHandler (ptable s p) sn = SIG_DFL))
        (kret True)
        (kseq (cprintf ''no'' []) (kret False)))"

definition check_cont_sig :: "nat \<Rightarrow> bool K" where
  "check_cont_sig p =
     kbind (kfind 32 0 (\<lambda>i.
       kif (\<lambda>s. let q = ptable s p;
                    def = (i = SIGCONT \<and> p_signalHandler q i = SIG_DFL)
                in p_pendingSignals q AND sigbit i \<noteq> 0 \<and> p_signalMask q AND sigbit i = 0 \<and>
                   (p_signalHandler q i = of_nat SIGCONT \<or> def))
         (kseq (upd_proc p (\<lambda>q. q\<lparr>p_pendingSignals := p_pendingSignals q XOR sigbit i\<rparr>))
           (kret (Some ())))
         (kret None)))
     (\<lambda>r. kret (r \<noteq> None))"

definition sh_sigkill :: "unit K" where
  "sh_sigkill = kbind curproc (\<lambda>p. upd_proc p (\<lambda>q. q\<lparr>p_killed := True\<rparr>))"

definition sh_sigstop :: "unit K" where
  "sh_sigstop =
     kseq (kbind curproc (\<lambda>p. upd_proc p (\<lambda>q. q\<lparr>p_frozen := True\<rparr>))) yield"

definition sh_sigcont :: "unit K" where
  "sh_sigcont = kbind curproc (\<lambda>p. upd_proc p (\<lambda>q. q\<lparr>p_frozen := False\<rparr>))"

section \<open>The scheduler\<close>

text \<open>The parts of the body of the scheduler's loop: the test for a stopped process, the
  switch to the chosen process and what follows its return. \<open>swtch\<close> to the process is one
  move of the world: the process runs until it switches back.\<close>

definition sched_frozen :: "nat \<Rightarrow> bool K" where
  "sched_frozen p =
     kif (\<lambda>s. p_frozen (ptable s p))
       (kbind (check_cont_sig p) (\<lambda>cont.
        if cont then kseq (upd_proc p (\<lambda>q. q\<lparr>p_frozen := False\<rparr>)) (kret False)
        else kret True))
       (kret False)"

definition sched_enter :: "nat \<Rightarrow> nat \<Rightarrow> unit K" where
  "sched_enter c p =
     kseq (upd_cpu c (\<lambda>q. q\<lparr>c_proc := Some p\<rparr>))
     (kseq (switchuvm (Some p))
     (kseq (cas_state p M_RUNNING RUNNING) (kret ())))"

definition sched_leave :: "nat \<Rightarrow> nat \<Rightarrow> unit K" where
  "sched_leave c p =
     kseq switchkvm
     (kseq (upd_cpu c (\<lambda>q. q\<lparr>c_proc := None\<rparr>))
     (kseq (cas_state p M_RUNNABLE RUNNABLE)
     (kseq (cas_state p M_SLEEPING SLEEPING)
     (kseq (cas_state p M_ZOMBIE ZOMBIE) (kret ())))))"

definition sched_proc :: "nat \<Rightarrow> nat \<Rightarrow> unit K" where
  "sched_proc c p =
     kbind (sched_frozen p) (\<lambda>skip.
     if skip then kret ()
     else kbind (cas_state p RUNNABLE M_RUNNING) (\<lambda>ok.
       if \<not> ok then kret ()
       else kseq (sched_enter c p) (kseq kworld (sched_leave c p))))"

text \<open>One round of the endless loop. Between \<open>sti\<close> and \<open>pushcli\<close> the CPU takes pending
  interrupts: a move of the world.\<close>

definition scheduler_round :: "nat \<Rightarrow> unit K" where
  "scheduler_round c =
     kseq sti
     (kseq kworld
     (kseq pushcli
     (kseq (kfor NPROC 0 (sched_proc c))
      popcli)))"

definition scheduler :: "unit K" where
  "scheduler =
     kbind mycpu (\<lambda>c.
     kseq (upd_cpu c (\<lambda>q. q\<lparr>c_proc := None\<rparr>))
      (kwhile (\<lambda>s. True) (scheduler_round c)))"

section \<open>The process listing\<close>

definition state_name :: "procstate \<Rightarrow> string" where
  "state_name st = (case st of
     UNUSED \<Rightarrow> ''unused'' | EMBRYO \<Rightarrow> ''embryo'' | SLEEPING \<Rightarrow> ''sleep ''
   | RUNNABLE \<Rightarrow> ''runble'' | RUNNING \<Rightarrow> ''run   '' | ZOMBIE \<Rightarrow> ''zombie''
   | _ \<Rightarrow> ''???'')"

definition cstring :: "u8 list \<Rightarrow> u32 list" where
  "cstring bs = map ucast (takeWhile (\<lambda>b. b \<noteq> 0) bs)"

text \<open>\<open>pcs\<close> stands for what \<open>getcallerpcs\<close> reads off the kernel stack of a sleeping process.\<close>

definition procdump :: "(kernel \<Rightarrow> nat \<Rightarrow> u32 list) \<Rightarrow> unit K" where
  "procdump pcs =
     kfor NPROC 0 (\<lambda>i.
     kbind (kget (\<lambda>s. ptable s i)) (\<lambda>p.
     if p_state p = UNUSED then kret ()
     else kseq (cprintf ''%d %s %s''
            [A_int (p_pid p), A_str (bytes_of (state_name (p_state p))), A_str (cstring (p_name p))])
       (kseq (if p_state p = SLEEPING then
                kbind (kget (\<lambda>s. takeWhile (\<lambda>a. a \<noteq> 0) (take 10 (pcs s i)))) (\<lambda>as.
                kfor (length as) 0 (\<lambda>j. cprintf '' %p'' [A_int (as ! j)]))
              else kret ())
        (cprintf ''\<newline>'' []))))"

section \<open>Execution of the basic operations\<close>

text \<open>Process \<open>p\<close> executes on CPU \<open>c\<close>.\<close>

definition running :: "nat \<Rightarrow> nat \<Rightarrow> kernel \<Rightarrow> bool" where
  "running c p s \<longleftrightarrow> cli_ok c s \<and> c_proc (cpus s c) = Some p"

lemma myproc_exec [exec_simps]:
  assumes "cli_ok c s"
  shows "myproc s w = Done (c_proc (cpus s c)) s w"
proof -
  have "pushcli s w = Done () (nested c 1 s) w"
    using pushcli_nested [OF assms, of 0] by simp
  moreover have "popcli (nested c 1 s) w = Done () s w"
    using popcli_nested [OF assms, of 0] by simp
  moreover have "mycpu (nested c 1 s) w = Done c (nested c 1 s) w"
    using assms by (intro mycpu_exec) (auto simp: cli_ok_def nested_def)
  moreover have "c_proc (cpus (nested c 1 s) c) = c_proc (cpus s c)"
    by (simp add: nested_def)
  ultimately show ?thesis by (simp add: myproc_def)
qed

lemma myproc_running [exec_simps]: "running c p s \<Longrightarrow> myproc s w = Done (Some p) s w"
  unfolding running_def using myproc_exec [of c s w] by simp

lemma curproc_running [exec_simps]: "running c p s \<Longrightarrow> curproc s w = Done p s w"
  by (simp add: curproc_def the_proc_def myproc_running)

lemma running_frame [simp]:
  "running c p (s\<lparr>ptable := pt\<rparr>) = running c p s"
  "running c p (s\<lparr>mem := m\<rparr>) = running c p s"
  "running c p (s\<lparr>slocks := sl\<rparr>) = running c p s"
  "running c p (s\<lparr>bufs := bs\<rparr>) = running c p s"
  "running c p (s\<lparr>disk := d\<rparr>) = running c p s"
  "running c p (s\<lparr>icache := ic\<rparr>) = running c p s"
  "running c p (s\<lparr>ftable := ft\<rparr>) = running c p s"
  "running c p (s\<lparr>pipes := ps\<rparr>) = running c p s"
  "running c p (s\<lparr>log := lg\<rparr>) = running c p s"
  by (simp_all add: running_def)

lemma cli_ok_running: "running c p s \<Longrightarrow> cli_ok c s"
  by (simp add: running_def)

lemma upd_proc_app [simp]:
  "upd_proc i f s w = Done () (s\<lparr>ptable := (ptable s)(i := f (ptable s i))\<rparr>) w"
  by (simp add: upd_proc_def)

lemma cas_state_app [simp]:
  "cas_state i a b s w = (if p_state (ptable s i) = a
     then Done True (s\<lparr>ptable := (ptable s)(i := (ptable s i)\<lparr>p_state := b\<rparr>)\<rparr>) w
     else Done False s w)"
  by (simp add: cas_state_def cas_def)

lemma cur_pgdir_frame [simp]:
  "cur_pgdir (s\<lparr>ptable := pt\<rparr>) = cur_pgdir s"
  "cur_pgdir (s\<lparr>mem := m\<rparr>) = cur_pgdir s"
  "cur_pgdir (s\<lparr>pipes := ps\<rparr>) = cur_pgdir s"
  by (simp_all add: cur_pgdir_def cong: option.case_cong)

lemma running_ukernel [simp]: "running 0 0 ukernel"
  by (simp add: running_def cpu0_def)

end
