(* ===== verification/Sleeplock.thy ===== *)
theory Sleeplock
  imports Proc_Sched
begin

text \<open>
  \<^verbatim>\<open>sleeplock.c\<close>: locks held across context switches. The lock word and the owner's pid are
  an entry of \<open>slocks\<close>; the spin lock \<open>lk\<close> inside is \<open>L_sleep\<close> of the same name.
\<close>

definition upd_slock :: "slockid \<Rightarrow> (sleeplock \<Rightarrow> sleeplock) \<Rightarrow> unit K" where
  "upd_slock L f = kmod (\<lambda>s. s\<lparr>slocks := (slocks s)(L := f (slocks s L))\<rparr>)"

definition initsleeplock :: "slockid \<Rightarrow> string \<Rightarrow> unit K" where
  "initsleeplock L name =
     kseq (initlock (L_sleep L) ''sleep lock'')
      (upd_slock L (\<lambda>l. l\<lparr>sl_name := name, sl_locked := 0, sl_pid := 0\<rparr>))"

definition acquiresleep :: "slockid \<Rightarrow> unit K" where
  "acquiresleep L =
     kseq (acquire (L_sleep L))
     (kseq (kwhile (\<lambda>s. sl_locked (slocks s L) \<noteq> 0) (sleep (Ch_sleeplock L) (Some (L_sleep L))))
     (kseq (upd_slock L (\<lambda>l. l\<lparr>sl_locked := 1\<rparr>))
     (kseq (kbind curproc (\<lambda>p. kbind (kget (\<lambda>s. p_pid (ptable s p))) (\<lambda>pid.
              upd_slock L (\<lambda>l. l\<lparr>sl_pid := pid\<rparr>))))
      (release (L_sleep L)))))"

definition releasesleep :: "slockid \<Rightarrow> unit K" where
  "releasesleep L =
     kseq (acquire (L_sleep L))
     (kseq (upd_slock L (\<lambda>l. l\<lparr>sl_locked := 0\<rparr>))
     (kseq (upd_slock L (\<lambda>l. l\<lparr>sl_pid := 0\<rparr>))
     (kseq (wakeup (Ch_sleeplock L))
      (release (L_sleep L)))))"

definition holdingsleep :: "slockid \<Rightarrow> bool K" where
  "holdingsleep L =
     kseq (acquire (L_sleep L))
     (kbind (kif (\<lambda>s. sl_locked (slocks s L) \<noteq> 0)
              (kbind curproc (\<lambda>p. kget (\<lambda>s. sl_pid (slocks s L) = p_pid (ptable s p))))
              (kret False)) (\<lambda>r.
      kseq (release (L_sleep L)) (kret r)))"

end
