(* ===== verification/Ide.thy ===== *)
theory Ide
  imports Sleeplock Bytes
begin

text \<open>
  \<^verbatim>\<open>ide.c\<close>: the disk driver. The buffers waiting for the disk form a queue linked by
  \<open>b_qnext\<close>; the first is the request the drive is working on.

  The drive is the field \<open>disk\<close>: a write command takes the block when \<open>idestart\<close> sends the
  data, a read command delivers it when the interrupt handler takes the data. The busy loop of
  \<open>idewait\<close> ends when the drive is ready; only the error bit it then reports matters.
\<close>

definition upd_buf :: "nat \<Rightarrow> (buf \<Rightarrow> buf) \<Rightarrow> unit K" where
  "upd_buf b f = kmod (\<lambda>s. s\<lparr>bufs := (bufs s)(b := f (bufs s b))\<rparr>)"

definition idewait :: "bool \<Rightarrow> bool K" where
  "idewait checkerr = kget (\<lambda>s. \<not> (checkerr \<and> ide_err s))"

text \<open>\<open>disk1\<close> says whether the probe of \<open>ideinit\<close> found the second drive.\<close>

definition ideinit :: "bool \<Rightarrow> unit K" where
  "ideinit disk1 =
     kseq (initlock L_ide ''ide'')
     (kseq (idewait False)
      (if disk1 then kmod (\<lambda>s. s\<lparr>havedisk1 := True\<rparr>) else kret ()))"

definition idestart :: "nat option \<Rightarrow> unit K" where
  "idestart bp = (case bp of
     None \<Rightarrow> kpanic ''idestart''
   | Some b \<Rightarrow>
       kif (\<lambda>s. b_blockno (bufs s b) \<ge> of_nat FSSIZE) (kpanic ''incorrect blockno'')
       (kseq (idewait False)
       (kif (\<lambda>s. b_flags (bufs s b) AND B_DIRTY \<noteq> 0)
          (kmod (\<lambda>s. let q = bufs s b; d = b_dev q AND 1 in
             s\<lparr>disk := (disk s)(d := (disk s d)(b_blockno q := b_data q))\<rparr>))
          (kret ()))))"

definition ideintr :: "unit K" where
  "ideintr =
     kseq (acquire L_ide)
     (kbind (kget idequeue) (\<lambda>bp. case bp of
       None \<Rightarrow> release L_ide
     | Some b \<Rightarrow>
         kseq (kmod (\<lambda>s. s\<lparr>idequeue := b_qnext (bufs s b)\<rparr>))
         (kseq (kif (\<lambda>s. b_flags (bufs s b) AND B_DIRTY = 0)
                 (kbind (idewait True) (\<lambda>ok.
                  if ok then kmod (\<lambda>s. let q = bufs s b in
                    s\<lparr>bufs := (bufs s)(b := q\<lparr>b_data := disk s (b_dev q AND 1) (b_blockno q)\<rparr>)\<rparr>)
                  else kret ()))
                 (kret ()))
         (kseq (upd_buf b (\<lambda>q. q\<lparr>b_flags := b_flags q OR B_VALID\<rparr>))
         (kseq (upd_buf b (\<lambda>q. q\<lparr>b_flags := b_flags q AND NOT B_DIRTY\<rparr>))
         (kseq (wakeup (Ch_buf b))
         (kseq (kif (\<lambda>s. idequeue s \<noteq> None) (kbind (kget idequeue) idestart) (kret ()))
          (release L_ide))))))))"

text \<open>The walk to the end of the queue; a queue has at most \<open>NBUF\<close> buffers.\<close>

primrec ide_walk :: "nat \<Rightarrow> nat \<Rightarrow> nat \<Rightarrow> unit K" where
  "ide_walk 0 b cur = (\<lambda>s w. Stuck s)"
| "ide_walk (Suc n) b cur =
     kbind (kget (\<lambda>s. b_qnext (bufs s cur))) (\<lambda>nxt. case nxt of
       None \<Rightarrow> upd_buf cur (\<lambda>q. q\<lparr>b_qnext := Some b\<rparr>)
     | Some c \<Rightarrow> ide_walk n b c)"

definition ide_append :: "nat \<Rightarrow> unit K" where
  "ide_append b =
     kseq (upd_buf b (\<lambda>q. q\<lparr>b_qnext := None\<rparr>))
     (kbind (kget idequeue) (\<lambda>h. case h of
       None \<Rightarrow> kmod (\<lambda>s. s\<lparr>idequeue := Some b\<rparr>)
     | Some c \<Rightarrow> ide_walk NBUF b c))"

definition iderw :: "nat \<Rightarrow> unit K" where
  "iderw b =
     kbind (holdingsleep (SL_buf b)) (\<lambda>h.
     if \<not> h then kpanic ''iderw: buf not locked''
     else kif (\<lambda>s. b_flags (bufs s b) AND (B_VALID OR B_DIRTY) = B_VALID)
         (kpanic ''iderw: nothing to do'')
       (kif (\<lambda>s. b_dev (bufs s b) \<noteq> 0 \<and> \<not> havedisk1 s)
         (kpanic ''iderw: ide disk 1 not present'')
       (kseq (acquire L_ide)
       (kseq (ide_append b)
       (kseq (kif (\<lambda>s. idequeue s = Some b) (idestart (Some b)) (kret ()))
       (kseq (kwhile (\<lambda>s. b_flags (bufs s b) AND (B_VALID OR B_DIRTY) \<noteq> B_VALID)
               (sleep (Ch_buf b) (Some L_ide)))
        (release L_ide)))))))"

end
