(* ===== verification/Bio.thy ===== *)
theory Bio
  imports Ide
begin

text \<open>
  \<^verbatim>\<open>bio.c\<close>: the buffer cache. All buffers are in a doubly linked ring through the list head
  \<open>bcache.head\<close>, most recently used first.
\<close>

section \<open>The code\<close>

text \<open>The index of \<open>bcache.head\<close> in \<open>bufs\<close>.\<close>

abbreviation (input) BHEAD :: nat where "BHEAD \<equiv> 30"

definition set_next :: "nat \<Rightarrow> nat \<Rightarrow> unit K" where
  "set_next b x = upd_buf b (\<lambda>q. q\<lparr>b_next := x\<rparr>)"

definition set_prev :: "nat \<Rightarrow> nat \<Rightarrow> unit K" where
  "set_prev b x = upd_buf b (\<lambda>q. q\<lparr>b_prev := x\<rparr>)"

definition binit :: "unit K" where
  "binit =
     kseq (initlock L_bcache ''bcache'')
     (kseq (set_prev BHEAD BHEAD)
     (kseq (set_next BHEAD BHEAD)
      (kfor NBUF 0 (\<lambda>b.
        kseq (kbind (kget (\<lambda>s. b_next (bufs s BHEAD))) (set_next b))
        (kseq (set_prev b BHEAD)
        (kseq (initsleeplock (SL_buf b) ''buffer'')
        (kseq (kbind (kget (\<lambda>s. b_next (bufs s BHEAD))) (\<lambda>n. set_prev n b))
         (set_next BHEAD b))))))))"

text \<open>The two scans of \<open>bget\<close>; the ring has \<open>NBUF\<close> buffers.\<close>

primrec bget_cached :: "nat \<Rightarrow> u32 \<Rightarrow> u32 \<Rightarrow> nat \<Rightarrow> nat option K" where
  "bget_cached 0 dev blockno b = (\<lambda>s w. Stuck s)"
| "bget_cached (Suc n) dev blockno b =
     (if b = BHEAD then kret None
      else kif (\<lambda>s. b_dev (bufs s b) = dev \<and> b_blockno (bufs s b) = blockno)
        (kret (Some b))
        (kbind (kget (\<lambda>s. b_next (bufs s b))) (bget_cached n dev blockno)))"

primrec bget_unused :: "nat \<Rightarrow> nat \<Rightarrow> nat option K" where
  "bget_unused 0 b = (\<lambda>s w. Stuck s)"
| "bget_unused (Suc n) b =
     (if b = BHEAD then kret None
      else kif (\<lambda>s. b_refcnt (bufs s b) = 0 \<and> b_flags (bufs s b) AND B_DIRTY = 0)
        (kret (Some b))
        (kbind (kget (\<lambda>s. b_prev (bufs s b))) (bget_unused n)))"

definition bget :: "u32 \<Rightarrow> u32 \<Rightarrow> nat K" where
  "bget dev blockno =
     kseq (acquire L_bcache)
     (kbind (kbind (kget (\<lambda>s. b_next (bufs s BHEAD))) (bget_cached (Suc NBUF) dev blockno)) (\<lambda>r.
      case r of
        Some b \<Rightarrow>
          kseq (upd_buf b (\<lambda>q. q\<lparr>b_refcnt := b_refcnt q + 1\<rparr>))
          (kseq (release L_bcache)
          (kseq (acquiresleep (SL_buf b)) (kret b)))
      | None \<Rightarrow>
          kbind (kbind (kget (\<lambda>s. b_prev (bufs s BHEAD))) (bget_unused (Suc NBUF))) (\<lambda>r2.
          case r2 of
            Some b \<Rightarrow>
              kseq (upd_buf b (\<lambda>q. q\<lparr>b_dev := dev, b_blockno := blockno, b_flags := 0, b_refcnt := 1\<rparr>))
              (kseq (release L_bcache)
              (kseq (acquiresleep (SL_buf b)) (kret b)))
          | None \<Rightarrow> kpanic ''bget: no buffers'')))"

definition bread :: "u32 \<Rightarrow> u32 \<Rightarrow> nat K" where
  "bread dev blockno =
     kbind (bget dev blockno) (\<lambda>b.
     kseq (kif (\<lambda>s. b_flags (bufs s b) AND B_VALID = 0) (iderw b) (kret ()))
      (kret b))"

definition bwrite :: "nat \<Rightarrow> unit K" where
  "bwrite b =
     kbind (holdingsleep (SL_buf b)) (\<lambda>h.
     if \<not> h then kpanic ''bwrite''
     else kseq (upd_buf b (\<lambda>q. q\<lparr>b_flags := b_flags q OR B_DIRTY\<rparr>)) (iderw b))"

definition brelse_unlink :: "nat \<Rightarrow> unit K" where
  "brelse_unlink b =
     kseq (kbind (kget (\<lambda>s. bufs s b)) (\<lambda>q. set_prev (b_next q) (b_prev q)))
     (kseq (kbind (kget (\<lambda>s. bufs s b)) (\<lambda>q. set_next (b_prev q) (b_next q)))
     (kseq (kbind (kget (\<lambda>s. b_next (bufs s BHEAD))) (set_next b))
     (kseq (set_prev b BHEAD)
     (kseq (kbind (kget (\<lambda>s. b_next (bufs s BHEAD))) (\<lambda>n. set_prev n b))
      (set_next BHEAD b)))))"

definition brelse :: "nat \<Rightarrow> unit K" where
  "brelse b =
     kbind (holdingsleep (SL_buf b)) (\<lambda>h.
     if \<not> h then kpanic ''brelse''
     else kseq (releasesleep (SL_buf b))
       (kseq (acquire L_bcache)
       (kseq (upd_buf b (\<lambda>q. q\<lparr>b_refcnt := b_refcnt q - 1\<rparr>))
       (kseq (kif (\<lambda>s. b_refcnt (bufs s b) = 0) (brelse_unlink b) (kret ()))
        (release L_bcache)))))"

text \<open>Reading and changing the data of a buffer.\<close>

definition bdata :: "nat \<Rightarrow> u8 list K" where
  "bdata b = kget (\<lambda>s. b_data (bufs s b))"

definition set_bdata :: "nat \<Rightarrow> (u8 list \<Rightarrow> u8 list) \<Rightarrow> unit K" where
  "set_bdata b f = upd_buf b (\<lambda>q. q\<lparr>b_data := f (b_data q)\<rparr>)"

end
