(* ===== verification/Log.thy ===== *)
theory Log
  imports Bio
begin

text \<open>
  \<^verbatim>\<open>log.c\<close>: the redo log of the file system, with \<open>readsb\<close> of \<^verbatim>\<open>fs.c\<close>, which \<open>initlog\<close> calls.
  The header block holds the count and then the block numbers, four bytes each.
\<close>

section \<open>The super block (fs.c)\<close>

definition sb_of :: "u8 list \<Rightarrow> superblock" where
  "sb_of d = \<lparr>sb_size = get32 d 0, sb_nblocks = get32 d 4, sb_ninodes = get32 d 8,
     sb_nlog = get32 d 12, sb_logstart = get32 d 16, sb_inodestart = get32 d 20,
     sb_bmapstart = get32 d 24\<rparr>"

definition readsb :: "u32 \<Rightarrow> superblock K" where
  "readsb dev =
     kbind (bread dev 1) (\<lambda>bp.
     kbind (bdata bp) (\<lambda>d.
     kseq (brelse bp) (kret (sb_of d))))"

section \<open>The log\<close>

definition upd_log :: "(log_state \<Rightarrow> log_state) \<Rightarrow> unit K" where
  "upd_log f = kmod (\<lambda>s. s\<lparr>log := f (log s)\<rparr>)"

definition install_trans :: "unit K" where
  "install_trans =
     kbind (kget log) (\<lambda>lg.
     kfor (nat (lg_n lg)) 0 (\<lambda>tail.
       kbind (bread (lg_dev lg) (lg_start lg + of_nat tail + 1)) (\<lambda>lbuf.
       kbind (bread (lg_dev lg) (lg_block lg tail)) (\<lambda>dbuf.
       kseq (kbind (bdata lbuf) (\<lambda>d. set_bdata dbuf (\<lambda>_. d)))
       (kseq (bwrite dbuf)
       (kseq (brelse lbuf)
        (brelse dbuf)))))))"

definition read_head :: "unit K" where
  "read_head =
     kbind (kget log) (\<lambda>lg.
     kbind (bread (lg_dev lg) (lg_start lg)) (\<lambda>b.
     kbind (bdata b) (\<lambda>lh.
     kseq (upd_log (\<lambda>l. l\<lparr>lg_n := sint (get32 lh 0)\<rparr>))
     (kseq (kfor (nat (sint (get32 lh 0))) 0 (\<lambda>i.
             upd_log (\<lambda>l. l\<lparr>lg_block := (lg_block l)(i := get32 lh (4 + 4 * i))\<rparr>)))
      (brelse b)))))"

definition write_head :: "unit K" where
  "write_head =
     kbind (kget log) (\<lambda>lg.
     kbind (bread (lg_dev lg) (lg_start lg)) (\<lambda>b.
     kseq (set_bdata b (put32 0 (of_int (lg_n lg))))
     (kseq (kfor (nat (lg_n lg)) 0 (\<lambda>i. set_bdata b (put32 (4 + 4 * i) (lg_block lg i))))
     (kseq (bwrite b)
      (brelse b)))))"

definition recover_from_log :: "unit K" where
  "recover_from_log =
     kseq read_head
     (kseq install_trans
     (kseq (upd_log (\<lambda>l. l\<lparr>lg_n := 0\<rparr>))
      write_head))"

text \<open>\<open>sizeof(struct logheader)\<close> is 4 * (LOGSIZE + 1).\<close>

definition initlog :: "u32 \<Rightarrow> unit K" where
  "initlog dev =
     (if 4 * (LOGSIZE + 1) \<ge> BSIZE then kpanic ''initlog: too big logheader''
      else kseq (initlock L_log ''log'')
        (kbind (readsb dev) (\<lambda>sb.
         kseq (upd_log (\<lambda>l. l\<lparr>lg_start := sb_logstart sb, lg_size := sint (sb_nlog sb), lg_dev := dev\<rparr>))
          recover_from_log)))"

definition begin_op :: "unit K" where
  "begin_op =
     kseq (acquire L_log)
     (kseq (kwhile (\<lambda>s. lg_committing (log s) \<or>
              lg_n (log s) + (lg_outstanding (log s) + 1) * int MAXOPBLOCKS > int LOGSIZE)
             (sleep Ch_log (Some L_log)))
     (kseq (upd_log (\<lambda>l. l\<lparr>lg_outstanding := lg_outstanding l + 1\<rparr>))
      (release L_log)))"

definition write_log :: "unit K" where
  "write_log =
     kbind (kget log) (\<lambda>lg.
     kfor (nat (lg_n lg)) 0 (\<lambda>tail.
       kbind (bread (lg_dev lg) (lg_start lg + of_nat tail + 1)) (\<lambda>to.
       kbind (bread (lg_dev lg) (lg_block lg tail)) (\<lambda>from.
       kseq (kbind (bdata from) (\<lambda>d. set_bdata to (\<lambda>_. d)))
       (kseq (bwrite to)
       (kseq (brelse from)
        (brelse to)))))))"

definition commit :: "unit K" where
  "commit =
     kif (\<lambda>s. lg_n (log s) > 0)
       (kseq write_log
       (kseq write_head
       (kseq install_trans
       (kseq (upd_log (\<lambda>l. l\<lparr>lg_n := 0\<rparr>))
        write_head))))
       (kret ())"

definition end_op :: "unit K" where
  "end_op =
     kseq (acquire L_log)
     (kseq (upd_log (\<lambda>l. l\<lparr>lg_outstanding := lg_outstanding l - 1\<rparr>))
     (kif (\<lambda>s. lg_committing (log s)) (kpanic ''log.committing'')
     (kbind (kget (\<lambda>s. lg_outstanding (log s) = 0)) (\<lambda>do_commit.
      kseq (if do_commit then upd_log (\<lambda>l. l\<lparr>lg_committing := True\<rparr>) else wakeup Ch_log)
      (kseq (release L_log)
       (if do_commit then
          kseq commit
          (kseq (acquire L_log)
          (kseq (upd_log (\<lambda>l. l\<lparr>lg_committing := False\<rparr>))
          (kseq (wakeup Ch_log)
           (release L_log))))
        else kret ()))))))"

text \<open>The index \<open>log_write\<close> uses: the first entry for the block, or the end.\<close>

definition log_slot :: "log_state \<Rightarrow> u32 \<Rightarrow> nat" where
  "log_slot l blockno = (case find (\<lambda>i. lg_block l i = blockno) [0..<nat (lg_n l)] of
     Some i \<Rightarrow> i | None \<Rightarrow> nat (lg_n l))"

definition log_write :: "nat \<Rightarrow> unit K" where
  "log_write b =
     kif (\<lambda>s. lg_n (log s) \<ge> int LOGSIZE \<or> lg_n (log s) \<ge> lg_size (log s) - 1)
       (kpanic ''too big a transaction'')
     (kif (\<lambda>s. lg_outstanding (log s) < 1) (kpanic ''log_write outside of trans'')
     (kseq (acquire L_log)
     (kbind (kget (\<lambda>s. b_blockno (bufs s b))) (\<lambda>bn.
      kbind (kget (\<lambda>s. log_slot (log s) bn)) (\<lambda>i.
      kseq (upd_log (\<lambda>l. l\<lparr>lg_block := (lg_block l)(i := bn)\<rparr>))
      (kseq (upd_log (\<lambda>l. if int i = lg_n l then l\<lparr>lg_n := lg_n l + 1\<rparr> else l))
      (kseq (upd_buf b (\<lambda>q. q\<lparr>b_flags := b_flags q OR B_DIRTY\<rparr>))
       (release L_log))))))))"

end
