(* ===== verification/Fs.thy ===== *)
theory Fs
  imports Log
begin

text \<open>
  \<^verbatim>\<open>fs.c\<close>, first part: the block allocator, the inode cache and inodes on disk. An inode
  pointer is the index of its entry in \<open>icache\<close>; the null tests of \<open>ilock\<close> and \<open>iunlock\<close>
  have no counterpart. An on-disk inode is 64 bytes: four 16-bit fields, the size and 13
  addresses.
\<close>

section \<open>Blocks\<close>

abbreviation (input) BPB :: nat where "BPB \<equiv> 4096"
abbreviation (input) IPB :: nat where "IPB \<equiv> 8"

definition BBLOCK :: "u32 \<Rightarrow> superblock \<Rightarrow> u32" where
  "BBLOCK b v = b div of_nat BPB + sb_bmapstart v"

definition IBLOCK :: "u32 \<Rightarrow> superblock \<Rightarrow> u32" where
  "IBLOCK i v = i div of_nat IPB + sb_inodestart v"

definition bzero :: "u32 \<Rightarrow> u32 \<Rightarrow> unit K" where
  "bzero dev bno =
     kbind (bread dev bno) (\<lambda>bp.
     kseq (set_bdata bp (\<lambda>_. replicate BSIZE 0))
     (kseq (log_write bp)
      (brelse bp)))"

definition bitmap_bit :: "u8 list \<Rightarrow> nat \<Rightarrow> bool" where
  "bitmap_bit d bi \<longleftrightarrow> d ! (bi div 8) AND push_bit (bi mod 8) 1 \<noteq> 0"

definition bitmap_set :: "nat \<Rightarrow> u8 list \<Rightarrow> u8 list" where
  "bitmap_set bi d = d[bi div 8 := d ! (bi div 8) OR push_bit (bi mod 8) 1]"

definition bitmap_clear :: "nat \<Rightarrow> u8 list \<Rightarrow> u8 list" where
  "bitmap_clear bi d = d[bi div 8 := d ! (bi div 8) AND NOT (push_bit (bi mod 8) 1)]"

text \<open>One bitmap block: the round of the outer loop of \<open>balloc\<close> for \<open>b = k * BPB\<close>.\<close>

definition balloc_block :: "u32 \<Rightarrow> nat \<Rightarrow> u32 option K" where
  "balloc_block dev k =
     kbind (kget sb) (\<lambda>sblk.
     kbind (bread dev (BBLOCK (of_nat (k * BPB)) sblk)) (\<lambda>bp.
     kbind (bdata bp) (\<lambda>d.
     case find (\<lambda>bi. \<not> bitmap_bit d bi) [0..<min BPB (unat (sb_size sblk) - k * BPB)] of
       Some bi \<Rightarrow>
         kseq (set_bdata bp (bitmap_set bi))
         (kseq (log_write bp)
         (kseq (brelse bp)
         (kseq (bzero dev (of_nat (k * BPB + bi)))
          (kret (Some (of_nat (k * BPB + bi)))))))
     | None \<Rightarrow> kseq (brelse bp) (kret None))))"

definition balloc :: "u32 \<Rightarrow> u32 K" where
  "balloc dev =
     kbind (kget (\<lambda>s. (unat (sb_size (sb s)) + (BPB - 1)) div BPB)) (\<lambda>n.
     kbind (kfind n 0 (balloc_block dev)) (\<lambda>r. case r of
       Some b \<Rightarrow> kret b
     | None \<Rightarrow> kpanic ''balloc: out of blocks''))"

definition bfree :: "u32 \<Rightarrow> u32 \<Rightarrow> unit K" where
  "bfree dev b =
     kbind (kget sb) (\<lambda>sblk.
     kbind (bread dev (BBLOCK b sblk)) (\<lambda>bp.
     kbind (bdata bp) (\<lambda>d.
     let bi = unat b mod BPB in
     if \<not> bitmap_bit d bi then kpanic ''freeing free block''
     else kseq (set_bdata bp (bitmap_clear bi))
       (kseq (log_write bp)
        (brelse bp)))))"

section \<open>Inodes\<close>

definition upd_inode :: "nat \<Rightarrow> (inode \<Rightarrow> inode) \<Rightarrow> unit K" where
  "upd_inode ip f = kmod (\<lambda>s. s\<lparr>icache := (icache s)(ip := f (icache s ip))\<rparr>)"

definition iinit :: "u32 \<Rightarrow> unit K" where
  "iinit dev =
     kseq (initlock L_icache ''icache'')
     (kseq (kfor NINODE 0 (\<lambda>i. initsleeplock (SL_inode i) ''inode''))
     (kbind (readsb dev) (\<lambda>v.
      kseq (kmod (\<lambda>s. s\<lparr>sb := v\<rparr>))
       (cprintf ''sb: size %d nblocks %d ninodes %d nlog %d logstart %d inodestart %d bmap start %d\<newline>''
         [A_int (sb_size v), A_int (sb_nblocks v), A_int (sb_ninodes v), A_int (sb_nlog v),
          A_int (sb_logstart v), A_int (sb_inodestart v), A_int (sb_bmapstart v)]))))"

definition iget_find :: "(nat \<Rightarrow> inode) \<Rightarrow> u32 \<Rightarrow> u32 \<Rightarrow> nat option" where
  "iget_find ic dev inum =
     find (\<lambda>i. ip_ref (ic i) > 0 \<and> ip_dev (ic i) = dev \<and> ip_inum (ic i) = inum) [0..<NINODE]"

definition iget_empty :: "(nat \<Rightarrow> inode) \<Rightarrow> nat option" where
  "iget_empty ic = find (\<lambda>i. ip_ref (ic i) = 0) [0..<NINODE]"

definition iget :: "u32 \<Rightarrow> u32 \<Rightarrow> nat K" where
  "iget dev inum =
     kseq (acquire L_icache)
     (kbind (kget icache) (\<lambda>ic.
      case iget_find ic dev inum of
        Some ip \<Rightarrow>
          kseq (upd_inode ip (\<lambda>q. q\<lparr>ip_ref := ip_ref q + 1\<rparr>))
          (kseq (release L_icache) (kret ip))
      | None \<Rightarrow> (case iget_empty ic of
          None \<Rightarrow> kpanic ''iget: no inodes''
        | Some ip \<Rightarrow>
            kseq (upd_inode ip (\<lambda>q. q\<lparr>ip_dev := dev, ip_inum := inum, ip_ref := 1, ip_valid := False\<rparr>))
            (kseq (release L_icache) (kret ip)))))"

text \<open>The on-disk inode at byte offset \<open>off\<close> of its block.\<close>

definition dinode_off :: "u32 \<Rightarrow> nat" where
  "dinode_off inum = 64 * (unat inum mod IPB)"

definition dinode_addrs :: "u8 list \<Rightarrow> nat \<Rightarrow> u32 list" where
  "dinode_addrs d off = map (\<lambda>i. get32 d (off + 12 + 4 * i)) [0..<NDIRECT + 1]"

definition put_addrs :: "nat \<Rightarrow> u32 list \<Rightarrow> u8 list \<Rightarrow> u8 list" where
  "put_addrs off as d = splice (off + 12) (concat (map le32 as)) d"

definition put_dinode :: "nat \<Rightarrow> inode \<Rightarrow> u8 list \<Rightarrow> u8 list" where
  "put_dinode off q d =
     put_addrs off (ip_addrs q)
       (put32 (off + 8) (ip_size q)
         (put16 (off + 6) (ip_nlink q)
           (put16 (off + 4) (ip_minor q)
             (put16 (off + 2) (ip_major q)
               (put16 off (ip_type q) d)))))"

definition get_dinode :: "u8 list \<Rightarrow> nat \<Rightarrow> inode \<Rightarrow> inode" where
  "get_dinode d off q = q\<lparr>ip_type := get16 d off, ip_major := get16 d (off + 2),
     ip_minor := get16 d (off + 4), ip_nlink := get16 d (off + 6), ip_size := get32 d (off + 8),
     ip_addrs := dinode_addrs d off\<rparr>"

definition ialloc_at :: "u32 \<Rightarrow> u16 \<Rightarrow> nat \<Rightarrow> nat option K" where
  "ialloc_at dev type inum =
     kbind (kget sb) (\<lambda>sblk.
     kbind (bread dev (IBLOCK (of_nat inum) sblk)) (\<lambda>bp.
     kbind (bdata bp) (\<lambda>d.
     let off = dinode_off (of_nat inum) in
     if get16 d off = 0 then
       kseq (set_bdata bp (splice off (replicate 64 0)))
       (kseq (set_bdata bp (put16 off type))
       (kseq (log_write bp)
       (kseq (brelse bp)
       (kbind (iget dev (of_nat inum)) (\<lambda>ip. kret (Some ip))))))
     else kseq (brelse bp) (kret None))))"

definition ialloc :: "u32 \<Rightarrow> u16 \<Rightarrow> nat K" where
  "ialloc dev type =
     kbind (kget (\<lambda>s. unat (sb_ninodes (sb s)) - 1)) (\<lambda>n.
     kbind (kfind n 1 (ialloc_at dev type)) (\<lambda>r. case r of
       Some ip \<Rightarrow> kret ip
     | None \<Rightarrow> kpanic ''ialloc: no inodes''))"

definition iupdate :: "nat \<Rightarrow> unit K" where
  "iupdate ip =
     kbind (kget (\<lambda>s. icache s ip)) (\<lambda>q.
     kbind (kget sb) (\<lambda>sblk.
     kbind (bread (ip_dev q) (IBLOCK (ip_inum q) sblk)) (\<lambda>bp.
     kseq (kbind (kget (\<lambda>s. icache s ip)) (\<lambda>q'. set_bdata bp (put_dinode (dinode_off (ip_inum q)) q')))
     (kseq (log_write bp)
      (brelse bp)))))"

definition idup :: "nat \<Rightarrow> nat K" where
  "idup ip =
     kseq (acquire L_icache)
     (kseq (upd_inode ip (\<lambda>q. q\<lparr>ip_ref := ip_ref q + 1\<rparr>))
     (kseq (release L_icache)
      (kret ip)))"

definition ilock :: "nat \<Rightarrow> unit K" where
  "ilock ip =
     kif (\<lambda>s. ip_ref (icache s ip) < 1) (kpanic ''ilock'')
     (kseq (acquiresleep (SL_inode ip))
     (kif (\<lambda>s. \<not> ip_valid (icache s ip))
        (kbind (kget (\<lambda>s. icache s ip)) (\<lambda>q.
         kbind (kget sb) (\<lambda>sblk.
         kbind (bread (ip_dev q) (IBLOCK (ip_inum q) sblk)) (\<lambda>bp.
         kbind (bdata bp) (\<lambda>d.
         kseq (upd_inode ip (get_dinode d (dinode_off (ip_inum q))))
         (kseq (brelse bp)
         (kseq (upd_inode ip (\<lambda>q. q\<lparr>ip_valid := True\<rparr>))
          (kif (\<lambda>s. ip_type (icache s ip) = 0) (kpanic ''ilock: no type'') (kret ())))))))))
        (kret ())))"

definition iunlock :: "nat \<Rightarrow> unit K" where
  "iunlock ip =
     kbind (holdingsleep (SL_inode ip)) (\<lambda>h.
     if \<not> h then kpanic ''iunlock''
     else kif (\<lambda>s. ip_ref (icache s ip) < 1) (kpanic ''iunlock'')
       (releasesleep (SL_inode ip)))"

definition itrunc :: "nat \<Rightarrow> unit K" where
  "itrunc ip =
     kseq (kfor NDIRECT 0 (\<lambda>i.
       kbind (kget (\<lambda>s. icache s ip)) (\<lambda>q.
       if ip_addrs q ! i \<noteq> 0 then
         kseq (bfree (ip_dev q) (ip_addrs q ! i))
          (upd_inode ip (\<lambda>q. q\<lparr>ip_addrs := (ip_addrs q)[i := 0]\<rparr>))
       else kret ())))
     (kseq (kbind (kget (\<lambda>s. icache s ip)) (\<lambda>q.
       if ip_addrs q ! NDIRECT \<noteq> 0 then
         kbind (bread (ip_dev q) (ip_addrs q ! NDIRECT)) (\<lambda>bp.
         kseq (kfor NINDIRECT 0 (\<lambda>j.
           kbind (bdata bp) (\<lambda>a.
           if get32 a (4 * j) \<noteq> 0 then bfree (ip_dev q) (get32 a (4 * j)) else kret ())))
         (kseq (brelse bp)
         (kseq (bfree (ip_dev q) (ip_addrs q ! NDIRECT))
          (upd_inode ip (\<lambda>q. q\<lparr>ip_addrs := (ip_addrs q)[NDIRECT := 0]\<rparr>)))))
       else kret ()))
     (kseq (upd_inode ip (\<lambda>q. q\<lparr>ip_size := 0\<rparr>))
      (iupdate ip)))"

definition iput :: "nat \<Rightarrow> unit K" where
  "iput ip =
     kseq (acquiresleep (SL_inode ip))
     (kseq (kif (\<lambda>s. ip_valid (icache s ip) \<and> ip_nlink (icache s ip) = 0)
        (kseq (acquire L_icache)
        (kbind (kget (\<lambda>s. ip_ref (icache s ip))) (\<lambda>r.
         kseq (release L_icache)
         (if r = 1 then
            kseq (itrunc ip)
            (kseq (upd_inode ip (\<lambda>q. q\<lparr>ip_type := 0\<rparr>))
            (kseq (iupdate ip)
             (upd_inode ip (\<lambda>q. q\<lparr>ip_valid := False\<rparr>))))
          else kret ()))))
        (kret ()))
     (kseq (releasesleep (SL_inode ip))
     (kseq (acquire L_icache)
     (kseq (upd_inode ip (\<lambda>q. q\<lparr>ip_ref := ip_ref q - 1\<rparr>))
      (release L_icache)))))"

definition iunlockput :: "nat \<Rightarrow> unit K" where
  "iunlockput ip = kseq (iunlock ip) (iput ip)"

end
