(* ===== verification/Console.thy ===== *)
theory Console
  imports Fs
begin

text \<open>
  The input half of \<^verbatim>\<open>console.c\<close> and the console as a device.

  Where the code gives a device or an inode a place to read from or write to, the model has
  \<open>iobuf\<close>: an address, or a local variable of the calling C function.
\<close>

section \<open>Places for input and output\<close>

datatype iobuf = Mem u32 | Local "u8 list"

definition put_out :: "iobuf \<Rightarrow> u32 \<Rightarrow> u8 list \<Rightarrow> iobuf K" where
  "put_out dst off bs = (case dst of
     Mem a \<Rightarrow> kseq (vwrite (a + off) bs) (kret dst)
   | Local xs \<Rightarrow> kret (Local (splice (unat off) bs xs)))"

definition get_in :: "iobuf \<Rightarrow> u32 \<Rightarrow> nat \<Rightarrow> u8 list K" where
  "get_in src off n = (case src of
     Mem a \<Rightarrow> vread (a + off) n
   | Local xs \<Rightarrow> kret (slice (unat off) n xs))"

section \<open>Line editing\<close>

definition upd_input :: "(input_state \<Rightarrow> input_state) \<Rightarrow> unit K" where
  "upd_input f = kmod (\<lambda>s. s\<lparr>input := f (input s)\<rparr>)"

definition in_at :: "input_state \<Rightarrow> u32 \<Rightarrow> u8" where
  "in_at q i = in_buf q (unat i mod INPUT_BUF)"

text \<open>The loop of control-U; every round moves \<open>e\<close> back towards \<open>w\<close>.\<close>

primrec kill_line :: "nat \<Rightarrow> unit K" where
  "kill_line 0 = (\<lambda>s w. Stuck s)"
| "kill_line (Suc n) =
     kif (\<lambda>s. in_e (input s) \<noteq> in_w (input s) \<and> in_at (input s) (in_e (input s) - 1) \<noteq> 10)
       (kseq (upd_input (\<lambda>q. q\<lparr>in_e := in_e q - 1\<rparr>))
       (kseq (consputc BACKSPACE)
        (kill_line n)))
       (kret ())"

definition console_char :: "u32 \<Rightarrow> unit K" where
  "console_char c =
     (if c = 16 then kret ()
      else if c = 21 then
        kbind (kget (\<lambda>s. unat (in_e (input s) - in_w (input s)))) (\<lambda>n. kill_line (Suc n))
      else if c = 8 \<or> c = 0x7f then
        kif (\<lambda>s. in_e (input s) \<noteq> in_w (input s))
          (kseq (upd_input (\<lambda>q. q\<lparr>in_e := in_e q - 1\<rparr>)) (consputc BACKSPACE))
          (kret ())
      else kif (\<lambda>s. c \<noteq> 0 \<and> in_e (input s) - in_r (input s) < of_nat INPUT_BUF)
        (let c = (if c = 13 then 10 else c) in
         kseq (upd_input (\<lambda>q. q\<lparr>in_buf := (in_buf q)(unat (in_e q) mod INPUT_BUF := ucast c),
                              in_e := in_e q + 1\<rparr>))
         (kseq (consputc c)
          (kif (\<lambda>s. c = 10 \<or> c = 4 \<or> in_e (input s) = in_r (input s) + of_nat INPUT_BUF)
            (kseq (upd_input (\<lambda>q. q\<lparr>in_w := in_e q\<rparr>)) (wakeup Ch_input))
            (kret ()))))
        (kret ()))"

text \<open>The loop over \<open>getc\<close>. A function \<open>getc\<close> takes the bytes that wait at its device and returns a
  character, or a negative number when there is none, with the bytes that are left. Since it takes a
  byte in every round but the last, one round more than there are bytes is enough. The result is
  \<open>doprocdump\<close>.\<close>

type_synonym getc = "u8 list \<Rightarrow> (u32 \<times> u8 list) K"

primrec console_loop :: "nat \<Rightarrow> getc \<Rightarrow> u8 list \<Rightarrow> bool \<Rightarrow> bool K" where
  "console_loop 0 getc bs dump = (\<lambda>s w. Stuck s)"
| "console_loop (Suc n) getc bs dump =
     kbind (getc bs) (\<lambda>r.
     if sint (fst r) < 0 then kret dump
     else kseq (console_char (fst r)) (console_loop n getc (snd r) (dump \<or> fst r = 16)))"

definition consoleintr :: "(kernel \<Rightarrow> nat \<Rightarrow> u32 list) \<Rightarrow> getc \<Rightarrow> u8 list \<Rightarrow> unit K" where
  "consoleintr pcs getc bs =
     kseq (acquire L_cons)
     (kbind (console_loop (Suc (length bs)) getc bs False) (\<lambda>dump.
      kseq (release L_cons)
       (if dump then procdump pcs else kret ())))"

section \<open>The console device\<close>

text \<open>The wait of \<open>consoleread\<close> for input: the result says whether the process was killed.\<close>

definition console_wait :: "bool K" where
  "console_wait =
     kseq (kwhile (\<lambda>s. in_r (input s) = in_w (input s) \<and> \<not> cur_killed s)
            (sleep Ch_input (Some L_cons)))
      (kget (\<lambda>s. in_r (input s) = in_w (input s)))"

text \<open>The loop \<open>while(n > 0)\<close> with \<open>k\<close> the bytes still wanted; the result is \<open>None\<close> when the
  process was killed and otherwise the bytes left and the destination.\<close>

primrec consoleread_loop :: "nat \<Rightarrow> u32 \<Rightarrow> iobuf \<Rightarrow> (nat \<times> iobuf) option K" where
  "consoleread_loop 0 target dst = kret (Some (0, dst))"
| "consoleread_loop (Suc k) target dst =
     kbind console_wait (\<lambda>killed.
     if killed then kret None
     else kbind (kget (\<lambda>s. in_at (input s) (in_r (input s)))) (\<lambda>c.
       kseq (upd_input (\<lambda>q. q\<lparr>in_r := in_r q + 1\<rparr>))
       (if c = 4 then
          kseq (if of_nat (Suc k) < target then upd_input (\<lambda>q. q\<lparr>in_r := in_r q - 1\<rparr>) else kret ())
            (kret (Some (Suc k, dst)))
        else kbind (put_out dst (target - of_nat (Suc k)) [c]) (\<lambda>dst'.
          if c = 10 then kret (Some (k, dst')) else consoleread_loop k target dst'))))"

definition consoleread :: "nat \<Rightarrow> iobuf \<Rightarrow> u32 \<Rightarrow> (u32 \<times> iobuf) K" where
  "consoleread ip dst n =
     kseq (iunlock ip)
     (kseq (acquire L_cons)
     (kbind (consoleread_loop (nat (sint n)) n dst) (\<lambda>r.
      kseq (release L_cons)
      (kseq (ilock ip)
      (case r of
         None \<Rightarrow> kret (minus1, dst)
       | Some (left, dst') \<Rightarrow>
           kret (n - (if sint n > 0 then of_nat left else n), dst'))))))"

definition consolewrite :: "nat \<Rightarrow> iobuf \<Rightarrow> u32 \<Rightarrow> u32 K" where
  "consolewrite ip src n =
     kseq (iunlock ip)
     (kseq (acquire L_cons)
     (kseq (kfor (nat (sint n)) 0 (\<lambda>i.
        kbind (get_in src (of_nat i) 1) (\<lambda>bs. consputc (ucast (hd bs)))))
     (kseq (release L_cons)
     (kseq (ilock ip)
      (kret n)))))"

definition consoleinit :: "unit K" where
  "consoleinit =
     kseq (initlock L_cons ''console'')
      (kmod (\<lambda>s. s\<lparr>devsw_read := (devsw_read s)(CONSOLE := Some Dev_console),
                  devsw_write := (devsw_write s)(CONSOLE := Some Dev_console),
                  cons_locking := True\<rparr>))"

end
