(* ===== verification/Fs_Data.thy ===== *)
theory Fs_Data
  imports Console Cstring
begin

text \<open>
  \<^verbatim>\<open>fs.c\<close>, second part: the contents of inodes (\<open>bmap\<close>, \<open>readi\<close>, \<open>writei\<close>), directories and
  path names. Path names and directory entry names are the bytes before their NUL.
\<close>

section \<open>Contents\<close>

definition bmap :: "nat \<Rightarrow> u32 \<Rightarrow> u32 K" where
  "bmap ip bn =
     (if bn < of_nat NDIRECT then
        kbind (kget (\<lambda>s. icache s ip)) (\<lambda>q.
        if ip_addrs q ! unat bn = 0 then
          kbind (balloc (ip_dev q)) (\<lambda>addr.
          kseq (upd_inode ip (\<lambda>q. q\<lparr>ip_addrs := (ip_addrs q)[unat bn := addr]\<rparr>))
           (kret addr))
        else kret (ip_addrs q ! unat bn))
      else let bn = bn - of_nat NDIRECT in
        if bn < of_nat NINDIRECT then
          kbind (kget (\<lambda>s. icache s ip)) (\<lambda>q.
          kbind (if ip_addrs q ! NDIRECT = 0 then
                   kbind (balloc (ip_dev q)) (\<lambda>addr.
                   kseq (upd_inode ip (\<lambda>q. q\<lparr>ip_addrs := (ip_addrs q)[NDIRECT := addr]\<rparr>))
                    (kret addr))
                 else kret (ip_addrs q ! NDIRECT)) (\<lambda>ind.
          kbind (bread (ip_dev q) ind) (\<lambda>bp.
          kbind (bdata bp) (\<lambda>a.
          kbind (if get32 a (4 * unat bn) = 0 then
                   kbind (balloc (ip_dev q)) (\<lambda>addr.
                   kseq (set_bdata bp (put32 (4 * unat bn) addr))
                   (kseq (log_write bp) (kret addr)))
                 else kret (get32 a (4 * unat bn))) (\<lambda>addr.
          kseq (brelse bp) (kret addr))))))
        else kpanic ''bmap: out of range'')"

text \<open>\<open>stati\<close> stores into the \<open>struct stat\<close> at \<open>st\<close>.\<close>

definition stati :: "nat \<Rightarrow> u32 \<Rightarrow> unit K" where
  "stati ip st =
     kbind (kget (\<lambda>s. icache s ip)) (\<lambda>q.
     kseq (vstore32 (st + 4) (ip_dev q))
     (kseq (vstore32 (st + 8) (ip_inum q))
     (kseq (vwrite st (le16 (ip_type q)))
     (kseq (vwrite (st + 12) (le16 (ip_nlink q)))
      (vstore32 (st + 16) (ip_size q))))))"

definition dev_index :: "(nat \<Rightarrow> devfn option) \<Rightarrow> u16 \<Rightarrow> devfn option" where
  "dev_index tbl major =
     (if sint major < 0 \<or> sint major \<ge> int NDEV then None else tbl (unat major))"

text \<open>The copying loops. Every round copies at least one byte and all but the first and the
  last a whole block, so \<open>n / BSIZE + 2\<close> rounds are enough.\<close>

primrec readi_loop :: "nat \<Rightarrow> nat \<Rightarrow> iobuf \<Rightarrow> u32 \<Rightarrow> u32 \<Rightarrow> u32 \<Rightarrow> iobuf K" where
  "readi_loop 0 ip dst off tot n = (\<lambda>s w. Stuck s)"
| "readi_loop (Suc k) ip dst off tot n =
     (if \<not> tot < n then kret dst
      else kbind (kget (\<lambda>s. ip_dev (icache s ip))) (\<lambda>dev.
        kbind (bmap ip (off div of_nat BSIZE)) (\<lambda>addr.
        kbind (bread dev addr) (\<lambda>bp.
        let m = min (n - tot) (of_nat BSIZE - off mod of_nat BSIZE) in
        kbind (bdata bp) (\<lambda>d.
        kbind (put_out dst tot (slice (unat (off mod of_nat BSIZE)) (unat m) d)) (\<lambda>dst'.
        kseq (brelse bp)
         (readi_loop k ip dst' (off + m) (tot + m) n)))))))"

definition readi :: "nat \<Rightarrow> iobuf \<Rightarrow> u32 \<Rightarrow> u32 \<Rightarrow> (u32 \<times> iobuf) K" where
  "readi ip dst off n =
     kbind (kget (\<lambda>s. icache s ip)) (\<lambda>q.
     if ip_type q = T_DEV then
       kbind (kget (\<lambda>s. dev_index (devsw_read s) (ip_major q))) (\<lambda>d. case d of
         None \<Rightarrow> kret (minus1, dst)
       | Some Dev_console \<Rightarrow> consoleread ip dst n)
     else if off > ip_size q \<or> off + n < off then kret (minus1, dst)
     else let n = (if off + n > ip_size q then ip_size q - off else n) in
       kbind (readi_loop (unat n div BSIZE + 3) ip dst off 0 n) (\<lambda>dst'. kret (n, dst')))"

primrec writei_loop :: "nat \<Rightarrow> nat \<Rightarrow> iobuf \<Rightarrow> u32 \<Rightarrow> u32 \<Rightarrow> u32 \<Rightarrow> u32 K" where
  "writei_loop 0 ip src off tot n = (\<lambda>s w. Stuck s)"
| "writei_loop (Suc k) ip src off tot n =
     (if \<not> tot < n then kret off
      else kbind (kget (\<lambda>s. ip_dev (icache s ip))) (\<lambda>dev.
        kbind (bmap ip (off div of_nat BSIZE)) (\<lambda>addr.
        kbind (bread dev addr) (\<lambda>bp.
        let m = min (n - tot) (of_nat BSIZE - off mod of_nat BSIZE) in
        kbind (get_in src tot (unat m)) (\<lambda>bs.
        kseq (set_bdata bp (splice (unat (off mod of_nat BSIZE)) bs))
        (kseq (log_write bp)
        (kseq (brelse bp)
         (writei_loop k ip src (off + m) (tot + m) n))))))))"

definition writei :: "nat \<Rightarrow> iobuf \<Rightarrow> u32 \<Rightarrow> u32 \<Rightarrow> u32 K" where
  "writei ip src off n =
     kbind (kget (\<lambda>s. icache s ip)) (\<lambda>q.
     if ip_type q = T_DEV then
       kbind (kget (\<lambda>s. dev_index (devsw_write s) (ip_major q))) (\<lambda>d. case d of
         None \<Rightarrow> kret minus1
       | Some Dev_console \<Rightarrow> consolewrite ip src n)
     else if off > ip_size q \<or> off + n < off then kret minus1
     else if off + n > of_nat ((NDIRECT + NINDIRECT) * BSIZE) then kret minus1
     else kbind (writei_loop (unat n div BSIZE + 3) ip src off 0 n) (\<lambda>off'.
       kseq (kif (\<lambda>s. n > 0 \<and> off' > ip_size (icache s ip))
               (kseq (upd_inode ip (\<lambda>q. q\<lparr>ip_size := off'\<rparr>)) (iupdate ip))
               (kret ()))
        (kret n)))"

section \<open>Directories\<close>

definition namecmp :: "u8 list \<Rightarrow> u8 list \<Rightarrow> int" where
  "namecmp s t = strncmp (of_list s) (of_list t) DIRSIZ"

text \<open>A directory entry as \<open>readi\<close> and \<open>writei\<close> see it: the inode number and the name.\<close>

definition de_inum :: "u8 list \<Rightarrow> u16" where
  "de_inum de = get16 de 0"

definition de_name :: "u8 list \<Rightarrow> u8 list" where
  "de_name de = slice 2 DIRSIZ de"

definition read_dirent :: "nat \<Rightarrow> u32 \<Rightarrow> string \<Rightarrow> u8 list K" where
  "read_dirent dp off msg =
     kbind (readi dp (Local (replicate 16 0)) off 16) (\<lambda>(r, b).
     if r \<noteq> 16 then kpanic msg
     else case b of Local de \<Rightarrow> kret de | Mem _ \<Rightarrow> kpanic msg)"

primrec dirlookup_loop :: "nat \<Rightarrow> nat \<Rightarrow> u8 list \<Rightarrow> u32 \<Rightarrow> (nat \<times> u32) option K" where
  "dirlookup_loop 0 dp name off = (\<lambda>s w. Stuck s)"
| "dirlookup_loop (Suc k) dp name off =
     kif (\<lambda>s. \<not> off < ip_size (icache s dp)) (kret None)
     (kbind (read_dirent dp off ''dirlookup read'') (\<lambda>de.
      if de_inum de = 0 then dirlookup_loop k dp name (off + 16)
      else if namecmp name (de_name de) = 0 then
        kbind (kget (\<lambda>s. ip_dev (icache s dp))) (\<lambda>dev.
        kbind (iget dev (ucast (de_inum de))) (\<lambda>ip. kret (Some (ip, off))))
      else dirlookup_loop k dp name (off + 16)))"

text \<open>The result carries the offset that \<open>dirlookup\<close> stores through \<open>poff\<close>.\<close>

definition dirlookup :: "nat \<Rightarrow> u8 list \<Rightarrow> (nat \<times> u32) option K" where
  "dirlookup dp name =
     kif (\<lambda>s. ip_type (icache s dp) \<noteq> T_DIR) (kpanic ''dirlookup not DIR'')
     (kbind (kget (\<lambda>s. unat (ip_size (icache s dp)) div 16)) (\<lambda>k.
      dirlookup_loop (k + 2) dp name 0))"

primrec dirlink_slot :: "nat \<Rightarrow> nat \<Rightarrow> u32 \<Rightarrow> u32 K" where
  "dirlink_slot 0 dp off = (\<lambda>s w. Stuck s)"
| "dirlink_slot (Suc k) dp off =
     kif (\<lambda>s. \<not> off < ip_size (icache s dp)) (kret off)
     (kbind (read_dirent dp off ''dirlink read'') (\<lambda>de.
      if de_inum de = 0 then kret off else dirlink_slot k dp (off + 16)))"

definition dirlink :: "nat \<Rightarrow> u8 list \<Rightarrow> u32 \<Rightarrow> u32 K" where
  "dirlink dp name inum =
     kbind (dirlookup dp name) (\<lambda>r. case r of
       Some (ip, _) \<Rightarrow> kseq (iput ip) (kret minus1)
     | None \<Rightarrow>
         kbind (kbind (kget (\<lambda>s. unat (ip_size (icache s dp)) div 16)) (\<lambda>k.
                dirlink_slot (k + 2) dp 0)) (\<lambda>off.
         kbind (writei dp (Local (le16 (ucast inum) @ strncpy (of_list name) DIRSIZ)) off 16) (\<lambda>n.
         if n \<noteq> 16 then kpanic ''dirlink'' else kret 0)))"

section \<open>Paths\<close>

definition skip_slashes :: "u8 list \<Rightarrow> u8 list" where
  "skip_slashes p = dropWhile (\<lambda>c. c = 47) p"

text \<open>\<open>skipelem\<close>: the rest of the path and the new contents of the name buffer.\<close>

definition skipelem :: "u8 list \<Rightarrow> u8 list \<Rightarrow> (u8 list \<times> u8 list) option" where
  "skipelem path name =
     (let s = skip_slashes path in
      if s = [] then None
      else let el = takeWhile (\<lambda>c. c \<noteq> 47) s;
               rest = dropWhile (\<lambda>c. c \<noteq> 47) s;
               len = length el;
               name' = (if len \<ge> DIRSIZ then take DIRSIZ el
                        else el @ [0] @ drop (len + 1) name)
           in Some (skip_slashes rest, name'))"

primrec namex_loop :: "nat \<Rightarrow> nat \<Rightarrow> u8 list \<Rightarrow> bool \<Rightarrow> u8 list \<Rightarrow> (nat \<times> u8 list) option K" where
  "namex_loop 0 ip path parent name = (\<lambda>s w. Stuck s)"
| "namex_loop (Suc k) ip path parent name =
     (case skipelem path name of
        None \<Rightarrow>
          if parent then kseq (iput ip) (kret None) else kret (Some (ip, name))
      | Some (path', name') \<Rightarrow>
          kseq (ilock ip)
          (kif (\<lambda>s. ip_type (icache s ip) \<noteq> T_DIR) (kseq (iunlockput ip) (kret None))
          (if parent \<and> path' = [] then kseq (iunlock ip) (kret (Some (ip, name')))
           else kbind (dirlookup ip name') (\<lambda>r. case r of
               None \<Rightarrow> kseq (iunlockput ip) (kret None)
             | Some (nxt, _) \<Rightarrow>
                 kseq (iunlockput ip) (namex_loop k nxt path' parent name')))))"

definition namex :: "u8 list \<Rightarrow> bool \<Rightarrow> (nat \<times> u8 list) option K" where
  "namex path parent =
     kbind (if path \<noteq> [] \<and> hd path = 47 then iget ROOTDEV ROOTINO
            else kbind curproc (\<lambda>p.
              kbind (kget (\<lambda>s. p_cwd (ptable s p))) (\<lambda>cwd. case cwd of
                Some ip \<Rightarrow> idup ip
              | None \<Rightarrow> kpanic ''trap''))) (\<lambda>ip.
     namex_loop (Suc (length path)) ip path parent (replicate DIRSIZ 0))"

definition namei :: "u8 list \<Rightarrow> nat option K" where
  "namei path = kbind (namex path False) (\<lambda>r. kret (map_option fst r))"

definition nameiparent :: "u8 list \<Rightarrow> (nat \<times> u8 list) option K" where
  "nameiparent path = namex path True"

end
