(* ===== verification/Pipe.thy ===== *)
theory Pipe
  imports Fs_Data
begin

text \<open>
  \<^verbatim>\<open>pipe.c\<close>: a ring buffer of 512 bytes between a writer and a reader. A pipe is named by the
  address of the page it lives in. The counters \<open>nread\<close> and \<open>nwrite\<close> are 32-bit and wrap
  around.
\<close>

section \<open>The code\<close>

definition upd_pipe :: "u32 \<Rightarrow> (pipe \<Rightarrow> pipe) \<Rightarrow> unit K" where
  "upd_pipe a f = kmod (\<lambda>s. s\<lparr>pipes := (pipes s)(a := f (pipes s a))\<rparr>)"

definition pipeclose :: "u32 \<Rightarrow> bool \<Rightarrow> unit K" where
  "pipeclose p writable =
     kseq (acquire (L_pipe p))
     (kseq (if writable then
              kseq (upd_pipe p (\<lambda>q. q\<lparr>pi_writeopen := False\<rparr>)) (wakeup (Ch_nread p))
            else
              kseq (upd_pipe p (\<lambda>q. q\<lparr>pi_readopen := False\<rparr>)) (wakeup (Ch_nwrite p)))
     (kif (\<lambda>s. \<not> pi_readopen (pipes s p) \<and> \<not> pi_writeopen (pipes s p))
        (kseq (release (L_pipe p)) (kfree p))
        (release (L_pipe p))))"

definition pipe_full :: "pipe \<Rightarrow> bool" where
  "pipe_full q \<longleftrightarrow> pi_nwrite q = pi_nread q + of_nat PIPESIZE"

definition pipe_empty :: "pipe \<Rightarrow> bool" where
  "pipe_empty q \<longleftrightarrow> pi_nread q = pi_nwrite q"

definition pipe_put :: "u8 \<Rightarrow> pipe \<Rightarrow> pipe" where
  "pipe_put b q = q\<lparr>pi_data := (pi_data q)(unat (pi_nwrite q mod of_nat PIPESIZE) := b),
     pi_nwrite := pi_nwrite q + 1\<rparr>"

definition pipe_head :: "pipe \<Rightarrow> u8" where
  "pipe_head q = pi_data q (unat (pi_nread q mod of_nat PIPESIZE))"

definition pipe_skip :: "pipe \<Rightarrow> pipe" where
  "pipe_skip q = q\<lparr>pi_nread := pi_nread q + 1\<rparr>"

text \<open>The inner loop of \<open>pipewrite\<close>: the result says whether it gave up.\<close>

definition pipe_wait_room :: "u32 \<Rightarrow> bool K" where
  "pipe_wait_room p =
     kseq (kwhile (\<lambda>s. pipe_full (pipes s p) \<and> \<not> (\<not> pi_readopen (pipes s p) \<or> cur_killed s))
            (kseq (wakeup (Ch_nread p)) (sleep (Ch_nwrite p) (Some (L_pipe p)))))
      (kget (\<lambda>s. pipe_full (pipes s p)))"

text \<open>One round of the loop of \<open>pipewrite\<close>; \<open>Some\<close> leaves the function.\<close>

definition pipewrite_byte :: "u32 \<Rightarrow> u32 \<Rightarrow> nat \<Rightarrow> u32 option K" where
  "pipewrite_byte p addr i =
     kbind (pipe_wait_room p) (\<lambda>giveup.
     if giveup then kseq (release (L_pipe p)) (kret (Some minus1))
     else kbind (vread (addr + of_nat i) 1) (\<lambda>bs.
       kseq (upd_pipe p (pipe_put (hd bs))) (kret None)))"

definition pipewrite :: "u32 \<Rightarrow> u32 \<Rightarrow> u32 \<Rightarrow> u32 K" where
  "pipewrite p addr n =
     kseq (acquire (L_pipe p))
     (kbind (kfind (nat (sint n)) 0 (pipewrite_byte p addr)) (\<lambda>r.
      case r of
        Some v \<Rightarrow> kret v
      | None \<Rightarrow>
          kseq (wakeup (Ch_nread p))
          (kseq (release (L_pipe p))
           (kret n))))"

text \<open>The wait of \<open>piperead\<close>: the result says whether the process was killed while the pipe
  was empty.\<close>

definition pipe_wait_data :: "u32 \<Rightarrow> bool K" where
  "pipe_wait_data p =
     kseq (kwhile (\<lambda>s. pipe_empty (pipes s p) \<and> pi_writeopen (pipes s p) \<and> \<not> cur_killed s)
            (sleep (Ch_nread p) (Some (L_pipe p))))
      (kget (\<lambda>s. pipe_empty (pipes s p) \<and> pi_writeopen (pipes s p)))"

primrec piperead_loop :: "nat \<Rightarrow> nat \<Rightarrow> u32 \<Rightarrow> u32 \<Rightarrow> u32 K" where
  "piperead_loop 0 i p addr = kret (of_nat i)"
| "piperead_loop (Suc k) i p addr =
     kif (\<lambda>s. pipe_empty (pipes s p)) (kret (of_nat i))
     (kbind (kget (\<lambda>s. pipe_head (pipes s p))) (\<lambda>b.
      kseq (upd_pipe p pipe_skip)
      (kseq (vwrite (addr + of_nat i) [b])
       (piperead_loop k (Suc i) p addr))))"

definition piperead :: "u32 \<Rightarrow> u32 \<Rightarrow> u32 \<Rightarrow> u32 K" where
  "piperead p addr n =
     kseq (acquire (L_pipe p))
     (kbind (pipe_wait_data p) (\<lambda>killed.
      if killed then kseq (release (L_pipe p)) (kret minus1)
      else kbind (piperead_loop (nat (sint n)) 0 p addr) (\<lambda>i.
        kseq (wakeup (Ch_nwrite p))
        (kseq (release (L_pipe p))
         (kret i)))))"

end
