(* ===== verification/File.thy ===== *)
theory File
  imports Pipe
begin

text \<open>
  \<^verbatim>\<open>file.c\<close>: the table of open files, and \<open>pipealloc\<close> of \<^verbatim>\<open>pipe.c\<close>, which fills two of its
  entries.
\<close>

section \<open>The code\<close>

definition upd_file :: "nat \<Rightarrow> (ofile \<Rightarrow> ofile) \<Rightarrow> unit K" where
  "upd_file f g = kmod (\<lambda>s. s\<lparr>ftable := (ftable s)(f := g (ftable s f))\<rparr>)"

definition fileinit :: "unit K" where
  "fileinit = initlock L_ftable ''ftable''"

definition filealloc :: "nat option K" where
  "filealloc =
     kseq (acquire L_ftable)
     (kbind (kget (\<lambda>s. find (\<lambda>f. f_ref (ftable s f) = 0) [0..<NFILE])) (\<lambda>r. case r of
        Some f \<Rightarrow>
          kseq (upd_file f (\<lambda>q. q\<lparr>f_ref := 1\<rparr>))
          (kseq (release L_ftable) (kret (Some f)))
      | None \<Rightarrow> kseq (release L_ftable) (kret None)))"

definition filedup :: "nat \<Rightarrow> nat K" where
  "filedup f =
     kseq (acquire L_ftable)
     (kif (\<lambda>s. f_ref (ftable s f) < 1) (kpanic ''filedup'')
     (kseq (upd_file f (\<lambda>q. q\<lparr>f_ref := f_ref q + 1\<rparr>))
     (kseq (release L_ftable)
      (kret f))))"

definition fileclose :: "nat \<Rightarrow> unit K" where
  "fileclose f =
     kseq (acquire L_ftable)
     (kif (\<lambda>s. f_ref (ftable s f) < 1) (kpanic ''fileclose'')
     (kseq (upd_file f (\<lambda>q. q\<lparr>f_ref := f_ref q - 1\<rparr>))
     (kif (\<lambda>s. f_ref (ftable s f) > 0) (release L_ftable)
     (kbind (kget (\<lambda>s. ftable s f)) (\<lambda>ff.
      kseq (upd_file f (\<lambda>q. q\<lparr>f_ref := 0, f_type := FD_NONE\<rparr>))
      (kseq (release L_ftable)
      (case f_type ff of
         FD_PIPE \<Rightarrow> pipeclose (f_pipe ff) (f_writable ff)
       | FD_INODE \<Rightarrow> kseq begin_op (kseq (iput (f_ip ff)) end_op)
       | FD_NONE \<Rightarrow> kret ())))))))"

definition filestat :: "nat \<Rightarrow> u32 \<Rightarrow> u32 K" where
  "filestat f st =
     kbind (kget (\<lambda>s. ftable s f)) (\<lambda>q.
     if f_type q = FD_INODE then
       kseq (ilock (f_ip q))
       (kseq (stati (f_ip q) st)
       (kseq (iunlock (f_ip q))
        (kret 0)))
     else kret minus1)"

definition fileread :: "nat \<Rightarrow> u32 \<Rightarrow> u32 \<Rightarrow> u32 K" where
  "fileread f addr n =
     kbind (kget (\<lambda>s. ftable s f)) (\<lambda>q.
     if \<not> f_readable q then kret minus1
     else case f_type q of
       FD_PIPE \<Rightarrow> piperead (f_pipe q) addr n
     | FD_INODE \<Rightarrow>
         kseq (ilock (f_ip q))
         (kbind (kget (\<lambda>s. f_off (ftable s f))) (\<lambda>off.
          kbind (readi (f_ip q) (Mem addr) off n) (\<lambda>(r, _).
          kseq (if sint r > 0 then upd_file f (\<lambda>q. q\<lparr>f_off := f_off q + r\<rparr>) else kret ())
          (kseq (iunlock (f_ip q))
           (kret r)))))
     | FD_NONE \<Rightarrow> kpanic ''fileread'')"

text \<open>The loop of \<open>filewrite\<close> over chunks of \<open>((MAXOPBLOCKS-1-1-2) / 2) * 512 = 1536\<close> bytes.\<close>

definition filewrite_max :: int where
  "filewrite_max = int ((MAXOPBLOCKS - 1 - 1 - 2) div 2 * 512)"

primrec filewrite_loop :: "nat \<Rightarrow> nat \<Rightarrow> nat \<Rightarrow> u32 \<Rightarrow> int \<Rightarrow> int \<Rightarrow> u32 K" where
  "filewrite_loop 0 f ip addr i n = (\<lambda>s w. Stuck s)"
| "filewrite_loop (Suc k) f ip addr i n =
     (if \<not> i < n then kret (if i = n then of_int n else minus1)
      else let n1 = (if n - i > filewrite_max then filewrite_max else n - i) in
        kseq begin_op
        (kseq (ilock ip)
        (kbind (kget (\<lambda>s. f_off (ftable s f))) (\<lambda>off.
         kbind (writei ip (Mem (addr + of_int i)) off (of_int n1)) (\<lambda>r.
         kseq (if sint r > 0 then upd_file f (\<lambda>q. q\<lparr>f_off := f_off q + r\<rparr>) else kret ())
         (kseq (iunlock ip)
         (kseq end_op
          (if sint r < 0 then kret (if i = n then of_int n else minus1)
           else if sint r \<noteq> n1 then kpanic ''short filewrite''
           else filewrite_loop k f ip addr (i + sint r) n)))))))) "

definition filewrite :: "nat \<Rightarrow> u32 \<Rightarrow> u32 \<Rightarrow> u32 K" where
  "filewrite f addr n =
     kbind (kget (\<lambda>s. ftable s f)) (\<lambda>q.
     if \<not> f_writable q then kret minus1
     else case f_type q of
       FD_PIPE \<Rightarrow> pipewrite (f_pipe q) addr n
     | FD_INODE \<Rightarrow> filewrite_loop (nat (sint n) div 1536 + 2) f (f_ip q) addr 0 (sint n)
     | FD_NONE \<Rightarrow> kpanic ''filewrite'')"

section \<open>Creating a pipe (pipe.c)\<close>

definition pipealloc_bad :: "u32 \<Rightarrow> nat option \<Rightarrow> nat option \<Rightarrow> (nat \<times> nat) option K" where
  "pipealloc_bad p f0 f1 =
     kseq (if p \<noteq> 0 then kfree p else kret ())
     (kseq (case f0 of Some f \<Rightarrow> fileclose f | None \<Rightarrow> kret ())
     (kseq (case f1 of Some f \<Rightarrow> fileclose f | None \<Rightarrow> kret ())
      (kret None)))"

text \<open>The result is \<open>None\<close> for -1 and otherwise the two files that the code stores through
  its arguments.\<close>

definition pipealloc :: "(nat \<times> nat) option K" where
  "pipealloc =
     kbind filealloc (\<lambda>f0. case f0 of
       None \<Rightarrow> pipealloc_bad 0 None None
     | Some a \<Rightarrow> kbind filealloc (\<lambda>f1. case f1 of
         None \<Rightarrow> pipealloc_bad 0 (Some a) None
       | Some b \<Rightarrow> kbind kalloc (\<lambda>p.
           if p = 0 then pipealloc_bad 0 (Some a) (Some b)
           else
             kseq (upd_pipe p (\<lambda>q. q\<lparr>pi_readopen := True, pi_writeopen := True,
                                     pi_nwrite := 0, pi_nread := 0\<rparr>))
             (kseq (initlock (L_pipe p) ''pipe'')
             (kseq (upd_file a (\<lambda>q. q\<lparr>f_type := FD_PIPE, f_readable := True, f_writable := False, f_pipe := p\<rparr>))
             (kseq (upd_file b (\<lambda>q. q\<lparr>f_type := FD_PIPE, f_readable := False, f_writable := True, f_pipe := p\<rparr>))
              (kret (Some (a, b)))))))))"

end
