(* ===== verification/Proc_Life.thy ===== *)
theory Proc_Life
  imports File
begin

text \<open>
  The life of a process (\<^verbatim>\<open>proc.c\<close>): \<open>allocproc\<close>, \<open>userinit\<close>, \<open>growproc\<close>, \<open>fork\<close>,
  \<open>exit\<close>, \<open>wait\<close> and \<open>forkret\<close>.

  A new process starts in \<open>forkret\<close> and returns to \<open>trapret\<close>: the context that \<open>allocproc\<close>
  builds on the kernel stack is \<open>p_context = At_forkret\<close>. The contents of a fresh trap frame
  are left as they were; \<open>fork\<close> and \<open>userinit\<close> overwrite it.
\<close>

definition alloc_slot :: "nat option K" where
  "alloc_slot = kfind NPROC 0 (\<lambda>i.
     kbind (cas_state i UNUSED EMBRYO) (\<lambda>ok. kret (if ok then Some i else None)))"

definition allocproc :: "nat option K" where
  "allocproc =
     kseq pushcli
     (kbind alloc_slot (\<lambda>r. case r of
        None \<Rightarrow> kseq popcli (kret None)
      | Some p \<Rightarrow>
          kseq popcli
          (kseq (kbind allocpid (\<lambda>pid. upd_proc p (\<lambda>q. q\<lparr>p_pid := pid\<rparr>)))
          (kbind kalloc (\<lambda>ks.
           kseq (upd_proc p (\<lambda>q. q\<lparr>p_kstack := ks\<rparr>))
           (if ks = 0 then
              kseq (upd_proc p (\<lambda>q. q\<lparr>p_state := UNUSED\<rparr>)) (kret None)
            else
              kseq (upd_proc p (\<lambda>q. q\<lparr>p_context := At_forkret\<rparr>))
              (kseq (kfor SIGNAL_HANDLERS_SIZE 0 (\<lambda>i. upd_proc p (\<lambda>q. q\<lparr>
                 p_signalHandler := (p_signalHandler q)(i := SIG_DFL),
                 p_signalHandlerMasks := (p_signalHandlerMasks q)(i := 0)\<rparr>)))
              (kseq (upd_proc p (\<lambda>q. q\<lparr>p_pendingSignals := 0\<rparr>))
              (kseq (upd_proc p (\<lambda>q. q\<lparr>p_signalMask := 0\<rparr>))
               (kret (Some p))))))))))) "

text \<open>\<open>initcode\<close> is the binary of \<^verbatim>\<open>initcode.S\<close> that the linker embeds in the kernel.\<close>

definition user_tf0 :: trapframe where
  "user_tf0 = trapframe0\<lparr>tf_cs := 0x1b, tf_ds := 0x23, tf_es := 0x23, tf_ss := 0x23,
     tf_eflags := 0x200, tf_esp := PGSIZE, tf_eip := 0\<rparr>"

definition userinit :: "u8 list \<Rightarrow> unit K" where
  "userinit initcode =
     kbind allocproc (\<lambda>pp.
     kseq (kmod (\<lambda>s. s\<lparr>initproc := pp\<rparr>))
     (kbind setupkvm (\<lambda>d.
      kbind (the_proc pp) (\<lambda>p.
      kseq (upd_proc p (\<lambda>q. q\<lparr>p_pgdir := d\<rparr>))
      (if d = 0 then kpanic ''userinit: out of memory?''
       else
         kseq (inituvm d initcode)
         (kseq (upd_proc p (\<lambda>q. q\<lparr>p_sz := PGSIZE, p_tf := user_tf0,
                   p_name := safestrcpy (p_name q) (of_list (map ucast (bytes_of ''initcode''))) 16\<rparr>))
         (kseq (kbind (namei [47]) (\<lambda>ip. upd_proc p (\<lambda>q. q\<lparr>p_cwd := ip\<rparr>)))
         (kseq pushcli
         (kbind (cas_state p EMBRYO RUNNABLE) (\<lambda>ok.
          if \<not> ok then kpanic ''user init cas err'' else popcli))))))))))"

definition growproc :: "u32 \<Rightarrow> u32 K" where
  "growproc n =
     kbind curproc (\<lambda>p.
     kbind (kget (\<lambda>s. ptable s p)) (\<lambda>q.
     kbind (if sint n > 0 then allocuvm (p_pgdir q) (p_sz q) (p_sz q + n)
            else if sint n < 0 then deallocuvm (p_pgdir q) (p_sz q) (p_sz q + n)
            else kret (p_sz q)) (\<lambda>sz.
     if sint n \<noteq> 0 \<and> sz = 0 then kret minus1
     else
       kseq (upd_proc p (\<lambda>q. q\<lparr>p_sz := sz\<rparr>))
       (kseq (switchuvm (Some p))
        (kret 0)))))"

definition fork_files :: "nat \<Rightarrow> nat \<Rightarrow> unit K" where
  "fork_files p np = kfor NOFILE 0 (\<lambda>i.
     kbind (kget (\<lambda>s. p_ofile (ptable s p) i)) (\<lambda>f. case f of
       None \<Rightarrow> kret ()
     | Some g \<Rightarrow> kbind (filedup g) (\<lambda>h.
         upd_proc np (\<lambda>q. q\<lparr>p_ofile := (p_ofile q)(i := Some h)\<rparr>))))"

definition fork_child :: "proc \<Rightarrow> nat \<Rightarrow> proc \<Rightarrow> proc" where
  "fork_child cur parent q = q\<lparr>p_sz := p_sz cur, p_parent := Some parent,
     p_tf := (p_tf cur)\<lparr>tf_eax := 0\<rparr>, p_signalMask := p_signalMask cur, p_pendingSignals := 0,
     p_signalHandler := (\<lambda>i. if i < 32 then p_signalHandler cur i else p_signalHandler q i),
     p_signalHandlerMasks := (\<lambda>i. if i < 32 then p_signalHandlerMasks cur i else p_signalHandlerMasks q i)\<rparr>"

definition fork :: "u32 K" where
  "fork =
     kbind curproc (\<lambda>p.
     kbind allocproc (\<lambda>r. case r of
       None \<Rightarrow> kret minus1
     | Some np \<Rightarrow>
         kbind (kget (\<lambda>s. ptable s p)) (\<lambda>cur.
         kbind (copyuvm (p_pgdir cur) (p_sz cur)) (\<lambda>d.
         kseq (upd_proc np (\<lambda>q. q\<lparr>p_pgdir := d\<rparr>))
         (if d = 0 then
            kseq (kbind (kget (\<lambda>s. p_kstack (ptable s np))) kfree)
            (kseq (upd_proc np (\<lambda>q. q\<lparr>p_kstack := 0, p_state := UNUSED\<rparr>))
             (kret minus1))
          else
            kseq (kbind (kget (\<lambda>s. ptable s p)) (\<lambda>cur. upd_proc np (fork_child cur p)))
            (kseq (fork_files p np)
            (kseq (kbind (kget (\<lambda>s. p_cwd (ptable s p))) (\<lambda>cwd. case cwd of
                     Some ip \<Rightarrow> kbind (idup ip) (\<lambda>ip. upd_proc np (\<lambda>q. q\<lparr>p_cwd := Some ip\<rparr>))
                   | None \<Rightarrow> kpanic ''trap''))
            (kseq (kbind (kget (\<lambda>s. p_name (ptable s p))) (\<lambda>nm.
                    upd_proc np (\<lambda>q. q\<lparr>p_name := safestrcpy (p_name q) (of_list nm) 16\<rparr>)))
            (kbind (kget (\<lambda>s. p_pid (ptable s np))) (\<lambda>pid.
             kseq pushcli
             (kbind (cas_state np EMBRYO RUNNABLE) (\<lambda>ok.
              if \<not> ok then kpanic ''fork cas error''
              else kseq popcli (kret pid)))))))))))))"

section \<open>Leaving and waiting\<close>

definition exit_orphan :: "nat \<Rightarrow> nat \<Rightarrow> unit K" where
  "exit_orphan p i =
     kif (\<lambda>s. p_parent (ptable s i) = Some p)
       (kseq (kbind (kget initproc) (\<lambda>ini. upd_proc i (\<lambda>q. q\<lparr>p_parent := ini\<rparr>)))
       (kseq (kwhile (\<lambda>s. p_state (ptable s i) = M_ZOMBIE) kworld)
        (kif (\<lambda>s. p_state (ptable s i) = ZOMBIE)
          (kbind (kget initproc) (\<lambda>ini. wakeup1 (map_option Ch_proc ini)))
          (kret ()))))
       (kret ())"

definition exit_files :: "nat \<Rightarrow> unit K" where
  "exit_files p = kfor NOFILE 0 (\<lambda>fd.
     kbind (kget (\<lambda>s. p_ofile (ptable s p) fd)) (\<lambda>f. case f of
       None \<Rightarrow> kret ()
     | Some g \<Rightarrow>
         kseq (fileclose g)
          (upd_proc p (\<lambda>q. q\<lparr>p_ofile := (p_ofile q)(fd := None)\<rparr>))))"

text \<open>The number \<open>cprintf\<close> prints for a process state: the enumerator, negated in the
  transitional states.\<close>

definition state_num :: "procstate \<Rightarrow> u32" where
  "state_num st = (case st of
     UNUSED \<Rightarrow> 0 | EMBRYO \<Rightarrow> 1 | SLEEPING \<Rightarrow> 2 | RUNNABLE \<Rightarrow> 3 | RUNNING \<Rightarrow> 4 | ZOMBIE \<Rightarrow> 5
   | PRE_UNUSED \<Rightarrow> 6 | M_SLEEPING \<Rightarrow> - 2 | M_RUNNABLE \<Rightarrow> - 3 | M_RUNNING \<Rightarrow> - 4 | M_ZOMBIE \<Rightarrow> - 5)"

definition exit :: "unit K" where
  "exit =
     kbind curproc (\<lambda>p.
     kif (\<lambda>s. Some p = initproc s) (kpanic ''init exiting'')
     (kseq (exit_files p)
     (kseq begin_op
     (kseq (kbind (kget (\<lambda>s. p_cwd (ptable s p))) (\<lambda>cwd. case cwd of
              Some ip \<Rightarrow> iput ip
            | None \<Rightarrow> kpanic ''trap''))
     (kseq end_op
     (kseq (upd_proc p (\<lambda>q. q\<lparr>p_cwd := None\<rparr>))
     (kseq pushcli
     (kseq (kbind (cas_state p RUNNING M_ZOMBIE) (\<lambda>ok.
              if \<not> ok then kbind (kget (\<lambda>s. state_num (p_state (ptable s p)))) (\<lambda>st.
                cprintf ''exit cas err %d\<newline>'' [A_int st])
              else kret ()))
     (kseq (kbind (kget (\<lambda>s. p_parent (ptable s p))) (\<lambda>par. wakeup1 (map_option Ch_proc par)))
     (kseq (kfor NPROC 0 (exit_orphan p))
     (kseq sched
      (kpanic ''zombie exit''))))))))))))"

definition wait_reap :: "nat \<Rightarrow> nat \<Rightarrow> u32 K" where
  "wait_reap p i =
     kbind (kget (\<lambda>s. p_pid (ptable s i))) (\<lambda>pid.
     kseq (kbind (kget (\<lambda>s. p_kstack (ptable s i))) kfree)
     (kseq (upd_proc i (\<lambda>q. q\<lparr>p_kstack := 0\<rparr>))
     (kseq (kbind (kget (\<lambda>s. p_pgdir (ptable s i))) freevm)
     (kseq (upd_proc i (\<lambda>q. q\<lparr>p_pid := 0, p_parent := None, p_name := (p_name q)[0 := 0],
                               p_killed := False\<rparr>))
     (kbind (cas_state p M_SLEEPING RUNNING) (\<lambda>ok.
      if \<not> ok then kpanic ''wait cas\<newline>''
      else kbind (cas_state i PRE_UNUSED UNUSED) (\<lambda>ok2.
        if \<not> ok2 then kpanic ''wait cas\<newline>''
        else kseq popcli (kret pid))))))))"

text \<open>The scan for a dead child: \<open>Inl pid\<close> when one was reaped, \<open>Inr havekids\<close> otherwise.\<close>

primrec wait_scan :: "nat \<Rightarrow> nat \<Rightarrow> nat \<Rightarrow> bool \<Rightarrow> (u32 + bool) K" where
  "wait_scan 0 p i havekids = kret (Inr havekids)"
| "wait_scan (Suc k) p i havekids =
     kif (\<lambda>s. p_parent (ptable s i) \<noteq> Some p) (wait_scan k p (Suc i) havekids)
     (kseq (kwhile (\<lambda>s. p_state (ptable s i) = M_ZOMBIE) kworld)
     (kbind (cas_state i ZOMBIE PRE_UNUSED) (\<lambda>ok.
      if ok then kbind (wait_reap p i) (\<lambda>pid. kret (Inl pid))
      else wait_scan k p (Suc i) True)))"

text \<open>One round of the endless loop of \<open>wait\<close>; \<open>Some\<close> is the value it returns.\<close>

definition wait_round :: "nat \<Rightarrow> u32 option K" where
  "wait_round p =
     kseq (kbind (cas_state p RUNNING M_SLEEPING) (\<lambda>ok.
             if \<not> ok then cprintf ''wait cas err1\<newline>'' [] else kret ()))
     (kseq (upd_proc p (\<lambda>q. q\<lparr>p_chan := Some (Ch_proc p)\<rparr>))
     (kbind (wait_scan NPROC p 0 False) (\<lambda>r. case r of
        Inl pid \<Rightarrow> kret (Some pid)
      | Inr havekids \<Rightarrow>
          kif (\<lambda>s. \<not> havekids \<or> p_killed (ptable s p))
            (kbind (cas_state p M_SLEEPING RUNNING) (\<lambda>ok.
             if \<not> ok then kpanic ''wait cas err\<newline>''
             else kseq (upd_proc p (\<lambda>q. q\<lparr>p_chan := None\<rparr>))
               (kseq popcli (kret (Some minus1)))))
            (kseq sched (kret None)))))"

text \<open>Every round but the last gives up the CPU, so the moves of the world bound the rounds.\<close>

primrec wait_loop :: "nat \<Rightarrow> nat \<Rightarrow> u32 K" where
  "wait_loop 0 p = (\<lambda>s w. Stuck s)"
| "wait_loop (Suc n) p =
     kbind (wait_round p) (\<lambda>r. case r of Some v \<Rightarrow> kret v | None \<Rightarrow> wait_loop n p)"

definition wait :: "u32 K" where
  "wait =
     kbind curproc (\<lambda>p.
     kseq pushcli
      (\<lambda>s w. wait_loop (Suc (length w)) p s w))"

definition forkret :: "unit K" where
  "forkret =
     kseq popcli
     (kif forkret_first
       (kseq (kmod (\<lambda>s. s\<lparr>forkret_first := False\<rparr>))
       (kseq (iinit ROOTDEV)
        (initlog ROOTDEV)))
       (kret ()))"

end
