(* ===== verification/Signals.thy ===== *)
theory Signals
  imports Proc_Sched Bytes
begin

text \<open>
  The signal machinery of \<^verbatim>\<open>proc.c\<close>: \<open>sigprocmask\<close>, \<open>sigaction\<close>, \<open>sigret\<close> and
  \<open>handle_signals\<close>, which runs on every return to user space.

  The trap frame of a process is a record; where the code copies it to or from user memory
  the model uses its 76 bytes. \<open>sigret_code\<close> is the machine code between \<open>sigret_start\<close>
  and \<open>sigret_end\<close> of \<^verbatim>\<open>sigretasm.S\<close>: \<open>movl $SYS_sigret, %eax; int $T_SYSCALL\<close>.
\<close>

section \<open>Trap frames in memory\<close>

definition tf_bytes :: "trapframe \<Rightarrow> u8 list" where
  "tf_bytes t =
     le32 (tf_edi t) @ le32 (tf_esi t) @ le32 (tf_ebp t) @ le32 (tf_oesp t) @ le32 (tf_ebx t) @
     le32 (tf_edx t) @ le32 (tf_ecx t) @ le32 (tf_eax t) @ le16 (tf_gs t) @ le16 (tf_padding1 t) @
     le16 (tf_fs t) @ le16 (tf_padding2 t) @ le16 (tf_es t) @ le16 (tf_padding3 t) @
     le16 (tf_ds t) @ le16 (tf_padding4 t) @ le32 (tf_trapno t) @ le32 (tf_err t) @
     le32 (tf_eip t) @ le16 (tf_cs t) @ le16 (tf_padding5 t) @ le32 (tf_eflags t) @
     le32 (tf_esp t) @ le16 (tf_ss t) @ le16 (tf_padding6 t)"

definition tf_of :: "u8 list \<Rightarrow> trapframe" where
  "tf_of b = \<lparr>tf_edi = get32 b 0, tf_esi = get32 b 4, tf_ebp = get32 b 8, tf_oesp = get32 b 12,
     tf_ebx = get32 b 16, tf_edx = get32 b 20, tf_ecx = get32 b 24, tf_eax = get32 b 28,
     tf_gs = get16 b 32, tf_padding1 = get16 b 34, tf_fs = get16 b 36, tf_padding2 = get16 b 38,
     tf_es = get16 b 40, tf_padding3 = get16 b 42, tf_ds = get16 b 44, tf_padding4 = get16 b 46,
     tf_trapno = get32 b 48, tf_err = get32 b 52, tf_eip = get32 b 56, tf_cs = get16 b 60,
     tf_padding5 = get16 b 62, tf_eflags = get32 b 64, tf_esp = get32 b 68, tf_ss = get16 b 72,
     tf_padding6 = get16 b 74\<rparr>"

abbreviation (input) TF_SIZE :: u32 where "TF_SIZE \<equiv> 76"
abbreviation (input) TF_ESP :: u32 where "TF_ESP \<equiv> 68"

definition sigret_code :: "u8 list" where
  "sigret_code = [0xb8, 0x18, 0, 0, 0, 0xcd, 0x40]"

definition upd_tf :: "nat \<Rightarrow> (trapframe \<Rightarrow> trapframe) \<Rightarrow> unit K" where
  "upd_tf p f = upd_proc p (\<lambda>q. q\<lparr>p_tf := f (p_tf q)\<rparr>)"

section \<open>Masks and handlers\<close>

definition sigprocmask :: "u32 \<Rightarrow> u32 K" where
  "sigprocmask sigmask =
     kbind curproc (\<lambda>p.
     kbind (kget (\<lambda>s. p_signalMask (ptable s p))) (\<lambda>oldMask.
     kbind curproc (\<lambda>p'.
     kseq (upd_proc p' (\<lambda>q. q\<lparr>p_signalMask := sigmask\<rparr>))
      (kret oldMask))))"

text \<open>\<open>act\<close> and \<open>oldact\<close> are user addresses of a \<open>struct sigaction\<close>: the handler and, four
  bytes further, the mask.\<close>

definition sigaction :: "nat \<Rightarrow> u32 \<Rightarrow> u32 \<Rightarrow> u32 K" where
  "sigaction signum act oldact =
     kbind curproc (\<lambda>p.
     kseq (if oldact \<noteq> 0 then
             kseq (kbind (kget (\<lambda>s. p_signalHandler (ptable s p) signum)) (vstore32 oldact))
              (kbind (kget (\<lambda>s. p_signalHandlerMasks (ptable s p) signum)) (vstore32 (oldact + 4)))
           else kret ())
     (kbind (vload32 act) (\<lambda>h.
      kseq (upd_proc p (\<lambda>q. q\<lparr>p_signalHandler := (p_signalHandler q)(signum := h)\<rparr>))
      (kbind (vload32 (act + 4)) (\<lambda>m.
       kseq (upd_proc p (\<lambda>q. q\<lparr>p_signalHandlerMasks := (p_signalHandlerMasks q)(signum := m)\<rparr>))
        (kret 0))))))"

section \<open>Delivery and return\<close>

definition sigret :: "unit K" where
  "sigret =
     kseq (kbind curproc (\<lambda>p. upd_proc p (\<lambda>q. q\<lparr>p_signalMask := p_signalMaskBU q\<rparr>)))
     (kbind curproc (\<lambda>p.
      kbind (kget (\<lambda>s. p_uTrapFrameBU (ptable s p))) (\<lambda>bu.
      kbind (vread bu (unat TF_SIZE)) (\<lambda>bs. upd_tf p (\<lambda>_. tf_of bs)))))"

text \<open>The branch of \<open>handle_signals\<close> for a handler in user space.\<close>

definition deliver_user :: "nat \<Rightarrow> nat \<Rightarrow> u32 \<Rightarrow> unit K" where
  "deliver_user p i espbu =
     kseq (upd_proc p (\<lambda>q. q\<lparr>p_signalMaskBU := p_signalMask q\<rparr>))
     (kseq (upd_proc p (\<lambda>q. q\<lparr>p_signalMask := p_signalHandlerMasks q i\<rparr>))
     (kseq (upd_tf p (\<lambda>t. t\<lparr>tf_esp := tf_esp t - TF_SIZE\<rparr>))
     (kseq (upd_proc p (\<lambda>q. q\<lparr>p_uTrapFrameBU := tf_esp (p_tf q)\<rparr>))
     (kseq (kbind (kget (\<lambda>s. ptable s p)) (\<lambda>q. vwrite (p_uTrapFrameBU q) (tf_bytes (p_tf q))))
     (kseq (kbind (kget (\<lambda>s. ptable s p)) (\<lambda>q. vstore32 (p_uTrapFrameBU q + TF_ESP) espbu))
     (kseq (upd_tf p (\<lambda>t. t\<lparr>tf_esp := tf_esp t - of_nat (length sigret_code)\<rparr>))
     (kseq (kbind (kget (\<lambda>s. tf_esp (p_tf (ptable s p)))) (\<lambda>sp. vwrite sp sigret_code))
     (kseq (kbind (kget (\<lambda>s. tf_esp (p_tf (ptable s p)))) (\<lambda>sp. vstore32 (sp - 4) (of_nat i)))
     (kseq (kbind (kget (\<lambda>s. tf_esp (p_tf (ptable s p)))) (\<lambda>sp. vstore32 (sp - 8) sp))
     (kseq (upd_tf p (\<lambda>t. t\<lparr>tf_esp := tf_esp t - 8\<rparr>))
     (kbind (kget (\<lambda>s. p_signalHandler (ptable s p) i)) (\<lambda>h.
      upd_tf p (\<lambda>t. t\<lparr>tf_eip := h\<rparr>)))))))))))))"

text \<open>One round of the loop of \<open>handle_signals\<close>; \<open>Some ()\<close> leaves the loop.\<close>

definition handle_signal :: "nat \<Rightarrow> nat \<Rightarrow> unit option K" where
  "handle_signal p i =
     kif (\<lambda>s. p_pendingSignals (ptable s p) = 0) (kret (Some ()))
     (kbind (kget (\<lambda>s. tf_esp (p_tf (ptable s p)))) (\<lambda>espbu.
      let blockable = (i \<noteq> SIGKILL \<and> i \<noteq> SIGSTOP) in
      kif (\<lambda>s. p_pendingSignals (ptable s p) AND sigbit i = 0) (kret None)
      (kif (\<lambda>s. p_signalMask (ptable s p) AND sigbit i \<noteq> 0 \<and> blockable) (kret None)
      (kif (\<lambda>s. p_signalHandler (ptable s p) i = SIG_IGN \<and> blockable) (kret None)
      (kseq (upd_proc p (\<lambda>q. q\<lparr>p_pendingSignals := p_pendingSignals q AND NOT (sigbit i)\<rparr>))
      (kif (\<lambda>s. p_signalHandler (ptable s p) i = of_nat SIGSTOP \<or> i = SIGSTOP)
        (kseq sh_sigstop (kret None))
      (kif (\<lambda>s. p_signalHandler (ptable s p) i = of_nat SIGCONT \<or>
              (i = SIGCONT \<and> p_signalHandler (ptable s p) i = SIG_DFL))
        (kseq sh_sigcont (kret None))
      (kif (\<lambda>s. p_signalHandler (ptable s p) i = of_nat SIGKILL \<or>
              p_signalHandler (ptable s p) i = SIG_DFL)
        (kseq sh_sigkill (kret None))
        (kseq (deliver_user p i espbu) (kret (Some ())))))))))))"

text \<open>\<open>handle_signals\<close> looks at the code segment of the frame that is about to be restored.\<close>

definition handle_signals :: "u16 \<Rightarrow> unit K" where
  "handle_signals cs =
     kbind myproc (\<lambda>pp. case pp of
       None \<Rightarrow> kret ()
     | Some p \<Rightarrow>
         if cs AND 3 \<noteq> DPL_USER then kret ()
         else kif (\<lambda>s. p_killed (ptable s p)) (kret ())
           (kseq (kfind 32 0 (handle_signal p)) (kret ())))"

section \<open>Writing a window\<close>

text \<open>\<open>filled m d lo n xs\<close>: the addresses from \<open>lo\<close> are a window with contents \<open>xs\<close>;
  \<open>wrote\<close> relates the memory before and after stores into it.\<close>

definition filled :: "memory \<Rightarrow> u32 \<Rightarrow> u32 \<Rightarrow> nat \<Rightarrow> u8 list \<Rightarrow> bool" where
  "filled m d lo n xs \<longleftrightarrow> window m d lo n \<and> wview m d lo n = xs"

definition wrote :: "memory \<Rightarrow> u32 \<Rightarrow> u32 \<Rightarrow> nat \<Rightarrow> memory \<Rightarrow> bool" where
  "wrote m d lo n m' \<longleftrightarrow> (\<forall>i < n. uphys m' d lo i = uphys m d lo i) \<and> same_outside m d lo n m'"

lemma wrote_refl [simp]: "wrote m d lo n m"
  by (simp add: wrote_def same_outside_def)

lemma wrote_trans [trans]: "wrote m d lo n m1 \<Longrightarrow> wrote m1 d lo n m2 \<Longrightarrow> wrote m d lo n m2"
  unfolding wrote_def same_outside_def by (auto simp: image_iff)

lemma filled_length: "filled m d lo n xs \<Longrightarrow> length xs = n"
  by (auto simp: filled_def)

lemma vwrite_filled:
  assumes "filled m d lo n xs" and "a = lo + of_nat off" and "off + length bs \<le> n"
  shows "\<exists>m'. vwrite_list d a bs m = Some m' \<and> filled m' d lo n (splice off bs xs) \<and> wrote m d lo n m'"
  using vwrite_window [of m d lo n off bs] assms by (auto simp: filled_def wrote_def)

lemma vwrite_app [simp]:
  "vwrite a bs s w = (case vwrite_list (cur_pgdir s) a bs (mem s) of
     Some m \<Rightarrow> Done () (s\<lparr>mem := m\<rparr>) w | None \<Rightarrow> Panic ''trap'')"
  by (simp add: vwrite_def split: option.split)

lemma vread_filled:
  assumes "filled (mem s) (cur_pgdir s) lo n xs" and "a = lo + of_nat off" and "off + k \<le> n"
  shows "vread a k s w = Done (slice off k xs) s w"
  using vread_window [of "mem s" "cur_pgdir s" lo n off k] assms
  by (simp add: vread_def filled_def)

section \<open>The frame on the user stack\<close>

lemma length_tf_bytes [simp]: "length (tf_bytes t) = 76"
  by (simp add: tf_bytes_def)

lemma tf_bytes_esp: "splice 68 (le32 e) (tf_bytes t) = tf_bytes (t\<lparr>tf_esp := e\<rparr>)"
  by (simp add: splice_def tf_bytes_def)

lemma tf_of_bytes [simp]: "tf_of (tf_bytes t) = t"
  by (simp add: tf_of_def tf_bytes_def get32_def get16_def slice_def)

text \<open>What delivery leaves below the old stack pointer: the return address, the signal
  number, the code that calls \<open>sigret\<close> and the saved trap frame.\<close>

definition sigframe :: "nat \<Rightarrow> trapframe \<Rightarrow> u8 list" where
  "sigframe i t = le32 (tf_esp t - 83) @ le32 (of_nat i) @ sigret_code @ tf_bytes t"

lemma length_sigframe [simp]: "length (sigframe i t) = 91"
  by (simp add: sigframe_def sigret_code_def)

definition delivered :: "nat \<Rightarrow> proc \<Rightarrow> proc" where
  "delivered i q = q\<lparr>p_signalMaskBU := p_signalMask q, p_signalMask := p_signalHandlerMasks q i,
     p_uTrapFrameBU := tf_esp (p_tf q) - 76,
     p_tf := (p_tf q)\<lparr>tf_esp := tf_esp (p_tf q) - 91, tf_eip := p_signalHandler q i\<rparr>\<rparr>"

lemma sigframe_splices:
  assumes "length xs = 91"
  shows "splice 0 (le32 (tf_esp t - 83)) (splice 4 (le32 (of_nat i)) (splice 8 sigret_code
    (splice 83 (le32 (tf_esp t)) (splice 15 (tf_bytes (t\<lparr>tf_esp := e\<rparr>)) xs)))) = sigframe i t"
proof -
  have "splice 83 (le32 (tf_esp t)) (splice 15 (tf_bytes (t\<lparr>tf_esp := e\<rparr>)) xs) =
      take 15 xs @ splice 68 (le32 (tf_esp t)) (tf_bytes (t\<lparr>tf_esp := e\<rparr>))"
    using assms by (simp add: splice_def)
  also have "\<dots> = take 15 xs @ tf_bytes t"
    by (simp add: tf_bytes_esp)
  finally show ?thesis
    using assms by (simp add: splice_def sigframe_def sigret_code_def)
qed

section \<open>Delivery\<close>

lemma deliver_user_exec:
  assumes win: "filled (mem s) (cur_pgdir s) (tf_esp (p_tf (ptable s p)) - 91) 91 xs"
  shows "\<exists>m'. deliver_user p i (tf_esp (p_tf (ptable s p))) s w =
      Done () (s\<lparr>mem := m', ptable := (ptable s)(p := delivered i (ptable s p))\<rparr>) w \<and>
    filled m' (cur_pgdir s) (tf_esp (p_tf (ptable s p)) - 91) 91 (sigframe i (p_tf (ptable s p))) \<and>
    wrote (mem s) (cur_pgdir s) (tf_esp (p_tf (ptable s p)) - 91) 91 m'"
proof -
  let ?t = "p_tf (ptable s p)" and ?d = "cur_pgdir s"
  let ?e = "tf_esp ?t" and ?f = "\<lambda>m xs. filled m ?d (tf_esp ?t - 91) 91 xs"
  have xs: "length xs = 91" using win by (rule filled_length)
  obtain m1 where m1: "vwrite_list ?d (?e - 76) (tf_bytes (?t\<lparr>tf_esp := ?e - 76\<rparr>)) (mem s) = Some m1"
      "?f m1 (splice 15 (tf_bytes (?t\<lparr>tf_esp := ?e - 76\<rparr>)) xs)" "wrote (mem s) ?d (?e - 91) 91 m1"
    using vwrite_filled [OF win, of "?e - 76" 15 "tf_bytes (?t\<lparr>tf_esp := ?e - 76\<rparr>)"] by auto
  obtain m2 where m2: "vwrite_list ?d (?e - 8) (le32 ?e) m1 = Some m2"
      "?f m2 (splice 83 (le32 ?e) (splice 15 (tf_bytes (?t\<lparr>tf_esp := ?e - 76\<rparr>)) xs))"
      "wrote m1 ?d (?e - 91) 91 m2"
    using vwrite_filled [OF m1(2), of "?e - 8" 83 "le32 ?e"] by auto
  obtain m3 where m3: "vwrite_list ?d (?e - 83) sigret_code m2 = Some m3"
      "?f m3 (splice 8 sigret_code (splice 83 (le32 ?e) (splice 15 (tf_bytes (?t\<lparr>tf_esp := ?e - 76\<rparr>)) xs)))"
      "wrote m2 ?d (?e - 91) 91 m3"
    using vwrite_filled [OF m2(2), of "?e - 83" 8 sigret_code] by (auto simp: sigret_code_def)
  obtain m4 where m4: "vwrite_list ?d (?e - 87) (le32 (of_nat i)) m3 = Some m4"
      "?f m4 (splice 4 (le32 (of_nat i)) (splice 8 sigret_code
        (splice 83 (le32 ?e) (splice 15 (tf_bytes (?t\<lparr>tf_esp := ?e - 76\<rparr>)) xs))))"
      "wrote m3 ?d (?e - 91) 91 m4"
    using vwrite_filled [OF m3(2), of "?e - 87" 4 "le32 (of_nat i)"] by auto
  obtain m5 where m5: "vwrite_list ?d (?e - 91) (le32 (?e - 83)) m4 = Some m5"
      "?f m5 (sigframe i ?t)" "wrote m4 ?d (?e - 91) 91 m5"
    using vwrite_filled [OF m4(2), of "?e - 91" 0 "le32 (?e - 83)"]
    by (auto simp: sigframe_splices [OF xs])
  have "wrote (mem s) ?d (?e - 91) 91 m5"
    using m1(3) m2(3) m3(3) m4(3) m5(3) by (blast intro: wrote_trans)
  moreover have "deliver_user p i ?e s w =
      Done () (s\<lparr>mem := m5, ptable := (ptable s)(p := delivered i (ptable s p))\<rparr>) w"
    using m1(1) m2(1) m3(1) m4(1) m5(1)
    by (simp add: deliver_user_def upd_tf_def vstore32_def sigret_code_def delivered_def)
  ultimately show ?thesis using m5(2) by blast
qed

text \<open>Signal \<open>j\<close> is left alone: it is not pending, or it is blockable and blocked or ignored.\<close>

definition left_alone :: "proc \<Rightarrow> nat \<Rightarrow> bool" where
  "left_alone q j \<longleftrightarrow> p_pendingSignals q AND sigbit j = 0 \<or>
     (j \<noteq> SIGKILL \<and> j \<noteq> SIGSTOP \<and>
      (p_signalMask q AND sigbit j \<noteq> 0 \<or> p_signalHandler q j = SIG_IGN))"

lemma handle_signal_left_alone:
  "p_pendingSignals (ptable s p) \<noteq> 0 \<Longrightarrow> left_alone (ptable s p) j \<Longrightarrow>
   handle_signal p j s w = Done None s w"
  unfolding left_alone_def by (elim disjE conjE; simp add: handle_signal_def Let_def)

lemma handle_signals_first:
  assumes "running c p s" and "cs AND 3 = DPL_USER" and "\<not> p_killed (ptable s p)"
    and "i < 32" and "p_pendingSignals (ptable s p) \<noteq> 0" and "\<forall>j < i. left_alone (ptable s p) j"
  shows "handle_signals cs s w =
    (case kfind (32 - i) i (handle_signal p) s w of
       Done _ t v \<Rightarrow> Done () t v | Panic m \<Rightarrow> Panic m | Stuck t \<Rightarrow> Stuck t)"
proof -
  have "kfind (i + (32 - i)) 0 (handle_signal p) s w = kfind (32 - i) (0 + i) (handle_signal p) s w"
    using assms by (intro kfind_skip) (simp add: handle_signal_left_alone)
  then show ?thesis
    using assms by (simp add: handle_signals_def exec_simps split: outcome.split)
qed

text \<open>A handler that is a user function: none of the values with a built-in meaning.\<close>

definition user_handler :: "u32 \<Rightarrow> bool" where
  "user_handler h \<longleftrightarrow> h \<notin> {SIG_DFL, SIG_IGN, of_nat SIGKILL, of_nat SIGSTOP, of_nat SIGCONT}"

definition taken :: "nat \<Rightarrow> proc \<Rightarrow> proc" where
  "taken i q = q\<lparr>p_pendingSignals := p_pendingSignals q AND NOT (sigbit i)\<rparr>"

text \<open>A signal that is not left alone has its pending bit cleared and is then acted upon.\<close>

lemma handle_signal_acts:
  assumes "\<not> left_alone (ptable s p) i"
  shows "handle_signal p i s w =
    (let h = p_signalHandler (ptable s p) i;
         s1 = s\<lparr>ptable := (ptable s)(p := taken i (ptable s p))\<rparr> in
     if h = of_nat SIGSTOP \<or> i = SIGSTOP then kseq sh_sigstop (kret None) s1 w
     else if h = of_nat SIGCONT \<or> i = SIGCONT \<and> h = SIG_DFL then kseq sh_sigcont (kret None) s1 w
     else if h = of_nat SIGKILL \<or> h = SIG_DFL then kseq sh_sigkill (kret None) s1 w
     else kseq (deliver_user p i (tf_esp (p_tf (ptable s p)))) (kret (Some ())) s1 w)"
proof -
  have a: "\<not> p_pendingSignals (ptable s p) AND sigbit i = 0"
    and b: "\<not> (p_signalMask (ptable s p) AND sigbit i \<noteq> 0 \<and> (i \<noteq> SIGKILL \<and> i \<noteq> SIGSTOP))"
    and c: "\<not> (p_signalHandler (ptable s p) i = SIG_IGN \<and> (i \<noteq> SIGKILL \<and> i \<noteq> SIGSTOP))"
    using assms unfolding left_alone_def by blast+
  have d: "\<not> p_pendingSignals (ptable s p) = 0"
    using a by (metis word_bw_lcs(1) and_zero_eq zero_and_eq)
  define s1 where "s1 = s\<lparr>ptable := (ptable s)(p := taken i (ptable s p))\<rparr>"
  have s1: "s\<lparr>ptable := (ptable s)(p := ptable s p\<lparr>p_pendingSignals :=
      p_pendingSignals (ptable s p) AND NOT (sigbit i)\<rparr>)\<rparr> = s1"
    by (simp add: s1_def taken_def)
  have h: "p_signalHandler (ptable s1 p) i = p_signalHandler (ptable s p) i"
    by (simp add: s1_def taken_def)
  show ?thesis
    by (simp only: handle_signal_def kif_app kbind_app kget_app outcome.case Let_def a b c d
        if_False kseq_app upd_proc_app s1 h s1_def [symmetric])
qed

lemma handle_signal_user:
  assumes "\<not> left_alone (ptable s p) i"
    and "user_handler (p_signalHandler (ptable s p) i)" and "i \<noteq> SIGSTOP"
    and "filled (mem s) (cur_pgdir s) (tf_esp (p_tf (ptable s p)) - 91) 91 xs"
  shows "\<exists>m'. handle_signal p i s w =
      Done (Some ()) (s\<lparr>mem := m', ptable := (ptable s)(p := delivered i (taken i (ptable s p)))\<rparr>) w \<and>
    filled m' (cur_pgdir s) (tf_esp (p_tf (ptable s p)) - 91) 91 (sigframe i (p_tf (ptable s p))) \<and>
    wrote (mem s) (cur_pgdir s) (tf_esp (p_tf (ptable s p)) - 91) 91 m'"
proof -
  define q where "q = ptable s p"
  define s1 where "s1 = s\<lparr>ptable := (ptable s)(p := taken i q)\<rparr>"
  have s1: "ptable s1 p = taken i q" "mem s1 = mem s" "cur_pgdir s1 = cur_pgdir s"
    by (simp_all add: s1_def)
  have tf: "p_tf (taken i q) = p_tf q" by (simp add: taken_def)
  obtain m' where m': "deliver_user p i (tf_esp (p_tf q)) s1 w =
      Done () (s1\<lparr>mem := m', ptable := (ptable s1)(p := delivered i (taken i q))\<rparr>) w"
    "filled m' (cur_pgdir s) (tf_esp (p_tf q) - 91) 91 (sigframe i (p_tf q))"
    "wrote (mem s) (cur_pgdir s) (tf_esp (p_tf q) - 91) 91 m'"
    using deliver_user_exec [of s1 p xs i w] assms(4) unfolding s1 tf q_def [symmetric] by blast
  have "handle_signal p i s w = kseq (deliver_user p i (tf_esp (p_tf q))) (kret (Some ())) s1 w"
    using assms(2,3) handle_signal_acts [OF assms(1), of w]
    by (simp add: Let_def user_handler_def q_def s1_def del: kseq_app)
  also have "\<dots> = Done (Some ()) (s\<lparr>mem := m', ptable := (ptable s)(p := delivered i (taken i q))\<rparr>) w"
    using m'(1) by (simp add: s1_def)
  finally show ?thesis using m'(2,3) unfolding q_def by blast
qed

end
