(* ===== verification/Syscall_Args.thy ===== *)
theory Syscall_Args
  imports Proc_Sched
begin

text \<open>
  The argument fetching of \<^verbatim>\<open>syscall.c\<close>. The results that the code stores through pointers
  are part of the returned value, \<open>None\<close> standing for the return value -1. \<open>fetchstr\<close> returns
  the bytes of the string its result points at.
\<close>

definition fetchint :: "u32 \<Rightarrow> u32 option K" where
  "fetchint addr =
     kbind curproc (\<lambda>p.
     kif (\<lambda>s. addr \<ge> p_sz (ptable s p) \<or> addr + 4 > p_sz (ptable s p)) (kret None)
     (kbind (vload32 addr) (\<lambda>v. kret (Some v))))"

text \<open>The scan of \<open>fetchstr\<close> from \<open>a\<close> up to the end \<open>ep\<close> of the process.\<close>

primrec fetchstr_loop :: "nat \<Rightarrow> u32 \<Rightarrow> u8 list \<Rightarrow> u8 list option K" where
  "fetchstr_loop 0 a acc = kret None"
| "fetchstr_loop (Suc n) a acc =
     kbind (vread a 1) (\<lambda>bs.
     if hd bs = 0 then kret (Some acc)
     else fetchstr_loop n (a + 1) (acc @ [hd bs]))"

definition fetchstr :: "u32 \<Rightarrow> u8 list option K" where
  "fetchstr addr =
     kbind curproc (\<lambda>p.
     kbind (kget (\<lambda>s. p_sz (ptable s p))) (\<lambda>sz.
     if addr \<ge> sz then kret None
     else fetchstr_loop (unat (sz - addr)) addr []))"

definition argint :: "nat \<Rightarrow> u32 option K" where
  "argint n =
     kbind curproc (\<lambda>p.
     kbind (kget (\<lambda>s. tf_esp (p_tf (ptable s p)) + 4 + 4 * of_nat n)) fetchint)"

definition argptr :: "nat \<Rightarrow> u32 \<Rightarrow> u32 option K" where
  "argptr n sz =
     kbind curproc (\<lambda>p.
     kbind (argint n) (\<lambda>r. case r of
       None \<Rightarrow> kret None
     | Some i \<Rightarrow>
         kif (\<lambda>s. sint sz < 0 \<or> i \<ge> p_sz (ptable s p) \<or> i + sz > p_sz (ptable s p)) (kret None)
         (kret (Some i))))"

definition argstr :: "nat \<Rightarrow> u8 list option K" where
  "argstr n =
     kbind (argint n) (\<lambda>r. case r of
       None \<Rightarrow> kret None
     | Some addr \<Rightarrow> fetchstr addr)"

end
