(* ===== verification/Sysproc.thy ===== *)
theory Sysproc
  imports Proc_Life Signals Syscall_Args
begin

text \<open>
  \<^verbatim>\<open>sysproc.c\<close>: the process and signal system calls. In \<open>sys_sigaction\<close> the expression
  \<open>sizeof(*sigaction)\<close> names the function \<open>sigaction\<close>, not the structure: its value is 1.
\<close>

definition sys_fork :: "u32 K" where
  "sys_fork = fork"

definition sys_exit :: "u32 K" where
  "sys_exit = kseq exit (kret 0)"

definition sys_wait :: "u32 K" where
  "sys_wait = wait"

definition sys_kill :: "u32 K" where
  "sys_kill =
     kbind (argint 0) (\<lambda>r. case r of None \<Rightarrow> kret minus1 | Some pid \<Rightarrow>
     kbind (argint 1) (\<lambda>r2. case r2 of None \<Rightarrow> kret minus1 | Some signum \<Rightarrow>
     kill pid signum))"

definition sys_getpid :: "u32 K" where
  "sys_getpid = kbind curproc (\<lambda>p. kget (\<lambda>s. p_pid (ptable s p)))"

definition sys_sbrk :: "u32 K" where
  "sys_sbrk =
     kbind (argint 0) (\<lambda>r. case r of None \<Rightarrow> kret minus1 | Some n \<Rightarrow>
     kbind curproc (\<lambda>p.
     kbind (kget (\<lambda>s. p_sz (ptable s p))) (\<lambda>addr.
     kbind (growproc n) (\<lambda>g.
     if sint g < 0 then kret minus1 else kret addr))))"

definition sys_sleep :: "u32 K" where
  "sys_sleep =
     kbind (argint 0) (\<lambda>r. case r of None \<Rightarrow> kret minus1 | Some n \<Rightarrow>
     kseq (acquire L_ticks)
     (kbind (kget ticks) (\<lambda>ticks0.
      kseq (kwhile (\<lambda>s. ticks s - ticks0 < n \<and> \<not> cur_killed s) (sleep Ch_ticks (Some L_ticks)))
      (kbind (kget (\<lambda>s. ticks s - ticks0 < n)) (\<lambda>killed.
       kseq (release L_ticks)
        (kret (if killed then minus1 else 0)))))))"

definition sys_uptime :: "u32 K" where
  "sys_uptime =
     kseq (acquire L_ticks)
     (kbind (kget ticks) (\<lambda>xticks.
      kseq (release L_ticks)
       (kret xticks)))"

definition sys_sigprocmask :: "u32 K" where
  "sys_sigprocmask =
     kbind (argint 0) (\<lambda>r. case r of None \<Rightarrow> kret minus1 | Some sigmask \<Rightarrow> sigprocmask sigmask)"

definition sys_sigaction :: "u32 K" where
  "sys_sigaction =
     kbind (argint 0) (\<lambda>r. case r of None \<Rightarrow> kret minus1 | Some signum \<Rightarrow>
     if signum = of_nat SIGKILL \<or> signum = of_nat SIGSTOP \<or> sint signum < 0 \<or>
        sint signum \<ge> int SIGNAL_HANDLERS_SIZE then kret minus1
     else kbind (argptr 1 1) (\<lambda>r1. case r1 of None \<Rightarrow> kret minus1 | Some act \<Rightarrow>
       kbind (argptr 2 1) (\<lambda>r2. case r2 of None \<Rightarrow> kret minus1 | Some oldact \<Rightarrow>
       sigaction (unat signum) act oldact)))"

definition sys_sigret :: "u32 K" where
  "sys_sigret = kseq sigret (kret 0)"

end
