(* ===== verification/Exec.thy ===== *)
theory Exec
  imports Proc_Life
begin

text \<open>
  \<^verbatim>\<open>exec.c\<close> and \<open>loaduvm\<close> of \<^verbatim>\<open>vm.c\<close>. The path and the argument strings are the bytes the
  user pointers lead to.
\<close>

primrec loaduvm_loop :: "nat \<Rightarrow> u32 \<Rightarrow> u32 \<Rightarrow> nat \<Rightarrow> u32 \<Rightarrow> u32 \<Rightarrow> u32 \<Rightarrow> u32 K" where
  "loaduvm_loop 0 pgdir addr ip offset i sz = (\<lambda>s w. Stuck s)"
| "loaduvm_loop (Suc k) pgdir addr ip offset i sz =
     (if \<not> i < sz then kret 0
      else kbind (walkpgdir pgdir (addr + i) False) (\<lambda>pte.
        if pte = 0 then kpanic ''loaduvm: address should exist''
        else kbind (kload32 pte) (\<lambda>v.
          let n = (if sz - i < PGSIZE then sz - i else PGSIZE) in
          kbind (readi ip (Mem (P2V (PTE_ADDR v))) (offset + i) n) (\<lambda>(r, _).
          if r \<noteq> n then kret minus1
          else loaduvm_loop k pgdir addr ip offset (i + PGSIZE) sz))))"

definition loaduvm :: "u32 \<Rightarrow> u32 \<Rightarrow> nat \<Rightarrow> u32 \<Rightarrow> u32 \<Rightarrow> u32 K" where
  "loaduvm pgdir addr ip offset sz =
     (if addr mod PGSIZE \<noteq> 0 then kpanic ''loaduvm: addr must be page aligned''
      else loaduvm_loop (unat sz div 4096 + 2) pgdir addr ip offset 0 sz)"

text \<open>Reading a structure of \<open>n\<close> bytes from the file: \<open>None\<close> when the read is short.\<close>

definition read_struct :: "nat \<Rightarrow> u32 \<Rightarrow> nat \<Rightarrow> u8 list option K" where
  "read_struct ip off n =
     kbind (readi ip (Local (replicate n 0)) off (of_nat n)) (\<lambda>(r, b).
     if r \<noteq> of_nat n then kret None
     else case b of Local bs \<Rightarrow> kret (Some bs) | Mem _ \<Rightarrow> kret None)"

text \<open>Fields of \<open>struct elfhdr\<close> (52 bytes) and \<open>struct proghdr\<close> (32 bytes).\<close>

definition elf_magic :: "u8 list \<Rightarrow> u32" where "elf_magic h = get32 h 0"
definition elf_entry :: "u8 list \<Rightarrow> u32" where "elf_entry h = get32 h 24"
definition elf_phoff :: "u8 list \<Rightarrow> u32" where "elf_phoff h = get32 h 28"
definition elf_phnum :: "u8 list \<Rightarrow> u16" where "elf_phnum h = get16 h 44"
definition ph_type :: "u8 list \<Rightarrow> u32" where "ph_type h = get32 h 0"
definition ph_off :: "u8 list \<Rightarrow> u32" where "ph_off h = get32 h 4"
definition ph_vaddr :: "u8 list \<Rightarrow> u32" where "ph_vaddr h = get32 h 8"
definition ph_filesz :: "u8 list \<Rightarrow> u32" where "ph_filesz h = get32 h 16"
definition ph_memsz :: "u8 list \<Rightarrow> u32" where "ph_memsz h = get32 h 20"

text \<open>The program header loop: \<open>None\<close> for a jump to \<open>bad\<close>, otherwise the new size.\<close>

primrec exec_load :: "nat \<Rightarrow> nat \<Rightarrow> u32 \<Rightarrow> u32 \<Rightarrow> u32 \<Rightarrow> u32 option K" where
  "exec_load 0 ip pgdir off sz = kret (Some sz)"
| "exec_load (Suc k) ip pgdir off sz =
     kbind (read_struct ip off 32) (\<lambda>r. case r of
       None \<Rightarrow> kret None
     | Some ph \<Rightarrow>
         if ph_type ph \<noteq> 1 then exec_load k ip pgdir (off + 32) sz
         else if ph_memsz ph < ph_filesz ph then kret None
         else if ph_vaddr ph + ph_memsz ph < ph_vaddr ph then kret None
         else kbind (allocuvm pgdir sz (ph_vaddr ph + ph_memsz ph)) (\<lambda>sz'.
           if sz' = 0 then kret None
           else if ph_vaddr ph mod PGSIZE \<noteq> 0 then kret None
           else kbind (loaduvm pgdir (ph_vaddr ph) ip (ph_off ph) (ph_filesz ph)) (\<lambda>l.
             if sint l < 0 then kret None
             else exec_load k ip pgdir (off + 32) sz')))"

text \<open>Pushing the argument strings: \<open>None\<close> for \<open>bad\<close>, otherwise the stack pointer and the
  addresses of the strings. At most \<open>MAXARG\<close> strings are pushed.\<close>

primrec exec_args :: "u8 list list \<Rightarrow> u32 \<Rightarrow> u32 \<Rightarrow> u32 list \<Rightarrow> (u32 \<times> u32 list) option K" where
  "exec_args [] pgdir sp us = kret (Some (sp, us))"
| "exec_args (arg # args) pgdir sp us =
     (if length us \<ge> MAXARG then kret None
      else let sp' = (sp - (of_nat (length arg) + 1)) AND NOT 3 in
        kbind (copyout pgdir sp' (arg @ [0])) (\<lambda>r.
        if sint r < 0 then kret None
        else exec_args args pgdir sp' (us @ [sp'])))"

definition exec_ustack :: "u32 \<Rightarrow> u32 list \<Rightarrow> u32 list" where
  "exec_ustack sp us =
     (let argc = of_nat (length us) in
      [0xffffffff, argc, sp - (argc + 1) * 4] @ us @ [0])"

definition path_last :: "u8 list \<Rightarrow> u8 list" where
  "path_last path = rev (takeWhile (\<lambda>c. c \<noteq> 47) (rev path))"

definition exec_handlers :: "proc \<Rightarrow> proc" where
  "exec_handlers q = q\<lparr>p_signalHandler := (\<lambda>i.
     if i < SIGNAL_HANDLERS_SIZE \<and> p_signalHandler q i \<noteq> SIG_IGN \<and> p_signalHandler q i \<noteq> SIG_DFL
     then SIG_DFL else p_signalHandler q i)\<rparr>"

text \<open>The label \<open>bad\<close>; \<open>ip\<close> is \<open>None\<close> once the inode has been released.\<close>

definition exec_bad :: "u32 \<Rightarrow> nat option \<Rightarrow> u32 K" where
  "exec_bad pgdir ip =
     kseq (if pgdir \<noteq> 0 then freevm pgdir else kret ())
     (kseq (case ip of Some i \<Rightarrow> kseq (iunlockput i) end_op | None \<Rightarrow> kret ())
      (kret minus1))"

text \<open>From the new image on: the stack, the arguments and the switch to the new image.\<close>

definition exec_commit :: "nat \<Rightarrow> u8 list \<Rightarrow> u32 \<Rightarrow> u32 \<Rightarrow> u32 \<Rightarrow> u32 \<Rightarrow> u32 K" where
  "exec_commit p path pgdir sz sp entry =
     kseq (upd_proc p (\<lambda>q. q\<lparr>p_name := safestrcpy (p_name q) (of_list (path_last path)) 16\<rparr>))
     (kbind (kget (\<lambda>s. p_pgdir (ptable s p))) (\<lambda>oldpgdir.
      kseq (upd_proc p (\<lambda>q. q\<lparr>p_pgdir := pgdir, p_sz := sz,
                p_tf := (p_tf q)\<lparr>tf_eip := entry, tf_esp := sp\<rparr>\<rparr>))
      (kseq (upd_proc p exec_handlers)
      (kseq (switchuvm (Some p))
      (kseq (freevm oldpgdir)
       (kret 0))))))"

definition exec_stack :: "nat \<Rightarrow> u8 list \<Rightarrow> u8 list list \<Rightarrow> u32 \<Rightarrow> u32 \<Rightarrow> u32 \<Rightarrow> u32 K" where
  "exec_stack p path argv pgdir sz0 entry =
     kbind (allocuvm pgdir (PGROUNDUP sz0) (PGROUNDUP sz0 + 2 * PGSIZE)) (\<lambda>sz.
     if sz = 0 then exec_bad pgdir None
     else kseq (clearpteu pgdir (sz - 2 * PGSIZE))
       (kbind (exec_args argv pgdir sz []) (\<lambda>r. case r of
          None \<Rightarrow> exec_bad pgdir None
        | Some (sp, us) \<Rightarrow>
            let us' = exec_ustack sp us; sp' = sp - (3 + of_nat (length us) + 1) * 4 in
            kbind (copyout pgdir sp' (concat (map le32 us'))) (\<lambda>r2.
            if sint r2 < 0 then exec_bad pgdir None
            else exec_commit p path pgdir sz sp' entry))))"

definition exec :: "u8 list \<Rightarrow> u8 list list \<Rightarrow> u32 K" where
  "exec path argv =
     kbind curproc (\<lambda>p.
     kseq begin_op
     (kbind (namei path) (\<lambda>r. case r of
        None \<Rightarrow> kseq end_op (kseq (cprintf ''exec: fail\<newline>'' []) (kret minus1))
      | Some ip \<Rightarrow>
          kseq (ilock ip)
          (kbind (read_struct ip 0 52) (\<lambda>h. case h of
             None \<Rightarrow> exec_bad 0 (Some ip)
           | Some elf \<Rightarrow>
               if elf_magic elf \<noteq> 0x464C457F then exec_bad 0 (Some ip)
               else kbind setupkvm (\<lambda>pgdir.
                 if pgdir = 0 then exec_bad 0 (Some ip)
                 else kbind (exec_load (unat (elf_phnum elf)) ip pgdir (elf_phoff elf) 0) (\<lambda>l.
                   case l of
                     None \<Rightarrow> exec_bad pgdir (Some ip)
                   | Some sz \<Rightarrow>
                       kseq (iunlockput ip)
                       (kseq end_op
                        (exec_stack p path argv pgdir sz (elf_entry elf))))))))))"

end
