(* ===== verification/Sysfile.thy ===== *)
theory Sysfile
  imports Exec Syscall_Args
begin

text \<open>\<^verbatim>\<open>sysfile.c\<close>: the file system calls.\<close>

section \<open>Descriptors\<close>

definition argfd :: "nat \<Rightarrow> (nat \<times> nat) option K" where
  "argfd n =
     kbind (argint n) (\<lambda>r. case r of None \<Rightarrow> kret None | Some fd \<Rightarrow>
     if sint fd < 0 \<or> sint fd \<ge> int NOFILE then kret None
     else kbind curproc (\<lambda>p.
       kbind (kget (\<lambda>s. p_ofile (ptable s p) (unat fd))) (\<lambda>f. case f of
         None \<Rightarrow> kret None
       | Some g \<Rightarrow> kret (Some (unat fd, g)))))"

definition fdalloc :: "nat \<Rightarrow> nat option K" where
  "fdalloc f =
     kbind curproc (\<lambda>p.
     kbind (kget (\<lambda>s. find (\<lambda>fd. p_ofile (ptable s p) fd = None) [0..<NOFILE])) (\<lambda>r. case r of
       None \<Rightarrow> kret None
     | Some fd \<Rightarrow>
         kseq (upd_proc p (\<lambda>q. q\<lparr>p_ofile := (p_ofile q)(fd := Some f)\<rparr>))
          (kret (Some fd))))"

definition sys_dup :: "u32 K" where
  "sys_dup =
     kbind (argfd 0) (\<lambda>r. case r of None \<Rightarrow> kret minus1 | Some (_, f) \<Rightarrow>
     kbind (fdalloc f) (\<lambda>r2. case r2 of None \<Rightarrow> kret minus1 | Some fd \<Rightarrow>
     kseq (filedup f) (kret (of_nat fd))))"

definition sys_read :: "u32 K" where
  "sys_read =
     kbind (argfd 0) (\<lambda>r. case r of None \<Rightarrow> kret minus1 | Some (_, f) \<Rightarrow>
     kbind (argint 2) (\<lambda>r2. case r2 of None \<Rightarrow> kret minus1 | Some n \<Rightarrow>
     kbind (argptr 1 n) (\<lambda>r3. case r3 of None \<Rightarrow> kret minus1 | Some a \<Rightarrow>
     fileread f a n)))"

definition sys_write :: "u32 K" where
  "sys_write =
     kbind (argfd 0) (\<lambda>r. case r of None \<Rightarrow> kret minus1 | Some (_, f) \<Rightarrow>
     kbind (argint 2) (\<lambda>r2. case r2 of None \<Rightarrow> kret minus1 | Some n \<Rightarrow>
     kbind (argptr 1 n) (\<lambda>r3. case r3 of None \<Rightarrow> kret minus1 | Some a \<Rightarrow>
     filewrite f a n)))"

definition sys_close :: "u32 K" where
  "sys_close =
     kbind (argfd 0) (\<lambda>r. case r of None \<Rightarrow> kret minus1 | Some (fd, f) \<Rightarrow>
     kseq (kbind curproc (\<lambda>p. upd_proc p (\<lambda>q. q\<lparr>p_ofile := (p_ofile q)(fd := None)\<rparr>)))
     (kseq (fileclose f)
      (kret 0)))"

definition sys_fstat :: "u32 K" where
  "sys_fstat =
     kbind (argfd 0) (\<lambda>r. case r of None \<Rightarrow> kret minus1 | Some (_, f) \<Rightarrow>
     kbind (argptr 1 20) (\<lambda>r2. case r2 of None \<Rightarrow> kret minus1 | Some st \<Rightarrow>
     filestat f st))"

section \<open>Directory operations\<close>

definition add_nlink :: "nat \<Rightarrow> u16 \<Rightarrow> unit K" where
  "add_nlink ip d = upd_inode ip (\<lambda>q. q\<lparr>ip_nlink := ip_nlink q + d\<rparr>)"

definition link_bad :: "nat \<Rightarrow> u32 K" where
  "link_bad ip =
     kseq (ilock ip)
     (kseq (add_nlink ip (- 1))
     (kseq (iupdate ip)
     (kseq (iunlockput ip)
     (kseq end_op
      (kret minus1)))))"

definition sys_link :: "u32 K" where
  "sys_link =
     kbind (argstr 0) (\<lambda>r. case r of None \<Rightarrow> kret minus1 | Some old \<Rightarrow>
     kbind (argstr 1) (\<lambda>r1. case r1 of None \<Rightarrow> kret minus1 | Some new \<Rightarrow>
     kseq begin_op
     (kbind (namei old) (\<lambda>r2. case r2 of None \<Rightarrow> kseq end_op (kret minus1) | Some ip \<Rightarrow>
      kseq (ilock ip)
      (kif (\<lambda>s. ip_type (icache s ip) = T_DIR)
        (kseq (iunlockput ip) (kseq end_op (kret minus1)))
      (kseq (add_nlink ip 1)
      (kseq (iupdate ip)
      (kseq (iunlock ip)
      (kbind (nameiparent new) (\<lambda>r3. case r3 of None \<Rightarrow> link_bad ip | Some (dp, name) \<Rightarrow>
       kseq (ilock dp)
       (kbind (kif (\<lambda>s. ip_dev (icache s dp) \<noteq> ip_dev (icache s ip)) (kret minus1)
                (kbind (kget (\<lambda>s. ip_inum (icache s ip))) (dirlink dp name))) (\<lambda>v.
        if sint v < 0 then kseq (iunlockput dp) (link_bad ip)
        else
          kseq (iunlockput dp)
          (kseq (iput ip)
          (kseq end_op
           (kret 0)))))))))))))))"

primrec isdirempty_loop :: "nat \<Rightarrow> nat \<Rightarrow> u32 \<Rightarrow> bool K" where
  "isdirempty_loop 0 dp off = (\<lambda>s w. Stuck s)"
| "isdirempty_loop (Suc k) dp off =
     kif (\<lambda>s. \<not> off < ip_size (icache s dp)) (kret True)
     (kbind (read_dirent dp off ''isdirempty: readi'') (\<lambda>de.
      if de_inum de \<noteq> 0 then kret False else isdirempty_loop k dp (off + 16)))"

definition isdirempty :: "nat \<Rightarrow> bool K" where
  "isdirempty dp =
     kbind (kget (\<lambda>s. unat (ip_size (icache s dp)) div 16)) (\<lambda>k. isdirempty_loop (k + 2) dp 32)"

definition unlink_bad :: "nat \<Rightarrow> u32 K" where
  "unlink_bad dp = kseq (iunlockput dp) (kseq end_op (kret minus1))"

definition unlink_entry :: "nat \<Rightarrow> nat \<Rightarrow> u32 \<Rightarrow> u32 K" where
  "unlink_entry dp ip off =
     kbind (writei dp (Local (replicate 16 0)) off 16) (\<lambda>n.
     if n \<noteq> 16 then kpanic ''unlink: writei''
     else
       kseq (kif (\<lambda>s. ip_type (icache s ip) = T_DIR)
              (kseq (add_nlink dp (- 1)) (iupdate dp)) (kret ()))
       (kseq (iunlockput dp)
       (kseq (add_nlink ip (- 1))
       (kseq (iupdate ip)
       (kseq (iunlockput ip)
       (kseq end_op
        (kret 0)))))))"

definition sys_unlink :: "u32 K" where
  "sys_unlink =
     kbind (argstr 0) (\<lambda>r. case r of None \<Rightarrow> kret minus1 | Some path \<Rightarrow>
     kseq begin_op
     (kbind (nameiparent path) (\<lambda>r1. case r1 of None \<Rightarrow> kseq end_op (kret minus1) | Some (dp, name) \<Rightarrow>
      kseq (ilock dp)
      (if namecmp name [46] = 0 \<or> namecmp name [46, 46] = 0 then unlink_bad dp
       else kbind (dirlookup dp name) (\<lambda>r2. case r2 of None \<Rightarrow> unlink_bad dp | Some (ip, off) \<Rightarrow>
         kseq (ilock ip)
         (kif (\<lambda>s. sint (ip_nlink (icache s ip)) < 1) (kpanic ''unlink: nlink < 1'')
         (kbind (kif (\<lambda>s. ip_type (icache s ip) = T_DIR)
                  (kbind (isdirempty ip) (\<lambda>e. kret (\<not> e))) (kret False)) (\<lambda>full.
          if full then kseq (iunlockput ip) (unlink_bad dp)
          else unlink_entry dp ip off))))))))"

definition create_new :: "nat \<Rightarrow> u8 list \<Rightarrow> u16 \<Rightarrow> u16 \<Rightarrow> u16 \<Rightarrow> nat K" where
  "create_new dp name type major minor =
     kbind (kget (\<lambda>s. ip_dev (icache s dp))) (\<lambda>dev.
     kbind (ialloc dev type) (\<lambda>ip.
     kseq (ilock ip)
     (kseq (upd_inode ip (\<lambda>q. q\<lparr>ip_major := major, ip_minor := minor, ip_nlink := 1\<rparr>))
     (kseq (iupdate ip)
     (kseq (if type = T_DIR then
              kseq (add_nlink dp 1)
              (kseq (iupdate dp)
              (kbind (kbind (kget (\<lambda>s. ip_inum (icache s ip))) (dirlink ip [46])) (\<lambda>r.
               if sint r < 0 then kpanic ''create dots''
               else kbind (kbind (kget (\<lambda>s. ip_inum (icache s dp))) (dirlink ip [46, 46])) (\<lambda>r2.
                 if sint r2 < 0 then kpanic ''create dots'' else kret ()))))
            else kret ())
     (kbind (kbind (kget (\<lambda>s. ip_inum (icache s ip))) (dirlink dp name)) (\<lambda>r.
      if sint r < 0 then kpanic ''create: dirlink''
      else kseq (iunlockput dp) (kret ip))))))))"

definition create :: "u8 list \<Rightarrow> u16 \<Rightarrow> u16 \<Rightarrow> u16 \<Rightarrow> nat option K" where
  "create path type major minor =
     kbind (nameiparent path) (\<lambda>r. case r of None \<Rightarrow> kret None | Some (dp, name) \<Rightarrow>
     kseq (ilock dp)
     (kbind (dirlookup dp name) (\<lambda>r1. case r1 of
        Some (ip, _) \<Rightarrow>
          kseq (iunlockput dp)
          (kseq (ilock ip)
          (kif (\<lambda>s. type = T_FILE \<and> ip_type (icache s ip) = T_FILE) (kret (Some ip))
           (kseq (iunlockput ip) (kret None))))
      | None \<Rightarrow> kbind (create_new dp name type major minor) (\<lambda>ip. kret (Some ip)))))"

text \<open>\<open>O_WRONLY\<close> is 1, \<open>O_RDWR\<close> 2, \<open>O_CREATE\<close> 0x200.\<close>

definition open_inode :: "u8 list \<Rightarrow> u32 \<Rightarrow> nat option K" where
  "open_inode path omode =
     (if omode AND 0x200 \<noteq> 0 then create path T_FILE 0 0
      else kbind (namei path) (\<lambda>r. case r of None \<Rightarrow> kret None | Some ip \<Rightarrow>
        kseq (ilock ip)
        (kif (\<lambda>s. ip_type (icache s ip) = T_DIR \<and> omode \<noteq> 0)
          (kseq (iunlockput ip) (kret None))
          (kret (Some ip)))))"

definition sys_open :: "u32 K" where
  "sys_open =
     kbind (argstr 0) (\<lambda>r. case r of None \<Rightarrow> kret minus1 | Some path \<Rightarrow>
     kbind (argint 1) (\<lambda>r1. case r1 of None \<Rightarrow> kret minus1 | Some omode \<Rightarrow>
     kseq begin_op
     (kbind (open_inode path omode) (\<lambda>r2. case r2 of None \<Rightarrow> kseq end_op (kret minus1) | Some ip \<Rightarrow>
      kbind filealloc (\<lambda>ff. case ff of
        None \<Rightarrow> kseq (iunlockput ip) (kseq end_op (kret minus1))
      | Some f \<Rightarrow> kbind (fdalloc f) (\<lambda>d. case d of
          None \<Rightarrow> kseq (fileclose f) (kseq (iunlockput ip) (kseq end_op (kret minus1)))
        | Some fd \<Rightarrow>
            kseq (iunlock ip)
            (kseq end_op
            (kseq (upd_file f (\<lambda>q. q\<lparr>f_type := FD_INODE, f_ip := ip, f_off := 0,
                     f_readable := (omode AND 1 = 0),
                     f_writable := (omode AND 1 \<noteq> 0 \<or> omode AND 2 \<noteq> 0)\<rparr>))
             (kret (of_nat fd))))))))))"

definition sys_mkdir :: "u32 K" where
  "sys_mkdir =
     kseq begin_op
     (kbind (argstr 0) (\<lambda>r. case r of None \<Rightarrow> kseq end_op (kret minus1) | Some path \<Rightarrow>
      kbind (create path T_DIR 0 0) (\<lambda>r1. case r1 of None \<Rightarrow> kseq end_op (kret minus1) | Some ip \<Rightarrow>
      kseq (iunlockput ip)
      (kseq end_op
       (kret 0)))))"

definition sys_mknod :: "u32 K" where
  "sys_mknod =
     kseq begin_op
     (kbind (argstr 0) (\<lambda>r. case r of None \<Rightarrow> kseq end_op (kret minus1) | Some path \<Rightarrow>
      kbind (argint 1) (\<lambda>r1. case r1 of None \<Rightarrow> kseq end_op (kret minus1) | Some major \<Rightarrow>
      kbind (argint 2) (\<lambda>r2. case r2 of None \<Rightarrow> kseq end_op (kret minus1) | Some minor \<Rightarrow>
      kbind (create path T_DEV (ucast major) (ucast minor)) (\<lambda>r3. case r3 of
        None \<Rightarrow> kseq end_op (kret minus1)
      | Some ip \<Rightarrow>
          kseq (iunlockput ip)
          (kseq end_op
           (kret 0)))))))"

definition sys_chdir :: "u32 K" where
  "sys_chdir =
     kbind curproc (\<lambda>p.
     kseq begin_op
     (kbind (argstr 0) (\<lambda>r. case r of None \<Rightarrow> kseq end_op (kret minus1) | Some path \<Rightarrow>
      kbind (namei path) (\<lambda>r1. case r1 of None \<Rightarrow> kseq end_op (kret minus1) | Some ip \<Rightarrow>
      kseq (ilock ip)
      (kif (\<lambda>s. ip_type (icache s ip) \<noteq> T_DIR)
        (kseq (iunlockput ip) (kseq end_op (kret minus1)))
      (kseq (iunlock ip)
      (kseq (kbind (kget (\<lambda>s. p_cwd (ptable s p))) (\<lambda>cwd. case cwd of
               Some c \<Rightarrow> iput c
             | None \<Rightarrow> kpanic ''trap''))
      (kseq end_op
      (kseq (upd_proc p (\<lambda>q. q\<lparr>p_cwd := Some ip\<rparr>))
       (kret 0))))))))))"

section \<open>Programs and pipes\<close>

text \<open>The argument vector of \<open>sys_exec\<close>: \<open>None\<close> for an error, otherwise the strings.\<close>

primrec exec_argv :: "nat \<Rightarrow> u32 \<Rightarrow> nat \<Rightarrow> u8 list list \<Rightarrow> u8 list list option K" where
  "exec_argv 0 uargv i acc = kret None"
| "exec_argv (Suc k) uargv i acc =
     kbind (fetchint (uargv + 4 * of_nat i)) (\<lambda>r. case r of None \<Rightarrow> kret None | Some uarg \<Rightarrow>
     if uarg = 0 then kret (Some acc)
     else kbind (fetchstr uarg) (\<lambda>r1. case r1 of None \<Rightarrow> kret None | Some str \<Rightarrow>
       exec_argv k uargv (Suc i) (acc @ [str])))"

definition sys_exec :: "u32 K" where
  "sys_exec =
     kbind (argstr 0) (\<lambda>r. case r of None \<Rightarrow> kret minus1 | Some path \<Rightarrow>
     kbind (argint 1) (\<lambda>r1. case r1 of None \<Rightarrow> kret minus1 | Some uargv \<Rightarrow>
     kbind (exec_argv MAXARG uargv 0 []) (\<lambda>r2. case r2 of None \<Rightarrow> kret minus1 | Some argv \<Rightarrow>
     exec path argv)))"

definition sys_pipe :: "u32 K" where
  "sys_pipe =
     kbind (argptr 0 8) (\<lambda>r. case r of None \<Rightarrow> kret minus1 | Some fd \<Rightarrow>
     kbind pipealloc (\<lambda>r1. case r1 of None \<Rightarrow> kret minus1 | Some (rf, wrf) \<Rightarrow>
     kbind (fdalloc rf) (\<lambda>d0. case d0 of
       None \<Rightarrow> kseq (fileclose rf) (kseq (fileclose wrf) (kret minus1))
     | Some fd0 \<Rightarrow> kbind (fdalloc wrf) (\<lambda>d1. case d1 of
         None \<Rightarrow>
           kseq (kbind curproc (\<lambda>p. upd_proc p (\<lambda>q. q\<lparr>p_ofile := (p_ofile q)(fd0 := None)\<rparr>)))
           (kseq (fileclose rf) (kseq (fileclose wrf) (kret minus1)))
       | Some fd1 \<Rightarrow>
           kseq (vstore32 fd (of_nat fd0))
           (kseq (vstore32 (fd + 4) (of_nat fd1))
            (kret 0))))))"

end
