(* ===== verification/Kbd.thy ===== *)
theory Kbd
  imports Console
begin

text \<open>
  The sources of characters of the console: \<open>uartgetc\<close> of \<^verbatim>\<open>uart.c\<close>, and the keyboard, \<^verbatim>\<open>kbd.c\<close>
  with the tables of \<^verbatim>\<open>kbd.h\<close>. The state of a device is the bytes that wait in it: its status
  register says whether there are any and a read of its data register takes the first.
\<close>

section \<open>The serial port\<close>

definition uartgetc :: getc where
  "uartgetc bs =
     kif (\<lambda>s. \<not> uart s) (kret (minus1, bs))
      (case bs of [] \<Rightarrow> kret (minus1, []) | b # bs' \<Rightarrow> kret (ucast b, bs'))"

section \<open>The tables of the keyboard\<close>

abbreviation (input) KBD_SHIFT :: u32 where "KBD_SHIFT \<equiv> 1"
abbreviation (input) KBD_CTL :: u32 where "KBD_CTL \<equiv> 2"
abbreviation (input) KBD_ALT :: u32 where "KBD_ALT \<equiv> 4"
abbreviation (input) CAPSLOCK :: u32 where "CAPSLOCK \<equiv> 8"
abbreviation (input) NUMLOCK :: u32 where "NUMLOCK \<equiv> 16"
abbreviation (input) SCROLLLOCK :: u32 where "SCROLLLOCK \<equiv> 32"
abbreviation (input) E0ESC :: u32 where "E0ESC \<equiv> 64"

text \<open>An array of 256 bytes with an initialiser: its first elements, then elements with their
  indices; the others are 0.\<close>

definition kbd_array :: "u32 list \<Rightarrow> (nat \<times> u32) list \<Rightarrow> nat \<Rightarrow> u32" where
  "kbd_array xs ivs i = (case map_of ivs i of Some v \<Rightarrow> v | None \<Rightarrow> if i < length xs then xs ! i else 0)"

definition shiftcode :: "nat \<Rightarrow> u32" where
  "shiftcode = kbd_array []
     [(0x1D, KBD_CTL), (0x2A, KBD_SHIFT), (0x36, KBD_SHIFT), (0x38, KBD_ALT), (0x9D, KBD_CTL), (0xB8, KBD_ALT)]"

definition togglecode :: "nat \<Rightarrow> u32" where
  "togglecode = kbd_array [] [(0x3A, CAPSLOCK), (0x45, NUMLOCK), (0x46, SCROLLLOCK)]"

text \<open>The keys of the keypad and the arrows, the same in all three maps.\<close>

abbreviation (input) special_keys :: "(nat \<times> u32) list" where
  "special_keys \<equiv> [(0xC8, 0xE2), (0xD0, 0xE3), (0xC9, 0xE6), (0xD1, 0xE7), (0xCB, 0xE4), (0xCD, 0xE5),
     (0x97, 0xE0), (0xCF, 0xE1), (0xD2, 0xE8), (0xD3, 0xE9)]"

definition normalmap :: "nat \<Rightarrow> u32" where
  "normalmap = kbd_array
     ([0, 0x1B] @ bytes_of ''1234567890-='' @ [8, 9] @
      bytes_of ''qwertyuiop[]'' @ [10, 0] @ bytes_of ''asdfghjkl;'' @ [39, 96, 0, 92] @
      bytes_of ''zxcvbnm,./'' @ [0, 42, 0, 32, 0, 0, 0, 0, 0, 0, 0, 0, 0, 0, 0, 0, 0] @
      bytes_of ''789-456+1230.'' @ [0, 0, 0, 0])
     ([(0x9C, 10), (0xB5, 47)] @ special_keys)"

definition shiftmap :: "nat \<Rightarrow> u32" where
  "shiftmap = kbd_array
     ([0, 27] @ bytes_of ''!@#$%^&*()_+'' @ [8, 9] @
      bytes_of ''QWERTYUIOP{}'' @ [10, 0] @ bytes_of ''ASDFGHJKL:'' @ [34, 126, 0, 124] @
      bytes_of ''ZXCVBNM<>?'' @ [0, 42, 0, 32, 0, 0, 0, 0, 0, 0, 0, 0, 0, 0, 0, 0, 0] @
      bytes_of ''789-456+1230.'' @ [0, 0, 0, 0])
     ([(0x9C, 10), (0xB5, 47)] @ special_keys)"

text \<open>\<open>C('/')\<close> is -17, in a byte 0xEF.\<close>

definition ctl_chars :: "string \<Rightarrow> u32 list" where
  "ctl_chars cs = map (\<lambda>c. c - 64 AND 0xFF) (bytes_of cs)"

definition ctlmap :: "nat \<Rightarrow> u32" where
  "ctlmap = kbd_array
     (replicate 16 0 @ ctl_chars ''QWERTYUIOP'' @ [0, 0, 13, 0] @ ctl_chars ''ASDFGHJKL'' @
      [0, 0, 0, 0, 0x1C] @ ctl_chars ''ZXCVBNM'' @ [0, 0, 0xEF, 0, 0])
     ([(0x9C, 13), (0xB5, 0xEF)] @ special_keys)"

definition charcode :: "u32 \<Rightarrow> nat \<Rightarrow> u32" where
  "charcode m = (if m = 0 then normalmap else if m = 1 then shiftmap else ctlmap)"

section \<open>The decoder\<close>

definition caps_swap :: "u32 \<Rightarrow> u32" where
  "caps_swap c =
     (if 97 \<le> c \<and> c \<le> 122 then c - 32 else if 65 \<le> c \<and> c \<le> 90 then c + 32 else c)"

text \<open>A key is pressed: the part of \<open>kbdgetc\<close> after the tests of the code.\<close>

definition kbd_press :: "u32 \<Rightarrow> u32 \<Rightarrow> u32 \<times> u32" where
  "kbd_press shift data =
     (let shift1 = (shift OR shiftcode (unat data)) XOR togglecode (unat data);
          c = charcode (shift1 AND (KBD_CTL OR KBD_SHIFT)) (unat data)
      in (if shift1 AND CAPSLOCK \<noteq> 0 then caps_swap c else c, shift1))"

text \<open>One code: the character and the new value of \<open>shift\<close>.\<close>

definition kbd_code :: "u32 \<Rightarrow> u32 \<Rightarrow> u32 \<times> u32" where
  "kbd_code shift data =
     (if data = 0xE0 then (0, shift OR E0ESC)
      else if data AND 0x80 \<noteq> 0 then
        let data1 = (if shift AND E0ESC \<noteq> 0 then data else data AND 0x7F)
        in (0, shift AND NOT (shiftcode (unat data1) OR E0ESC))
      else if shift AND E0ESC \<noteq> 0 then kbd_press (shift AND NOT E0ESC) (data OR 0x80)
      else kbd_press shift data)"

definition kbdgetc :: getc where
  "kbdgetc bs = (case bs of
     [] \<Rightarrow> kret (minus1, [])
   | b # bs' \<Rightarrow> kbind (kget (\<lambda>s. kbd_code (kbd_shift s) (ucast b))) (\<lambda>r.
       kseq (kmod (\<lambda>s. s\<lparr>kbd_shift := snd r\<rparr>)) (kret (fst r, bs'))))"

end
