(* ===== verification/Trap.thy ===== *)
theory Trap
  imports Sysproc Sysfile Kbd
begin

text \<open>
  The dispatch of system calls (\<open>syscall\<close> of \<^verbatim>\<open>syscall.c\<close>), \<^verbatim>\<open>trap.c\<close>, the interrupt handlers
  of \<^verbatim>\<open>kbd.c\<close> and \<^verbatim>\<open>uart.c\<close>, and the return path of \<^verbatim>\<open>trapasm.S\<close>.

  \<open>trap\<close> works on a frame: for a trap from user space it is the process's own frame \<open>p_tf\<close>,
  otherwise the frame of the interrupted kernel code. What the devices deliver with an
  interrupt is the record \<open>device_input\<close>. Acknowledging the interrupt controller and the
  page fault address register only matter for hardware and messages; the address is part of
  the device record.
\<close>

section \<open>System calls\<close>

definition syscalls :: "nat \<Rightarrow> u32 K option" where
  "syscalls n = (if n < 25 then
     [None, Some sys_fork, Some sys_exit, Some sys_wait, Some sys_pipe, Some sys_read, Some sys_kill,
      Some sys_exec, Some sys_fstat, Some sys_chdir, Some sys_dup, Some sys_getpid, Some sys_sbrk,
      Some sys_sleep, Some sys_uptime, Some sys_open, Some sys_write, Some sys_mknod,
      Some sys_unlink, Some sys_link, Some sys_mkdir, Some sys_close, Some sys_sigprocmask,
      Some sys_sigaction, Some sys_sigret] ! n
     else None)"

definition syscall :: "unit K" where
  "syscall =
     kbind curproc (\<lambda>p.
     kbind (kget (\<lambda>s. tf_eax (p_tf (ptable s p)))) (\<lambda>num.
     case (if sint num > 0 then syscalls (unat num) else None) of
       Some call \<Rightarrow> kbind call (\<lambda>r. upd_tf p (\<lambda>t. t\<lparr>tf_eax := r\<rparr>))
     | None \<Rightarrow>
         kseq (kbind (kget (\<lambda>s. ptable s p)) (\<lambda>q.
           cprintf ''%d %s: unknown sys call %d\<newline>''
             [A_int (p_pid q), A_str (cstring (p_name q)), A_int num]))
          (upd_tf p (\<lambda>t. t\<lparr>tf_eax := minus1\<rparr>))))"

section \<open>Traps\<close>

record device_input =
  dv_kbd :: "u8 list"
  dv_uart :: "u8 list"
  dv_cr2 :: u32
  dv_pcs :: "kernel \<Rightarrow> nat \<Rightarrow> u32 list"

definition tvinit :: "unit K" where
  "tvinit = initlock L_ticks ''time''"

definition uartintr :: "device_input \<Rightarrow> unit K" where
  "uartintr dv = consoleintr (dv_pcs dv) uartgetc (dv_uart dv)"

definition kbdintr :: "device_input \<Rightarrow> unit K" where
  "kbdintr dv = consoleintr (dv_pcs dv) kbdgetc (dv_kbd dv)"

definition trap_timer :: "unit K" where
  "trap_timer =
     kbind cpuid (\<lambda>c.
     if c = 0 then
       kseq (acquire L_ticks)
       (kseq (kmod (\<lambda>s. s\<lparr>ticks := ticks s + 1\<rparr>))
       (kseq (wakeup Ch_ticks)
        (release L_ticks)))
     else kret ())"

definition trap_default :: "device_input \<Rightarrow> trapframe \<Rightarrow> unit K" where
  "trap_default dv tf =
     kbind myproc (\<lambda>pp. case pp of
       None \<Rightarrow>
         kbind cpuid (\<lambda>c.
         kseq (cprintf ''unexpected trap %d from cpu %d eip %x (cr2=0x%x)\<newline>''
                [A_int (tf_trapno tf), A_int (of_nat c), A_int (tf_eip tf), A_int (dv_cr2 dv)])
          (kpanic ''trap''))
     | Some p \<Rightarrow>
         if tf_cs tf AND 3 = 0 then
           kbind cpuid (\<lambda>c.
           kseq (cprintf ''unexpected trap %d from cpu %d eip %x (cr2=0x%x)\<newline>''
                  [A_int (tf_trapno tf), A_int (of_nat c), A_int (tf_eip tf), A_int (dv_cr2 dv)])
            (kpanic ''trap''))
         else
           kbind cpuid (\<lambda>c.
           kseq (kbind (kget (\<lambda>s. ptable s p)) (\<lambda>q.
             cprintf ''pid %d %s: trap %d err %d on cpu %d eip 0x%x addr 0x%x--kill proc\<newline>''
               [A_int (p_pid q), A_str (cstring (p_name q)), A_int (tf_trapno tf), A_int (tf_err tf),
                A_int (of_nat c), A_int (tf_eip tf), A_int (dv_cr2 dv)]))
            (upd_proc p (\<lambda>q. q\<lparr>p_killed := True\<rparr>))))"

definition trap_dispatch :: "device_input \<Rightarrow> trapframe \<Rightarrow> unit K" where
  "trap_dispatch dv tf =
     (let no = tf_trapno tf in
      if no = T_IRQ0 + 0 then trap_timer
      else if no = T_IRQ0 + 14 then ideintr
      else if no = T_IRQ0 + 15 then kret ()
      else if no = T_IRQ0 + 1 then kbdintr dv
      else if no = T_IRQ0 + 4 then uartintr dv
      else if no = T_IRQ0 + 7 \<or> no = T_IRQ0 + 31 then
        kbind cpuid (\<lambda>c.
        cprintf ''cpu%d: spurious interrupt at %x:%x\<newline>''
          [A_int (of_nat c), A_int (ucast (tf_cs tf)), A_int (tf_eip tf)])
      else trap_default dv tf)"

text \<open>\<open>if(myproc() && myproc()->killed && (tf->cs&3) == DPL_USER) exit();\<close>\<close>

definition trap_exit_killed :: "trapframe \<Rightarrow> unit K" where
  "trap_exit_killed tf =
     kbind myproc (\<lambda>pp. case pp of
       None \<Rightarrow> kret ()
     | Some p \<Rightarrow> kif (\<lambda>s. p_killed (ptable s p) \<and> tf_cs tf AND 3 = DPL_USER) exit (kret ()))"

definition trap :: "device_input \<Rightarrow> trapframe \<Rightarrow> unit K" where
  "trap dv tf =
     (if tf_trapno tf = T_SYSCALL then
        kseq (kbind curproc (\<lambda>p. kif (\<lambda>s. p_killed (ptable s p)) exit (kret ())))
        (kseq (kbind curproc (\<lambda>p. upd_tf p (\<lambda>_. tf)))
        (kseq syscall
         (kbind curproc (\<lambda>p. kif (\<lambda>s. p_killed (ptable s p)) exit (kret ())))))
      else
        kseq (trap_dispatch dv tf)
        (kseq (trap_exit_killed tf)
        (kseq (kbind myproc (\<lambda>pp. case pp of
                 None \<Rightarrow> kret ()
               | Some p \<Rightarrow> kif (\<lambda>s. p_state (ptable s p) = RUNNING \<and> tf_trapno tf = T_IRQ0 + 0)
                   yield (kret ())))
         (trap_exit_killed tf))))"

text \<open>\<open>alltraps\<close> and \<open>trapret\<close> for a trap from user space with registers \<open>tf\<close>: the frame is
  built at the top of the kernel stack, \<open>trap\<close> and \<open>handle_signals\<close> run, and the user program
  goes on with the registers in \<open>p_tf\<close>. The gate of a system call leaves interrupts on, the
  other gates turn them off (\<open>tvinit\<close>); \<open>iret\<close> loads the flags of the frame.\<close>

definition user_trap :: "device_input \<Rightarrow> trapframe \<Rightarrow> unit K" where
  "user_trap dv tf =
     kseq (if tf_trapno tf = T_SYSCALL then kret () else cli)
     (kbind curproc (\<lambda>p.
      kseq (upd_tf p (\<lambda>_. tf))
      (kseq (trap dv tf)
      (kseq (kbind (kget (\<lambda>s. tf_cs (p_tf (ptable s p)))) handle_signals)
       (kmod (\<lambda>s. s\<lparr>eflags_if := (tf_eflags (p_tf (ptable s p)) AND 0x200 \<noteq> 0)\<rparr>))))))"

end
