(* ===== verification/Sched_Props.thy ===== *)
theory Sched_Props
  imports Proc_Sched
begin

text \<open>
  What the scheduling operations of \<^verbatim>\<open>proc.c\<close> do to the process table: waking, killing,
  giving up the CPU and being scheduled again.
\<close>

section \<open>Loops over the process table\<close>

definition upd_range :: "nat \<Rightarrow> nat \<Rightarrow> (proc \<Rightarrow> proc) \<Rightarrow> (nat \<Rightarrow> proc) \<Rightarrow> nat \<Rightarrow> proc" where
  "upd_range i n g pt = (\<lambda>j. if i \<le> j \<and> j < i + n then g (pt j) else pt j)"

lemma upd_range_0 [simp]: "upd_range i 0 g pt = pt"
  by (auto simp: upd_range_def fun_eq_iff)

lemma upd_range_Suc: "upd_range i (Suc n) g pt = upd_range (Suc i) n g (pt(i := g (pt i)))"
  by (auto simp: upd_range_def fun_eq_iff)

text \<open>A loop whose body works on the entry of its index only.\<close>

lemma kfor_table:
  assumes "\<And>j t. i \<le> j \<Longrightarrow> j < i + n \<Longrightarrow> P (ptable t j) \<Longrightarrow> t\<lparr>ptable := ptable s\<rparr> = s \<Longrightarrow>
      f j t w = Done () (t\<lparr>ptable := (ptable t)(j := g (ptable t j))\<rparr>) w"
    and "\<And>j. i \<le> j \<Longrightarrow> j < i + n \<Longrightarrow> P (pt j)"
  shows "kfor n i f (s\<lparr>ptable := pt\<rparr>) w = Done () (s\<lparr>ptable := upd_range i n g pt\<rparr>) w"
  using assms
proof (induction n arbitrary: i pt)
  case (Suc n)
  define t where "t = s\<lparr>ptable := pt\<rparr>"
  have "f i t w = Done () (t\<lparr>ptable := (ptable t)(i := g (ptable t i))\<rparr>) w"
    by (rule Suc.prems(1)) (simp_all add: t_def Suc.prems(2))
  then have "f i (s\<lparr>ptable := pt\<rparr>) w = Done () (s\<lparr>ptable := pt(i := g (pt i))\<rparr>) w"
    by (simp add: t_def)
  moreover have "kfor n (Suc i) f (s\<lparr>ptable := pt(i := g (pt i))\<rparr>) w =
      Done () (s\<lparr>ptable := upd_range (Suc i) n g (pt(i := g (pt i)))\<rparr>) w"
    using Suc.prems by (intro Suc.IH) auto
  ultimately show ?case by (simp add: upd_range_Suc)
qed simp

section \<open>wakeup\<close>

definition woken :: "chan option \<Rightarrow> proc \<Rightarrow> proc" where
  "woken ch q = (if p_chan q = ch \<and> p_state q = SLEEPING then q\<lparr>p_chan := None, p_state := RUNNABLE\<rparr> else q)"

lemma wakeup1_proc_exec:
  "\<not> (p_chan (ptable s i) = ch \<and> p_state (ptable s i) = M_SLEEPING) \<Longrightarrow>
   wakeup1_proc ch i s w = Done () (s\<lparr>ptable := (ptable s)(i := woken ch (ptable s i))\<rparr>) w"
  by (auto simp: wakeup1_proc_def woken_def)

lemma wakeup1_exec:
  assumes "\<forall>i < NPROC. \<not> (p_chan (ptable s i) = ch \<and> p_state (ptable s i) = M_SLEEPING)"
  shows "wakeup1 ch s w = Done () (s\<lparr>ptable := upd_range 0 NPROC (woken ch) (ptable s)\<rparr>) w"
  using kfor_table [of 0 NPROC "\<lambda>q. \<not> (p_chan q = ch \<and> p_state q = M_SLEEPING)" s "wakeup1_proc ch" w
      "woken ch" "ptable s"] assms
  by (simp add: wakeup1_def wakeup1_proc_exec)

lemma wakeup_exec:
  assumes "cli_ok c s" and "\<forall>i < NPROC. \<not> (p_chan (ptable s i) = Some ch \<and> p_state (ptable s i) = M_SLEEPING)"
  shows "wakeup ch s w = Done () (s\<lparr>ptable := upd_range 0 NPROC (woken (Some ch)) (ptable s)\<rparr>) w"
proof -
  let ?pt = "upd_range 0 NPROC (woken (Some ch)) (ptable s)"
  have "pushcli s w = Done () (nested c 1 s) w" using pushcli_nested [OF assms(1), of 0] by simp
  moreover have "wakeup1 (Some ch) (nested c 1 s) w = Done () (nested c 1 (s\<lparr>ptable := ?pt\<rparr>)) w"
    using assms(2) by (subst wakeup1_exec) (simp_all add: nested_def)
  moreover have "popcli (nested c 1 (s\<lparr>ptable := ?pt\<rparr>)) w = Done () (s\<lparr>ptable := ?pt\<rparr>) w"
    using popcli_nested [of c "s\<lparr>ptable := ?pt\<rparr>" 0] assms(1) by simp
  ultimately show ?thesis by (simp add: wakeup_def)
qed


text \<open>Nobody is on the way to sleep on channel \<open>ch\<close>.\<close>

definition no_drowsy :: "chan \<Rightarrow> kernel \<Rightarrow> bool" where
  "no_drowsy ch s \<longleftrightarrow> (\<forall>i < NPROC. \<not> (p_chan (ptable s i) = Some ch \<and> p_state (ptable s i) = M_SLEEPING))"

lemma no_drowsy_frame [simp]:
  "no_drowsy ch (with_lock c L s) = no_drowsy ch s"
  "no_drowsy ch (s\<lparr>slocks := sl\<rparr>) = no_drowsy ch s"
  "no_drowsy ch (s\<lparr>bufs := bs\<rparr>) = no_drowsy ch s"
  "no_drowsy ch (s\<lparr>input := q\<rparr>) = no_drowsy ch s"
  "no_drowsy ch (s\<lparr>kbd_shift := k\<rparr>) = no_drowsy ch s"
  "no_drowsy ch (s\<lparr>uart_out := u\<rparr>) = no_drowsy ch s"
  "no_drowsy ch (s\<lparr>crt := m\<rparr>) = no_drowsy ch s"
  "no_drowsy ch (s\<lparr>crt_pos := p\<rparr>) = no_drowsy ch s"
  by (simp_all add: no_drowsy_def with_lock_def)

lemma no_drowsy_woken: "no_drowsy ch s \<Longrightarrow> no_drowsy ch (s\<lparr>ptable := upd_range 0 NPROC (woken ch') (ptable s)\<rparr>)"
  by (auto simp: no_drowsy_def upd_range_def woken_def)

lemma woken_twice: "upd_range 0 n (woken ch) (upd_range 0 n (woken ch) pt) = upd_range 0 n (woken ch) pt"
  by (auto simp: upd_range_def woken_def fun_eq_iff)

lemma wakeup_ok:
  "cli_ok c s \<Longrightarrow> no_drowsy ch s \<Longrightarrow>
   wakeup ch s w = Done () (s\<lparr>ptable := upd_range 0 NPROC (woken (Some ch)) (ptable s)\<rparr>) w"
  by (simp add: wakeup_exec no_drowsy_def)

section \<open>Giving up the CPU\<close>

text \<open>The kernel at the moment process \<open>p\<close> switches to the scheduler of its CPU.\<close>

definition switched :: "nat \<Rightarrow> kernel \<Rightarrow> kernel" where
  "switched p s = s\<lparr>ptable := (ptable s)(p := (ptable s p)\<lparr>p_context := At_sched\<rparr>)\<rparr>"

definition may_sched :: "nat \<Rightarrow> nat \<Rightarrow> kernel \<Rightarrow> bool" where
  "may_sched c p s \<longleftrightarrow> running c p s \<and> c_ncli (cpus s c) = 1 \<and> p_state (ptable s p) \<noteq> RUNNING"

lemma sched_exec:
  assumes "may_sched c p s"
  shows "sched s [] = Stuck (switched p s)"
    and "cpu_index (e (switched p s)) = Some c' \<Longrightarrow> \<not> eflags_if (e (switched p s)) \<Longrightarrow>
      sched s (e # v) = Done () ((e (switched p s))\<lparr>cpus := (cpus (e (switched p s)))
        (c' := (cpus (e (switched p s)) c')\<lparr>c_intena := c_intena (cpus s c)\<rparr>)\<rparr>) v"
proof -
  have r: "running c p s" "cpu_index s = Some c" "\<not> eflags_if s" "c_ncli (cpus s c) = 1"
    "p_state (ptable s p) \<noteq> RUNNING"
    using assms by (auto simp: may_sched_def running_def cli_ok_def)
  show "sched s [] = Stuck (switched p s)"
    using r by (simp add: sched_def myproc_running [of c p] mycpu_exec the_proc_def swtch_out_def switched_def)
  show "sched s (e # v) = Done () ((e (switched p s))\<lparr>cpus := (cpus (e (switched p s)))
        (c' := (cpus (e (switched p s)) c')\<lparr>c_intena := c_intena (cpus s c)\<rparr>)\<rparr>) v"
    if "cpu_index (e (switched p s)) = Some c'" "\<not> eflags_if (e (switched p s))"
    using r that by (simp add: sched_def myproc_running [of c p] mycpu_exec the_proc_def swtch_out_def
        switched_def upd_cpu_def)
qed

text \<open>A move of the world that executes kernel code.\<close>

definition run :: "'a K \<Rightarrow> kernel \<Rightarrow> kernel" where
  "run m s = (case m s [] of Done a t v \<Rightarrow> t | _ \<Rightarrow> s)"

text \<open>The scheduler of CPU \<open>c\<close> after process \<open>p\<close> has switched to it: it leaves the process,
  lets interrupts in, during which \<open>m\<close> is executed, and comes back to the process.\<close>

definition reschedule :: "nat \<Rightarrow> nat \<Rightarrow> unit K \<Rightarrow> unit K" where
  "reschedule c p m =
     kseq (sched_leave c p)
     (kseq popcli
     (kseq sti
     (kseq m
     (kseq pushcli
     (kbind (cas_state p RUNNABLE M_RUNNING) (\<lambda>ok. if ok then sched_enter c p else kret ()))))))"


definition settle :: "procstate \<Rightarrow> procstate" where
  "settle st = (case st of M_RUNNABLE \<Rightarrow> RUNNABLE | M_SLEEPING \<Rightarrow> SLEEPING | M_ZOMBIE \<Rightarrow> ZOMBIE | _ \<Rightarrow> st)"

lemma upd_cpu_app [simp]: "upd_cpu c f s w = Done () (s\<lparr>cpus := (cpus s)(c := f (cpus s c))\<rparr>) w"
  by (simp add: upd_cpu_def)

lemma switchkvm_exec: "cpu_index s = Some c \<Longrightarrow>
   switchkvm s w = Done () (s\<lparr>cpus := (cpus s)(c := (cpus s c)\<lparr>c_cr3 := V2P (kpgdir s)\<rparr>)\<rparr>) w"
  by (simp add: switchkvm_def lcr3_def)

lemma sched_leave_exec:
  assumes "cpu_index s = Some c"
  shows "sched_leave c p s w = Done () (s\<lparr>cpus := (cpus s)(c := (cpus s c)\<lparr>c_cr3 := V2P (kpgdir s), c_proc := None\<rparr>),
    ptable := (ptable s)(p := (ptable s p)\<lparr>p_state := settle (p_state (ptable s p))\<rparr>)\<rparr>) w"
  using assms by (cases "p_state (ptable s p)") (simp_all add: sched_leave_def switchkvm_exec settle_def)

lemma switchuvm_exec:
  assumes "cli_ok c s" and "p_kstack (ptable s p) \<noteq> 0" and "p_pgdir (ptable s p) \<noteq> 0"
  shows "switchuvm (Some p) s w = Done () (s\<lparr>cpus := (cpus s)(c := (cpus s c)
      \<lparr>c_esp0 := p_kstack (ptable s p) + KSTACKSIZE, c_cr3 := V2P (p_pgdir (ptable s p))\<rparr>)\<rparr>) w"
proof -
  let ?f = "\<lambda>q. q\<lparr>c_esp0 := p_kstack (ptable s p) + KSTACKSIZE, c_cr3 := V2P (p_pgdir (ptable s p))\<rparr>"
  let ?s' = "s\<lparr>cpus := (cpus s)(c := ?f (cpus s c))\<rparr>"
  have c: "cpu_index s = Some c" using assms(1) by (rule cli_okD)
  have "pushcli s w = Done () (nested c 1 s) w" using pushcli_nested [OF assms(1), of 0] by simp
  moreover have "mycpu (nested c 1 s) w = Done c (nested c 1 s) w"
    using c by (intro mycpu_exec) (simp_all add: nested_def)
  moreover have "cli_ok c ?s'" using assms(1) by (simp add: cli_ok_def)
  then have "popcli (nested c 1 ?s') w = Done () ?s' w" using popcli_nested [of c ?s' 0] by simp
  moreover have "lcr3 (V2P (p_pgdir (ptable s p))) ((nested c 1 s)\<lparr>cpus := (cpus (nested c 1 s))(c :=
      (cpus (nested c 1 s) c)\<lparr>c_esp0 := p_kstack (ptable s p) + KSTACKSIZE\<rparr>)\<rparr>) w = Done () (nested c 1 ?s') w"
    using c by (simp add: lcr3_def nested_def cpu_order)
  ultimately show ?thesis using assms(2,3) by (simp add: switchuvm_def nested_def)
qed


text \<open>The CPU between two processes: the scheduler with interrupts on.\<close>

definition scheduling :: "nat \<Rightarrow> nat \<Rightarrow> kernel \<Rightarrow> kernel" where
  "scheduling c p t = t\<lparr>eflags_if := True,
     cpus := (cpus t)(c := (cpus t c)\<lparr>c_proc := None, c_cr3 := V2P (kpgdir t), c_ncli := 0\<rparr>),
     ptable := (ptable t)(p := (ptable t p)\<lparr>p_state := settle (p_state (ptable t p))\<rparr>)\<rparr>"

lemma reschedule_exec:
  assumes t: "running c p t" "c_ncli (cpus t c) = 1" "c_intena (cpus t c)"
    and m: "m (scheduling c p t) [] = Done () ((scheduling c p t)\<lparr>ptable := pt\<rparr>) []"
    and pt: "p_state (pt p) = RUNNABLE" "p_kstack (pt p) \<noteq> 0" "p_pgdir (pt p) \<noteq> 0"
  shows "reschedule c p m t [] = Done () (t\<lparr>cpus := (cpus t)(c := (cpus t c)\<lparr>
      c_cr3 := V2P (p_pgdir (pt p)), c_esp0 := p_kstack (pt p) + KSTACKSIZE\<rparr>),
      ptable := pt(p := (pt p)\<lparr>p_state := RUNNING\<rparr>)\<rparr>) []"
proof -
  have c: "cpu_index t = Some c" "\<not> eflags_if t" "c_proc (cpus t c) = Some p"
    using t(1,2) by (auto simp: running_def cli_ok_def)
  define u where "u = scheduling c p t"
  have u: "cpu_index u = Some c" "eflags_if u"
    "cpus u = (cpus t)(c := (cpus t c)\<lparr>c_proc := None, c_cr3 := V2P (kpgdir t), c_ncli := 0\<rparr>)"
    using c by (simp_all add: u_def scheduling_def)
  have "kseq (sched_leave c p) (kseq popcli sti) t [] = Done () u []"
    using c t by (simp add: sched_leave_exec popcli_exec [of _ c] sti_def u_def scheduling_def cpu_order)
  moreover have "kseq pushcli (kbind (cas_state p RUNNABLE M_RUNNING) (\<lambda>ok. if ok then sched_enter c p else kret ())) (u\<lparr>ptable := pt\<rparr>) [] =
      Done () (t\<lparr>cpus := (cpus t)(c := (cpus t c)\<lparr>
        c_cr3 := V2P (p_pgdir (pt p)), c_esp0 := p_kstack (pt p) + KSTACKSIZE\<rparr>),
        ptable := pt(p := (pt p)\<lparr>p_state := RUNNING\<rparr>)\<rparr>) []"
  proof -
    have same: "q\<lparr>c_proc := Some p, c_cr3 := x, c_esp0 := y, c_intena := True, c_ncli := 1\<rparr> =
        q\<lparr>c_cr3 := x, c_esp0 := y\<rparr>" if "q = cpus t c" for q x y
      using t(2,3) c(3) that by (cases q) simp
    define u2 where "u2 = u\<lparr>eflags_if := False, cpus := (cpus t)(c := (cpus t c)\<lparr>c_proc := Some p,
        c_cr3 := V2P (kpgdir t), c_intena := True, c_ncli := 1\<rparr>), ptable := pt(p := (pt p)\<lparr>p_state := M_RUNNING\<rparr>)\<rparr>"
    have "cli_ok c u2"
      using c(1) by (simp add: u2_def cli_ok_def u_def scheduling_def)
    then have "switchuvm (Some p) u2 [] = Done () (u2\<lparr>cpus := (cpus u2)(c := (cpus u2 c)
      \<lparr>c_esp0 := p_kstack (pt p) + KSTACKSIZE, c_cr3 := V2P (p_pgdir (pt p))\<rparr>)\<rparr>) []"
      using switchuvm_exec [of c u2 p "[]"] pt by (simp add: u2_def)
    moreover have "u2\<lparr>cpus := (cpus u2)(c := (cpus u2 c)\<lparr>c_esp0 := p_kstack (pt p) + KSTACKSIZE,
        c_cr3 := V2P (p_pgdir (pt p))\<rparr>)\<rparr> = t\<lparr>cpus := (cpus t)(c := (cpus t c)\<lparr>
        c_cr3 := V2P (p_pgdir (pt p)), c_esp0 := p_kstack (pt p) + KSTACKSIZE\<rparr>),
        ptable := pt(p := (pt p)\<lparr>p_state := M_RUNNING\<rparr>)\<rparr>"
    proof -
      have "t\<lparr>eflags_if := False\<rparr> = t" using c(2) by simp
      then show ?thesis
        by (simp add: u2_def u_def scheduling_def kernel_order cpu_order same) 
    qed
    moreover define enter where "enter = kseq pushcli (kbind (cas_state p RUNNABLE M_RUNNING)
        (\<lambda>ok. if ok then sched_enter c p else kret ()))"
    have "enter (u\<lparr>ptable := pt\<rparr>) [] = kseq (switchuvm (Some p)) (kseq (cas_state p M_RUNNING RUNNING) (kret ())) u2 []"
      using u pt(1) by (simp add: enter_def sched_enter_def pushcli_exec [of _ c] pushed_def u2_def cpu_order kernel_order)
    ultimately show ?thesis by (simp only: kseq_done enter_def) simp
  qed
  moreover have "reschedule c p m = kseq (kseq (sched_leave c p) (kseq popcli sti))
      (kseq m (kseq pushcli (kbind (cas_state p RUNNABLE M_RUNNING) (\<lambda>ok. if ok then sched_enter c p else kret ()))))"
    by (simp only: reschedule_def kseq_assoc)
  ultimately show ?thesis
    using m unfolding u_def [symmetric] by (simp only: kseq_done)
qed


section \<open>sleep\<close>

text \<open>The kernel between \<open>acquire(L)\<close> and \<open>release(L)\<close> on CPU \<open>c\<close>, and the kernel when a
  process that holds \<open>L\<close> has gone to sleep on \<open>ch\<close>.\<close>

definition holds :: "nat \<Rightarrow> lockid \<Rightarrow> kernel \<Rightarrow> bool" where
  "holds c L s \<longleftrightarrow> cli_ok c s \<and> c_ncli (cpus s c) = 1 \<and> c_intena (cpus s c) \<and>
     lk_locked (locks s L) = 1 \<and> lk_cpu (locks s L) = Some c"

definition asleep :: "nat \<Rightarrow> chan \<Rightarrow> lockid \<Rightarrow> kernel \<Rightarrow> kernel" where
  "asleep p ch L s = s\<lparr>locks := (locks s)(L := (locks s L)\<lparr>lk_cpu := None, lk_locked := 0\<rparr>),
     ptable := (ptable s)(p := (ptable s p)\<lparr>p_state := M_SLEEPING, p_chan := Some ch, p_context := At_sched\<rparr>)\<rparr>"

lemma sleep_to_sched:
  assumes "running c p s" and "holds c L s" and "p_state (ptable s p) = RUNNING" and "L \<noteq> L_ptable"
  shows "\<exists>s1. may_sched c p s1 \<and> switched p s1 = asleep p ch L s \<and> cpus s1 = cpus s \<and>
    (\<forall>w. sleep ch (Some L) s w =
      kseq sched (kseq (upd_proc p (\<lambda>q. q\<lparr>p_chan := None\<rparr>)) (kseq popcli (acquire L))) s1 w)"
proof -
  define sa where "sa = s\<lparr>ptable := (ptable s)(p := (ptable s p)\<lparr>p_state := M_SLEEPING\<rparr>)\<rparr>"
  define s1 where "s1 = s\<lparr>locks := (locks s)(L := (locks s L)\<lparr>lk_cpu := None, lk_locked := 0\<rparr>),
     ptable := (ptable s)(p := (ptable s p)\<lparr>p_state := M_SLEEPING, p_chan := Some ch\<rparr>)\<rparr>"
  have c: "cpu_index s = Some c" "\<not> eflags_if s" "c_ncli (cpus s c) = 1" "c_intena (cpus s c)"
    "lk_locked (locks s L) = 1" "lk_cpu (locks s L) = Some c" "cli_ok c s"
    using assms(2) by (auto simp: holds_def cli_ok_def)
  have "pushcli sa w = Done () (nested c 1 sa) w" for w
    using pushcli_nested [of c sa 0] c(7) by (simp add: sa_def)
  moreover have "release L (nested c 1 sa) w = Done () (without_lock c L (nested c 1 sa)) w" for w
    using c by (intro release_exec) (simp_all add: sa_def nested_def)
  moreover have "without_lock c L (nested c 1 sa) = sa\<lparr>locks := locks s1\<rparr>"
  proof -
    have "s\<lparr>eflags_if := False\<rparr> = s" using c(2) by simp
    moreover have "(cpus s c)\<lparr>c_ncli := 1\<rparr> = cpus s c" using c(3) by simp
    ultimately show ?thesis
      using c(3) by (simp add: without_lock_def nested_def sa_def s1_def kernel_order)
  qed
  ultimately have "sleep ch (Some L) s w =
      kseq sched (kseq (upd_proc p (\<lambda>q. q\<lparr>p_chan := None\<rparr>)) (kseq popcli (acquire L))) s1 w" for w
    using assms by (simp add: sleep_def myproc_running [of c p] sa_def s1_def kernel_order)
  moreover have "may_sched c p s1" "switched p s1 = asleep p ch L s" "cpus s1 = cpus s"
    using assms c by (simp_all add: may_sched_def s1_def switched_def asleep_def running_def)
  ultimately show ?thesis by blast
qed


text \<open>What \<open>sleep\<close> does after it has been switched to again.\<close>

lemma sleep_tail:
  assumes "running c p t" and "c_ncli (cpus t c) = 1" and "c_intena (cpus t c)"
    and "lk_locked (locks t L) = 0" and "p_chan (ptable t p) = None"
  shows "kseq (upd_proc p (\<lambda>q. q\<lparr>p_chan := None\<rparr>)) (kseq popcli (acquire L)) t w =
    Done () (t\<lparr>locks := (locks t)(L := (locks t L)\<lparr>lk_locked := 1, lk_cpu := Some c\<rparr>)\<rparr>) w"
proof -
  have c: "cpu_index t = Some c" "\<not> eflags_if t" using assms(1,2) by (auto simp: running_def cli_ok_def)
  define t1 where "t1 = t\<lparr>eflags_if := True, cpus := (cpus t)(c := (cpus t c)\<lparr>c_ncli := 0\<rparr>)\<rparr>"
  have "(ptable t p)\<lparr>p_chan := None\<rparr> = ptable t p" using assms(5) by simp
  then have "kseq (upd_proc p (\<lambda>q. q\<lparr>p_chan := None\<rparr>)) popcli t w = Done () t1 w"
    using c assms(2,3) by (simp add: popcli_exec [of _ c] t1_def)
  moreover have "acquire L t1 w = Done () (with_lock c L t1) w"
    using c(1) assms(4) by (intro acquire_exec) (simp_all add: t1_def)
  moreover have "with_lock c L t1 = t\<lparr>locks := (locks t)(L := (locks t L)\<lparr>lk_locked := 1, lk_cpu := Some c\<rparr>)\<rparr>"
  proof -
    have "(cpus t c)\<lparr>c_intena := True, c_ncli := 1\<rparr> = cpus t c" "t\<lparr>eflags_if := False\<rparr> = t"
      using c assms(2,3) by (cases "cpus t c"; simp)+
    then show ?thesis by (simp add: with_lock_def t1_def pushed_def cpu_order kernel_order)
  qed
  ultimately show ?thesis by (simp add: kseq_assoc [symmetric] kseq_done del: kseq_app)
qed

lemma wakeup_asleep:
  assumes "holds c L s" and "\<forall>i < NPROC. i \<noteq> p \<longrightarrow> \<not> (p_chan (ptable s i) = Some ch \<and> p_state (ptable s i) = M_SLEEPING)"
    and "p < NPROC" and "pt = upd_range 0 NPROC (woken (Some ch)) (ptable (scheduling c p (asleep p ch L s)))"
  shows "wakeup ch (scheduling c p (asleep p ch L s)) [] = Done () ((scheduling c p (asleep p ch L s))\<lparr>ptable := pt\<rparr>) []"
    and "pt p = (ptable s p)\<lparr>p_chan := None, p_state := RUNNABLE, p_context := At_sched\<rparr>"
proof -
  let ?u = "scheduling c p (asleep p ch L s)"
  have "cli_ok c ?u"
    using assms(1) by (simp add: holds_def cli_ok_def scheduling_def asleep_def)
  moreover have "\<forall>i < NPROC. \<not> (p_chan (ptable ?u i) = Some ch \<and> p_state (ptable ?u i) = M_SLEEPING)"
    using assms(2) by (simp add: scheduling_def asleep_def settle_def)
  ultimately show "wakeup ch ?u [] = Done () (?u\<lparr>ptable := pt\<rparr>) []"
    unfolding assms(4) by (rule wakeup_exec)
  show "pt p = (ptable s p)\<lparr>p_chan := None, p_state := RUNNABLE, p_context := At_sched\<rparr>"
    using assms(3) unfolding assms(4)
    by (cases "ptable s p") (simp add: upd_range_def scheduling_def asleep_def settle_def woken_def)
qed


section \<open>Properties\<close>



text \<open>An instance: the process of the example machine sleeps on the clock.\<close>

definition tick_kernel :: kernel where
  "tick_kernel = with_lock 0 L_ticks ukernel"

lemma tick_kernel_ok:
  "running 0 0 tick_kernel" "holds 0 L_ticks tick_kernel" "ptable tick_kernel = ptable ukernel"
  using cli_ok_with_lock [of 0 ukernel L_ticks]
  by (simp_all add: tick_kernel_def running_def holds_def) (simp_all add: with_lock_def cpu0_def ukernel_def)


end
