(* ===== verification/Kill_Props.thy ===== *)
theory Kill_Props
  imports Sched_Props
begin

text \<open>
  Sending signals and stopped processes: \<open>kill\<close>, \<open>check_cont_sig\<close> and the scheduler's test for
  a frozen process (\<^verbatim>\<open>proc.c\<close>).
\<close>

section \<open>Signal bits\<close>

lemma sigbit_apart: "i < 32 \<Longrightarrow> j < 32 \<Longrightarrow> sigbit i AND sigbit j = (if i = j then sigbit i else 0)"
  by (auto intro!: bit_word_eqI simp: sigbit_def bit_simps)

lemma sigbit_nonzero [simp]: "i < 32 \<Longrightarrow> sigbit i \<noteq> 0"
  using arg_cong [of "sigbit i" 0 "\<lambda>x. bit x i"] by (auto simp: sigbit_def bit_simps)

section \<open>kill\<close>

text \<open>A signal that ends a sleep: \<open>SIGKILL\<close>, or one whose unblocked action is to kill.\<close>

definition deadly :: "nat \<Rightarrow> proc \<Rightarrow> bool" where
  "deadly sn q \<longleftrightarrow> sn = SIGKILL \<or> p_signalMask q AND sigbit sn = 0 \<and>
     (p_signalHandler q sn = of_nat SIGKILL \<or> p_signalHandler q sn = SIG_DFL)"

definition signalled :: "nat \<Rightarrow> proc \<Rightarrow> proc" where
  "signalled sn q = q\<lparr>p_pendingSignals := p_pendingSignals q OR sigbit sn,
     p_state := (if p_state q = SLEEPING \<and> deadly sn q then RUNNABLE else p_state q)\<rparr>"

definition target :: "u32 \<Rightarrow> kernel \<Rightarrow> nat \<Rightarrow> bool" where
  "target pid s i \<longleftrightarrow> p_pid (ptable s i) = pid \<and> p_state (ptable s i) \<noteq> UNUSED"

lemma kill_proc_other: "\<not> target pid s i \<Longrightarrow> kill_proc pid sn i s w = Done None s w"
  by (auto simp: kill_proc_def target_def)

text \<open>The branch of \<open>kill_proc\<close> that may end a sleep.\<close>

lemma kill_proc_target:
  assumes "target pid t i" and "p_signalHandler (ptable t i) sn \<noteq> SIG_IGN"
    and "p_state (ptable t i) = M_SLEEPING \<longrightarrow> \<not> deadly sn (ptable t i)"
  shows "kill_proc pid sn i t w =
    kseq popcli (kret (Some 0)) (t\<lparr>ptable := (ptable t)(i := signalled sn (ptable t i))\<rparr>) w"
proof -
  define q where "q = (ptable t i)\<lparr>p_pendingSignals := p_pendingSignals (ptable t i) OR sigbit sn\<rparr>"
  define t1 where "t1 = t\<lparr>ptable := (ptable t)(i := q)\<rparr>"
  have t1: "ptable t1 i = q" "t1\<lparr>ptable := (ptable t1)(i := x)\<rparr> = t\<lparr>ptable := (ptable t)(i := x)\<rparr>" for x
    by (simp_all add: t1_def)
  have q: "p_state q = p_state (ptable t i)" "deadly sn q = deadly sn (ptable t i)"
    by (simp_all add: q_def deadly_def)
  have sig: "signalled sn (ptable t i) =
      (if p_state q = SLEEPING \<and> deadly sn q then q\<lparr>p_state := RUNNABLE\<rparr> else q)"
    by (auto simp: signalled_def q_def deadly_def)
  define W where "W = kif (\<lambda>s. p_state (ptable s i) = SLEEPING \<or> p_state (ptable s i) = M_SLEEPING)
       (kif (\<lambda>s. deadly sn (ptable s i))
         (kseq (kwhile (\<lambda>s. p_state (ptable s i) = M_SLEEPING) kworld)
           (kbind (cas_state i SLEEPING RUNNABLE) (\<lambda>_. kret ()))) (kret ())) (kret ())"
  have W: "W t1 w = Done () (t\<lparr>ptable := (ptable t)(i := signalled sn (ptable t i))\<rparr>) w"
    using assms(3) unfolding W_def
    by (cases "p_state q = SLEEPING"; cases "deadly sn q") (simp_all add: sig t1 q, simp_all add: t1_def)
  have "kill_proc pid sn i =
      kif (\<lambda>s. p_pid (ptable s i) = pid \<and> p_state (ptable s i) \<noteq> UNUSED)
       (kif (\<lambda>s. p_signalHandler (ptable s i) sn = SIG_IGN) (kseq popcli (kret (Some 0)))
         (kseq (upd_proc i (\<lambda>q. q\<lparr>p_pendingSignals := p_pendingSignals q OR sigbit sn\<rparr>))
         (kseq W (kseq popcli (kret (Some 0)))))) (kret None)"
    by (simp only: kill_proc_def W_def deadly_def)
  then show ?thesis
    using assms(1,2) W
    by (simp add: target_def t1_def q_def kseq_done [of W] del: kseq_app)
      (simp add: kseq_done [of "upd_proc _ _"] kseq_done [of W] t1_def q_def del: kseq_app)
qed


lemma kill_scan:
  assumes "i < NPROC" and "\<forall>j < i. \<not> target pid t j"
  shows "kfind NPROC 0 (kill_proc pid sn) t w = kfind (NPROC - i) i (kill_proc pid sn) t w"
  using kfind_skip [of i "kill_proc pid sn" 0 t w "NPROC - i"] assms by (simp add: kill_proc_other)

lemma kill_scan_none:
  assumes "\<forall>j < NPROC. \<not> target pid t j"
  shows "kfind NPROC 0 (kill_proc pid sn) t w = Done None t w"
  using kfind_skip [of NPROC "kill_proc pid sn" 0 t w 0] assms by (simp add: kill_proc_other)

lemma nested_sel [simp]:
  "ptable (nested c n s) = ptable s" "target pid (nested c n s) = target pid s"
  "(nested c n s)\<lparr>ptable := pt\<rparr> = nested c n (s\<lparr>ptable := pt\<rparr>)"
  by (simp_all add: nested_def target_def fun_eq_iff)

lemma kill_found:
  assumes "cli_ok c s" and "0 \<le> sint signum" and "sint signum < 32"
    and "i < NPROC" and "target pid s i" and "\<forall>j < i. \<not> target pid s j" and sn: "sn = unat signum"
    and "p_state (ptable s i) = M_SLEEPING \<longrightarrow> \<not> deadly sn (ptable s i)"
  shows "kill pid signum s w = Done 0 (if p_signalHandler (ptable s i) sn = SIG_IGN then s
     else s\<lparr>ptable := (ptable s)(i := signalled sn (ptable s i))\<rparr>) w"
proof -
  let ?t = "if p_signalHandler (ptable s i) sn = SIG_IGN then s
     else s\<lparr>ptable := (ptable s)(i := signalled sn (ptable s i))\<rparr>"
  obtain k where k: "NPROC - i = Suc k" using assms(4) by (cases "NPROC - i") auto
  have pop: "popcli (nested c (Suc 0) ?t) w = Done () ?t w"
    using popcli_nested [of c ?t 0 w] assms(1) by (simp only: nested_0) (simp split: if_splits)
  have "kill_proc pid sn i (nested c (Suc 0) s) w = kseq popcli (kret (Some 0)) (nested c (Suc 0) ?t) w"
  proof (cases "p_signalHandler (ptable s i) sn = SIG_IGN")
    case True
    then show ?thesis using assms(5) by (simp add: kill_proc_def target_def)
  next
    case False
    then show ?thesis using kill_proc_target [of pid "nested c (Suc 0) s" i sn w] assms(5,8) by simp
  qed
  also have "\<dots> = Done (Some 0) ?t w" using pop by simp
  finally have "kfind NPROC 0 (kill_proc pid sn) (nested c (Suc 0) s) w = Done (Some 0) ?t w"
    using kill_scan [of i pid "nested c (Suc 0) s" sn w] assms(4,6) by (simp add: k)
  moreover have "pushcli s w = Done () (nested c (Suc 0) s) w" using pushcli_nested [OF assms(1), of 0] by simp
  ultimately show ?thesis using assms(2,3) by (simp add: kill_def sn)
qed

lemma kill_none:
  assumes "cli_ok c s" and "\<forall>j < NPROC. \<not> target pid s j"
  shows "kill pid signum s w = Done minus1 s w"
proof -
  have "pushcli s w = Done () (nested c (Suc 0) s) w" using pushcli_nested [OF assms(1), of 0] by simp
  moreover have "popcli (nested c (Suc 0) s) w = Done () s w" using popcli_nested [OF assms(1), of 0] by simp
  moreover have "kfind NPROC 0 (kill_proc pid (unat signum)) (nested c (Suc 0) s) w = Done None (nested c (Suc 0) s) w"
    using assms(2) by (intro kill_scan_none) simp
  ultimately show ?thesis by (simp add: kill_def)
qed

section \<open>Stopped processes\<close>

text \<open>Signal \<open>i\<close> would continue the process.\<close>

definition continues :: "proc \<Rightarrow> nat \<Rightarrow> bool" where
  "continues q i \<longleftrightarrow> p_pendingSignals q AND sigbit i \<noteq> 0 \<and> p_signalMask q AND sigbit i = 0 \<and>
     (p_signalHandler q i = of_nat SIGCONT \<or> i = SIGCONT \<and> p_signalHandler q i = SIG_DFL)"

lemma check_cont_sig_none:
  assumes "\<forall>i < 32. \<not> continues (ptable s p) i"
  shows "check_cont_sig p s w = Done False s w"
proof -
  let ?f = "\<lambda>i. kif (\<lambda>s. continues (ptable s p) i)
      (kseq (upd_proc p (\<lambda>q. q\<lparr>p_pendingSignals := p_pendingSignals q XOR sigbit i\<rparr>)) (kret (Some ()))) (kret None)"
  have "kfind (32 + 0) 0 ?f s w = kfind 0 (0 + 32) ?f s w"
    using assms by (intro kfind_skip) simp
  moreover have "check_cont_sig p = kbind (kfind 32 0 ?f) (\<lambda>r. kret (r \<noteq> None))"
    by (simp only: check_cont_sig_def continues_def Let_def)
  ultimately show ?thesis by simp
qed

lemma check_cont_sig_some:
  assumes "i < 32" and "continues (ptable s p) i" and "\<forall>j < i. \<not> continues (ptable s p) j"
  shows "check_cont_sig p s w = Done True (s\<lparr>ptable := (ptable s)(p := (ptable s p)\<lparr>
    p_pendingSignals := p_pendingSignals (ptable s p) XOR sigbit i\<rparr>)\<rparr>) w"
proof -
  define f where "f = (\<lambda>i. kif (\<lambda>s. continues (ptable s p) i)
      (kseq (upd_proc p (\<lambda>q. q\<lparr>p_pendingSignals := p_pendingSignals q XOR sigbit i\<rparr>)) (kret (Some ()))) (kret None))"
  obtain k where k: "32 - i = Suc k" using assms(1) by (cases "32 - i") auto
  have eq: "i + Suc k = 32" using k by simp
  have "kfind (i + Suc k) 0 f s w = kfind (Suc k) (0 + i) f s w"
    using assms by (intro kfind_skip) (simp add: f_def)
  then have "kfind 32 0 f s w = kfind (Suc k) i f s w" by (simp only: eq add_0)
  moreover have "f i s w = Done (Some ()) (s\<lparr>ptable := (ptable s)(p := (ptable s p)\<lparr>
      p_pendingSignals := p_pendingSignals (ptable s p) XOR sigbit i\<rparr>)\<rparr>) w"
    using assms(2) by (simp add: f_def)
  ultimately have "kfind 32 0 f s w = Done (Some ()) (s\<lparr>ptable := (ptable s)(p := (ptable s p)\<lparr>
      p_pendingSignals := p_pendingSignals (ptable s p) XOR sigbit i\<rparr>)\<rparr>) w"
    by simp
  moreover have "check_cont_sig p = kbind (kfind 32 0 f) (\<lambda>r. kret (r \<noteq> None))"
    by (simp only: check_cont_sig_def continues_def Let_def f_def)
  ultimately show ?thesis by simp
qed

section \<open>Properties\<close>


text \<open>An instance: signal 9 to process 2 of the example machine.\<close>

lemma target_ukernel: "target 2 ukernel 0"
  by (simp add: target_def)


text \<open>C16. A stopped process runs again only through a continuing signal. If the scheduler of any CPU
  comes to a process that is frozen and none of its pending, unblocked signals continues it, it
  passes over the process and changes nothing, so even a pending \<open>SIGKILL\<close> cannot end it. If
  some signal continues it, the first such is consumed and the process is no longer frozen.\<close>

theorem stopped_process:
  assumes "p_frozen (ptable s p)"
  shows "((\<forall>i < 32. \<not> continues (ptable s p) i) \<longrightarrow> sched_proc c p s w = Done () s w) \<and>
    (p_pendingSignals (ptable s p) = sigbit SIGKILL \<and> p_signalHandler (ptable s p) SIGKILL = SIG_DFL \<longrightarrow>
      sched_proc c p s w = Done () s w) \<and>
    (\<forall>i < 32. continues (ptable s p) i \<and> (\<forall>j < i. \<not> continues (ptable s p) j) \<longrightarrow>
      sched_frozen p s w = Done False (s\<lparr>ptable := (ptable s)(p := (ptable s p)\<lparr>
        p_pendingSignals := p_pendingSignals (ptable s p) XOR sigbit i, p_frozen := False\<rparr>)\<rparr>) w)"
proof (intro conjI allI impI)
  assume "\<forall>i < 32. \<not> continues (ptable s p) i"
  then show "sched_proc c p s w = Done () s w"
    using assms by (simp add: sched_proc_def sched_frozen_def check_cont_sig_none)
next
  assume "p_pendingSignals (ptable s p) = sigbit SIGKILL \<and> p_signalHandler (ptable s p) SIGKILL = SIG_DFL"
  then have "\<forall>i < 32. \<not> continues (ptable s p) i"
    using sigbit_apart [of SIGKILL] by (auto simp: continues_def split: if_splits)
  then show "sched_proc c p s w = Done () s w"
    using assms by (simp add: sched_proc_def sched_frozen_def check_cont_sig_none)
next
  fix i :: nat assume "i < 32" and "continues (ptable s p) i \<and> (\<forall>j < i. \<not> continues (ptable s p) j)"
  then show "sched_frozen p s w = Done False (s\<lparr>ptable := (ptable s)(p := (ptable s p)\<lparr>
        p_pendingSignals := p_pendingSignals (ptable s p) XOR sigbit i, p_frozen := False\<rparr>)\<rparr>) w"
    using assms by (simp add: sched_frozen_def check_cont_sig_some)
qed


definition frozen_kernel :: "nat \<Rightarrow> kernel" where
  "frozen_kernel sn = ukernel\<lparr>ptable := (ptable ukernel)(0 := (ptable ukernel 0)\<lparr>p_state := RUNNABLE,
     p_frozen := True, p_pendingSignals := sigbit sn\<rparr>)\<rparr>"

theorem stopped_process_witness:
  "sched_proc 0 0 (frozen_kernel 9) [] = Done () (frozen_kernel 9) [] \<and>
   (\<exists>t. sched_frozen 0 (frozen_kernel 19) [] = Done False t [] \<and> \<not> p_frozen (ptable t 0) \<and>
     p_pendingSignals (ptable t 0) = 0)"
proof -
  have "continues (ptable (frozen_kernel 19) 0) 19" "\<forall>j < 19. \<not> continues (ptable (frozen_kernel 19) 0) j"
    using sigbit_apart [of 19] by (auto simp: continues_def frozen_kernel_def proc0_def)
  then have "sched_frozen 0 (frozen_kernel 19) [] = Done False ((frozen_kernel 19)\<lparr>ptable :=
      (ptable (frozen_kernel 19))(0 := (ptable (frozen_kernel 19) 0)\<lparr>p_pendingSignals :=
        p_pendingSignals (ptable (frozen_kernel 19) 0) XOR sigbit 19, p_frozen := False\<rparr>)\<rparr>) []"
    using conjunct2 [OF conjunct2 [OF stopped_process [of "frozen_kernel 19" 0 0 "[]"]], rule_format, of 19]
    by (simp add: frozen_kernel_def)
  moreover have "sched_proc 0 0 (frozen_kernel 9) [] = Done () (frozen_kernel 9) []"
    using stopped_process [of "frozen_kernel 9" 0 0 "[]"] by (simp add: frozen_kernel_def proc0_def)
  ultimately show ?thesis by (simp add: frozen_kernel_def)
qed

end
