(* ===== verification/Signal_Return.thy ===== *)
theory Signal_Return
  imports Trap Kill_Props
begin

text \<open>
  A signal from its delivery on the way to user space to the return from its handler:
  \<open>handle_signals\<close> pushes a frame on the user stack, the handler runs and returns into the
  injected code, which makes the system call \<open>sigret\<close>, and \<open>trap\<close>, \<open>syscall\<close> and \<open>sigret\<close>
  bring the interrupted registers back.
\<close>

section \<open>Delivery by the loop\<close>

text \<open>Signal \<open>i\<close> is the first that is not left alone.\<close>

definition first_signal :: "proc \<Rightarrow> nat \<Rightarrow> bool" where
  "first_signal q i \<longleftrightarrow> i < 32 \<and> (\<forall>j < i. left_alone q j) \<and> \<not> left_alone q i"

lemma not_left_alone_pending: "\<not> left_alone q i \<Longrightarrow> p_pendingSignals q \<noteq> 0"
  by (auto simp: left_alone_def)

lemma handle_signals_user:
  assumes run: "running c p s" and "cs AND 3 = 3" and "\<not> p_killed (ptable s p)"
    and first: "first_signal (ptable s p) i"
    and user: "user_handler (p_signalHandler (ptable s p) i)" "i \<noteq> SIGSTOP"
    and win: "filled (mem s) (cur_pgdir s) (tf_esp (p_tf (ptable s p)) - 91) 91 xs"
  shows "\<exists>m'. handle_signals cs s w =
      Done () (s\<lparr>mem := m', ptable := (ptable s)(p := delivered i (taken i (ptable s p)))\<rparr>) w \<and>
    filled m' (cur_pgdir s) (tf_esp (p_tf (ptable s p)) - 91) 91 (sigframe i (p_tf (ptable s p))) \<and>
    wrote (mem s) (cur_pgdir s) (tf_esp (p_tf (ptable s p)) - 91) 91 m'"
proof -
  obtain n where n: "32 - i = Suc n" using first by (cases "32 - i") (auto simp: first_signal_def)
  obtain m' where m': "handle_signal p i s w = Done (Some ())
      (s\<lparr>mem := m', ptable := (ptable s)(p := delivered i (taken i (ptable s p)))\<rparr>) w"
    "filled m' (cur_pgdir s) (tf_esp (p_tf (ptable s p)) - 91) 91 (sigframe i (p_tf (ptable s p)))"
    "wrote (mem s) (cur_pgdir s) (tf_esp (p_tf (ptable s p)) - 91) 91 m'"
    using handle_signal_user [OF _ user win] first unfolding first_signal_def by blast
  have "handle_signals cs s w = Done ()
      (s\<lparr>mem := m', ptable := (ptable s)(p := delivered i (taken i (ptable s p)))\<rparr>) w"
    using handle_signals_first [OF run assms(2,3), of i w] first not_left_alone_pending m'(1)
    by (auto simp: first_signal_def n)
  with m'(2,3) show ?thesis by blast
qed

lemma handle_signals_none:
  assumes "running c p s" and "p_pendingSignals (ptable s p) = 0"
  shows "handle_signals cs s w = Done () s w"
proof -
  have "kfind (Suc 31) 0 (handle_signal p) s w = Done (Some ()) s w"
    unfolding kfind.simps using assms(2) by (simp add: handle_signal_def)
  then show ?thesis using assms(1) by (simp add: handle_signals_def myproc_running [of c p])
qed

section \<open>The way back\<close>

lemma sigret_exec:
  assumes "running c p s" and "vread_list (mem s) (cur_pgdir s) (p_uTrapFrameBU (ptable s p)) 76 = Some bs"
  shows "sigret s w = Done () (s\<lparr>ptable := (ptable s)(p := (ptable s p)\<lparr>
      p_signalMask := p_signalMaskBU (ptable s p), p_tf := tf_of bs\<rparr>)\<rparr>) w"
  using assms by (simp add: sigret_def upd_tf_def vread_def curproc_running [of c p])

text \<open>The program makes the system call \<open>sigret\<close>, in a process that was not killed and has no
  signal pending, and the saved frame is still in its memory.\<close>

definition sigret_call :: "nat \<Rightarrow> trapframe \<Rightarrow> trapframe \<Rightarrow> kernel \<Rightarrow> bool" where
  "sigret_call p saved tf s \<longleftrightarrow> (\<exists>c. running c p s) \<and> tf_trapno tf = T_SYSCALL \<and> tf_eax tf = 24 \<and>
     \<not> p_killed (ptable s p) \<and> p_pendingSignals (ptable s p) = 0 \<and>
     vread_list (mem s) (cur_pgdir s) (p_uTrapFrameBU (ptable s p)) 76 = Some (tf_bytes saved)"

lemma user_trap_sigret:
  assumes call: "sigret_call p saved tf s"
  shows "user_trap dv tf s w = Done () (s\<lparr>ptable := (ptable s)(p := (ptable s p)\<lparr>
      p_signalMask := p_signalMaskBU (ptable s p), p_tf := saved\<lparr>tf_eax := 0\<rparr>\<rparr>),
      eflags_if := (tf_eflags saved AND 0x200 \<noteq> 0)\<rparr>) w"
proof -
  obtain c where c: "running c p s" using call by (auto simp: sigret_call_def)
  define s1 where "s1 = s\<lparr>ptable := (ptable s)(p := (ptable s p)\<lparr>p_tf := tf\<rparr>)\<rparr>"
  have s1: "running c p s1" "mem s1 = mem s" "cur_pgdir s1 = cur_pgdir s"
    "ptable s1 p = (ptable s p)\<lparr>p_tf := tf\<rparr>"
    using c by (simp_all add: s1_def)
  have "sigret s1 w = Done () (s1\<lparr>ptable := (ptable s1)(p := (ptable s1 p)\<lparr>
      p_signalMask := p_signalMaskBU (ptable s1 p), p_tf := saved\<rparr>)\<rparr>) w"
    using sigret_exec [OF s1(1), of "tf_bytes saved" w] call s1 by (simp add: sigret_call_def)
  moreover have "syscalls 24 = Some sys_sigret" by (simp add: syscalls_def)
  ultimately have "syscall s1 w = Done () (s\<lparr>ptable := (ptable s)(p := (ptable s p)\<lparr>
      p_signalMask := p_signalMaskBU (ptable s p), p_tf := saved\<lparr>tf_eax := 0\<rparr>\<rparr>)\<rparr>) w"
    using call s1(1,4)
    by (simp add: syscall_def curproc_running [of c p] sigret_call_def upd_tf_def s1_def sys_sigret_def)
  then have "trap dv tf s1 w = Done () (s\<lparr>ptable := (ptable s)(p := (ptable s p)\<lparr>
      p_signalMask := p_signalMaskBU (ptable s p), p_tf := saved\<lparr>tf_eax := 0\<rparr>\<rparr>)\<rparr>) w"
    using call c
    by (simp add: trap_def curproc_running [of c p] sigret_call_def upd_tf_def s1_def)
  then show ?thesis
    using call c
    by (simp add: user_trap_def curproc_running [of c p] sigret_call_def upd_tf_def s1_def
        handle_signals_none [of c p])
qed


section \<open>The round trip\<close>

text \<open>C1. A signal with a user handler is delivered and returned from. If \<open>i\<close> is the first signal
  of the running process that is pending and neither blocked nor ignored, then on the way back
  to user space \<open>handle_signals\<close> writes exactly 91 bytes below the user stack pointer: the
  return address of the injected code, the signal number, that code and the interrupted
  registers. The process continues in the handler with the handler's mask and the signal no
  longer pending. When the handler later returns into the injected code and thereby makes the
  system call \<open>sigret\<close>, all registers are as they were, except \<open>eax\<close>, which is 0, and the mask
  is the interrupted one.\<close>

theorem signal_round_trip:
  assumes "running c p s" and "\<not> p_killed (ptable s p)" and "tf_cs (p_tf (ptable s p)) AND 3 = DPL_USER"
    and "first_signal (ptable s p) i" and "user_handler (p_signalHandler (ptable s p) i)" and "i \<noteq> SIGSTOP"
    and "window (mem s) (cur_pgdir s) (tf_esp (p_tf (ptable s p)) - 91) 91"
  shows "\<exists>m' q'. handle_signals (tf_cs (p_tf (ptable s p))) s w =
        Done () (s\<lparr>mem := m', ptable := (ptable s)(p := q')\<rparr>) w \<and>
      q' = (ptable s p)\<lparr>p_pendingSignals := p_pendingSignals (ptable s p) AND NOT (sigbit i),
        p_signalMaskBU := p_signalMask (ptable s p), p_signalMask := p_signalHandlerMasks (ptable s p) i,
        p_uTrapFrameBU := tf_esp (p_tf (ptable s p)) - 76,
        p_tf := (p_tf (ptable s p))\<lparr>tf_esp := tf_esp (p_tf (ptable s p)) - 91,
          tf_eip := p_signalHandler (ptable s p) i\<rparr>\<rparr> \<and>
      wview m' (cur_pgdir s) (tf_esp (p_tf (ptable s p)) - 91) 91 = sigframe i (p_tf (ptable s p)) \<and>
      same_outside (mem s) (cur_pgdir s) (tf_esp (p_tf (ptable s p)) - 91) 91 m' \<and>
      vread_list m' (cur_pgdir s) (p_uTrapFrameBU q') 76 = Some (tf_bytes (p_tf (ptable s p))) \<and>
      (\<forall>dv tf s2 w2. sigret_call p (p_tf (ptable s p)) tf s2 \<and>
          p_signalMaskBU (ptable s2 p) = p_signalMaskBU q' \<longrightarrow>
        user_trap dv tf s2 w2 = Done () (s2\<lparr>ptable := (ptable s2)(p := (ptable s2 p)\<lparr>
            p_signalMask := p_signalMask (ptable s p), p_tf := (p_tf (ptable s p))\<lparr>tf_eax := 0\<rparr>\<rparr>),
          eflags_if := (tf_eflags (p_tf (ptable s p)) AND 0x200 \<noteq> 0)\<rparr>) w2)"
proof -
  define q where "q = ptable s p"
  define q' where "q' = delivered i (taken i q)"
  let ?lo = "tf_esp (p_tf q) - 91"
  obtain m' where m': "handle_signals (tf_cs (p_tf q)) s w = Done () (s\<lparr>mem := m', ptable := (ptable s)(p := q')\<rparr>) w"
      "filled m' (cur_pgdir s) ?lo 91 (sigframe i (p_tf q))" "wrote (mem s) (cur_pgdir s) ?lo 91 m'"
    using handle_signals_user [OF assms(1,3,2,4,5,6), of _ w] assms(7)
    unfolding q_def q'_def filled_def by blast
  have "vread_list m' (cur_pgdir s) (?lo + of_nat 15) 76 = Some (slice 15 76 (sigframe i (p_tf q)))"
    using vread_window [of m' "cur_pgdir s" ?lo 91 15 76] m'(2) by (simp add: filled_def)
  moreover have "slice 15 76 (sigframe i (p_tf q)) = tf_bytes (p_tf q)"
    by (simp add: slice_def sigframe_def sigret_code_def)
  moreover have q': "p_uTrapFrameBU q' = ?lo + of_nat 15" "p_signalMaskBU q' = p_signalMask q"
      "q' = q\<lparr>p_pendingSignals := p_pendingSignals q AND NOT (sigbit i), p_signalMaskBU := p_signalMask q,
        p_signalMask := p_signalHandlerMasks q i, p_uTrapFrameBU := tf_esp (p_tf q) - 76,
        p_tf := (p_tf q)\<lparr>tf_esp := ?lo, tf_eip := p_signalHandler q i\<rparr>\<rparr>"
    by (simp_all add: q'_def delivered_def taken_def)
  ultimately have rd: "vread_list m' (cur_pgdir s) (p_uTrapFrameBU q') 76 = Some (tf_bytes (p_tf q))"
    by simp
  have view: "wview m' (cur_pgdir s) ?lo 91 = sigframe i (p_tf q)" "same_outside (mem s) (cur_pgdir s) ?lo 91 m'"
    using m'(2,3) by (auto simp: filled_def wrote_def)
  show ?thesis
    unfolding q_def [symmetric] using m'(1) q'(2) rd view user_trap_sigret [of p "p_tf q"]
    by (intro exI [of _ m'] exI [of _ q'] conjI allI impI q'(3)) auto
qed


text \<open>An instance: signal 5 is pending in a process stopped at address 16 with \<open>eax\<close> 7, whose
  handler for it is at address 64. The last register set is again the interrupted one, but
  for \<open>eax\<close>.\<close>

definition sig_tf :: trapframe where
  "sig_tf = trapframe0\<lparr>tf_eax := 7, tf_eip := 16, tf_cs := 0x1b, tf_esp := 0x800, tf_eflags := 0x200\<rparr>"

definition sig_kernel :: kernel where
  "sig_kernel = ukernel\<lparr>ptable := (ptable ukernel)(0 := (ptable ukernel 0)\<lparr>p_tf := sig_tf,
     p_pendingSignals := sigbit 5, p_signalHandler := (\<lambda>_. 0)(5 := 64)\<rparr>)\<rparr>"

lemma sig_kernel_sel [simp]:
  "running 0 0 sig_kernel" "mem sig_kernel = umem" "cur_pgdir sig_kernel = 0x80200000"
  "ptable sig_kernel 0 = proc0\<lparr>p_sz := 4096, p_pgdir := 0x80200000, p_kstack := 0x80300000, p_state := RUNNING, p_pid := 2,
     p_tf := sig_tf, p_pendingSignals := sigbit 5, p_signalHandler := (\<lambda>_. 0)(5 := 64)\<rparr>"
  by (simp_all add: sig_kernel_def)

lemma sigbit_5: "sigbit 5 = 32" by (simp add: sigbit_def)

lemma sig_kernel_first: "first_signal (ptable sig_kernel 0) 5"
  using sigbit_apart [of 5] by (auto simp: first_signal_def left_alone_def sigbit_5 proc0_def)

definition sigret_tf :: trapframe where
  "sigret_tf = trapframe0\<lparr>tf_trapno := 64, tf_eax := 24\<rparr>"

definition dv0 :: device_input where
  "dv0 = \<lparr>dv_kbd = [], dv_uart = [], dv_cr2 = 0, dv_pcs = (\<lambda>_ _. [])\<rparr>"

theorem signal_round_trip_witness:
  "\<exists>s2 s3. handle_signals 0x1b sig_kernel [] = Done () s2 [] \<and>
     p_tf (ptable s2 0) = sig_tf\<lparr>tf_esp := 0x800 - 91, tf_eip := 64\<rparr> \<and>
     user_trap dv0 sigret_tf s2 [] = Done () s3 [] \<and> p_tf (ptable s3 0) = sig_tf\<lparr>tf_eax := 0\<rparr>"
proof -
  let ?q = "ptable sig_kernel 0"
  have "window umem 0x80200000 (0x800 - 91) 91"
    using umem_window(1) [of "0x800 - 91" 91] by simp
  then have hyps: "\<not> p_killed ?q" "tf_cs (p_tf ?q) AND 3 = DPL_USER" "user_handler (p_signalHandler ?q 5)"
      "window (mem sig_kernel) (cur_pgdir sig_kernel) (tf_esp (p_tf ?q) - 91) 91"
    by (simp_all add: proc0_def sig_tf_def user_handler_def)
  have tf: "p_tf ?q = sig_tf" "tf_cs sig_tf = 0x1b" "tf_esp sig_tf = 0x800" by (simp_all add: sig_tf_def)
  obtain m' q' where deliver: "handle_signals 0x1b sig_kernel [] =
        Done () (sig_kernel\<lparr>mem := m', ptable := (ptable sig_kernel)(0 := q')\<rparr>) []"
      "p_pendingSignals q' = p_pendingSignals ?q AND NOT (sigbit 5)" "p_killed q' = p_killed ?q"
      "p_tf q' = sig_tf\<lparr>tf_esp := 0x800 - 91, tf_eip := p_signalHandler ?q 5\<rparr>"
      "vread_list m' (cur_pgdir sig_kernel) (p_uTrapFrameBU q') 76 = Some (tf_bytes sig_tf)"
    and return: "\<And>dv tf s2 w2. sigret_call 0 sig_tf tf s2 \<and> p_signalMaskBU (ptable s2 0) = p_signalMaskBU q' \<Longrightarrow>
        \<exists>s3. user_trap dv tf s2 w2 = Done () s3 w2 \<and> p_tf (ptable s3 0) = sig_tf\<lparr>tf_eax := 0\<rparr>"
    using signal_round_trip [OF sig_kernel_sel(1) hyps(1,2) sig_kernel_first hyps(3) _ hyps(4), of "[]"]
    unfolding tf by fastforce
  define s2 where "s2 = sig_kernel\<lparr>mem := m', ptable := (ptable sig_kernel)(0 := q')\<rparr>"
  have "sigret_call 0 sig_tf sigret_tf s2"
    using deliver hyps(1) by (auto simp: sigret_call_def s2_def sigret_tf_def sigbit_5 intro!: exI [of _ 0])
  then show ?thesis using deliver(1,4) return [of sigret_tf s2 dv0 "[]"] unfolding s2_def by auto
qed

end
