(* ===== verification/Cas_Protocol.thy ===== *)
theory Cas_Protocol
  imports Kernel_State
begin

text \<open>
  The process states as a protocol between CPUs (\<^verbatim>\<open>proc.c\<close>). The theory Proc_Sched runs one
  thread and lets the rest of the system move only where the thread waits; here every CPU is a
  thread of its own and one step is one access to shared memory: one compare-and-swap, one
  store to \<open>chan\<close> or \<open>parent\<close>, one test of a spin loop that ends it. A spin loop whose
  condition holds has no step, so a CPU that spins is a CPU without a step.

  A machine state has the shared fields of the process table and, for each CPU, where in the
  code it is (\<open>loc\<close>). What a process does between the protocol's accesses, and everything that
  depends on data the protocol does not mention (whether a process is frozen, killed or out of
  memory), is a free choice of the step. The scheduler's three swaps after \<open>swtch\<close> are three
  steps. With the parameter \<open>at\<close> they are one step instead: that is the protocol the code means
  to implement, in which nobody can come between them.
\<close>

section \<open>States of the machine\<close>

text \<open>Where \<open>wakeup1\<close> returns to: an interrupt taken by the scheduler, a running process,
  \<open>exit\<close> of a process at an index of its second loop.\<close>

datatype cont = K_sched | K_run nat | K_exit nat nat

datatype loc =
    Sched                             \<comment> \<open>the scheduler's loop\<close>
  | Enter nat                         \<comment> \<open>the scheduler has won the process\<close>
  | Run nat                           \<comment> \<open>the process executes, with no protocol step under way\<close>
  | Off nat loc                       \<comment> \<open>the process is in \<open>sched\<close>; where it will resume\<close>
  | Settle1 nat | Settle2 nat | Settle3 nat
  | Sleep1 nat chan | Sleep2 nat chan | Slept nat
  | Wake cont "chan option" nat | Spin cont "chan option" nat
  | Woken1 cont "chan option" nat | Woken2 cont "chan option" nat
  | Kill_spin nat nat
  | Embryo nat nat | Born nat nat
  | Orphans nat nat | Orphan_spin nat nat | Gone
  | Wait0 nat | Wait1 nat | Scan nat nat bool | Scan_spin nat nat
  | Reap1 nat nat | Reap2 nat nat | Reap3 nat nat | Wait_none1 nat | Wait_none2 nat
  | Dead                              \<comment> \<open>\<open>panic\<close>\<close>

record mach =
  st :: "nat \<Rightarrow> procstate"
  chn :: "nat \<Rightarrow> chan option"
  par :: "nat \<Rightarrow> nat option"
  ctx :: "nat \<Rightarrow> loc"
  pc :: "nat \<Rightarrow> loc"
  ini :: "nat option"

definition set_pc :: "nat \<Rightarrow> loc \<Rightarrow> mach \<Rightarrow> mach" where
  "set_pc c l s = s\<lparr>pc := (pc s)(c := l)\<rparr>"

definition set_st :: "nat \<Rightarrow> procstate \<Rightarrow> mach \<Rightarrow> mach" where
  "set_st p v s = s\<lparr>st := (st s)(p := v)\<rparr>"

definition set_chn :: "nat \<Rightarrow> chan option \<Rightarrow> mach \<Rightarrow> mach" where
  "set_chn p v s = s\<lparr>chn := (chn s)(p := v)\<rparr>"

definition set_par :: "nat \<Rightarrow> nat option \<Rightarrow> mach \<Rightarrow> mach" where
  "set_par p v s = s\<lparr>par := (par s)(p := v)\<rparr>"

definition set_ctx :: "nat \<Rightarrow> loc \<Rightarrow> mach \<Rightarrow> mach" where
  "set_ctx p l s = s\<lparr>ctx := (ctx s)(p := l)\<rparr>"

text \<open>A swap whose result is not looked at.\<close>

definition cas_st :: "nat \<Rightarrow> procstate \<Rightarrow> procstate \<Rightarrow> mach \<Rightarrow> mach" where
  "cas_st p a b s = (if st s p = a then set_st p b s else s)"

definition resume :: "cont \<Rightarrow> loc" where
  "resume k = (case k of K_sched \<Rightarrow> Sched | K_run p \<Rightarrow> Run p | K_exit p i \<Rightarrow> Orphans p i)"

section \<open>The steps of CPU c\<close>

text \<open>\<open>scheduler\<close> and \<open>swtch\<close>.\<close>

inductive sched_step :: "bool \<Rightarrow> nat \<Rightarrow> mach \<Rightarrow> mach \<Rightarrow> bool" for at c where
  pick: "pc s c = Sched \<Longrightarrow> p < NPROC \<Longrightarrow> st s p = RUNNABLE \<Longrightarrow>
    sched_step at c s (set_pc c (Enter p) (set_st p M_RUNNING s))"
| enter: "pc s c = Enter p \<Longrightarrow>
    sched_step at c s (set_pc c (ctx s p) (cas_st p M_RUNNING RUNNING s))"
| leave: "pc s c = Off p l \<Longrightarrow> sched_step at c s (set_pc c (Settle1 p) (set_ctx p l s))"
| settle1: "\<not> at \<Longrightarrow> pc s c = Settle1 p \<Longrightarrow>
    sched_step at c s (set_pc c (Settle2 p) (cas_st p M_RUNNABLE RUNNABLE s))"
| settle2: "pc s c = Settle2 p \<Longrightarrow>
    sched_step at c s (set_pc c (Settle3 p) (cas_st p M_SLEEPING SLEEPING s))"
| settle3: "pc s c = Settle3 p \<Longrightarrow>
    sched_step at c s (set_pc c Sched (cas_st p M_ZOMBIE ZOMBIE s))"
| settle_at: "at \<Longrightarrow> pc s c = Settle1 p \<Longrightarrow>
    sched_step at c s (set_pc c Sched (cas_st p M_ZOMBIE ZOMBIE
      (cas_st p M_SLEEPING SLEEPING (cas_st p M_RUNNABLE RUNNABLE s))))"

text \<open>\<open>yield\<close> and \<open>sleep\<close>: the swap, the release of the lock, the store to \<open>chan\<close>.\<close>

inductive sleep_step :: "nat \<Rightarrow> mach \<Rightarrow> mach \<Rightarrow> bool" for c where
  yield_cas: "pc s c = Run p \<Longrightarrow> st s p = RUNNING \<Longrightarrow>
    sleep_step c s (set_pc c (Off p (Run p)) (set_st p M_RUNNABLE s))"
| sleep_cas: "pc s c = Run p \<Longrightarrow> st s p = RUNNING \<Longrightarrow>
    sleep_step c s (set_pc c (Sleep1 p ch) (set_st p M_SLEEPING s))"
| cas_panic: "pc s c = Run p \<Longrightarrow> st s p \<noteq> RUNNING \<Longrightarrow> sleep_step c s (set_pc c Dead s)"
| sleep_release: "pc s c = Sleep1 p ch \<Longrightarrow> sleep_step c s (set_pc c (Sleep2 p ch) s)"
| sleep_chan: "pc s c = Sleep2 p ch \<Longrightarrow>
    sleep_step c s (set_pc c (Off p (Slept p)) (set_chn p (Some ch) s))"
| slept: "pc s c = Slept p \<Longrightarrow> sleep_step c s (set_pc c (Run p) (set_chn p None s))"

text \<open>\<open>wakeup1\<close> on the entries of the table in turn, called by a process, by an interrupt or by
  \<open>exit\<close>; and the end of \<open>kill\<close> for a sleeping target.\<close>

definition sleeps_on :: "mach \<Rightarrow> chan option \<Rightarrow> nat \<Rightarrow> bool" where
  "sleeps_on s ch i \<longleftrightarrow> chn s i = ch \<and> (st s i = SLEEPING \<or> st s i = M_SLEEPING)"

inductive wakeup_step :: "nat \<Rightarrow> mach \<Rightarrow> mach \<Rightarrow> bool" for c where
  wakeup_run: "pc s c = Run p \<Longrightarrow> wakeup_step c s (set_pc c (Wake (K_run p) (Some ch) 0) s)"
| wakeup_intr: "pc s c = Sched \<Longrightarrow> wakeup_step c s (set_pc c (Wake K_sched (Some ch) 0) s)"
| wake_skip: "pc s c = Wake k ch i \<Longrightarrow> i < NPROC \<Longrightarrow> \<not> sleeps_on s ch i \<Longrightarrow>
    wakeup_step c s (set_pc c (Wake k ch (Suc i)) s)"
| wake_test: "pc s c = Wake k ch i \<Longrightarrow> i < NPROC \<Longrightarrow> sleeps_on s ch i \<Longrightarrow>
    wakeup_step c s (set_pc c (Spin k ch i) s)"
| wake_end: "pc s c = Wake k ch i \<Longrightarrow> NPROC \<le> i \<Longrightarrow> wakeup_step c s (set_pc c (resume k) s)"
| spin_cas: "pc s c = Spin k ch i \<Longrightarrow> st s i = SLEEPING \<Longrightarrow>
    wakeup_step c s (set_pc c (Woken1 k ch i) (set_st i M_RUNNABLE s))"
| spin_miss: "pc s c = Spin k ch i \<Longrightarrow> st s i \<noteq> SLEEPING \<Longrightarrow> st s i \<noteq> M_SLEEPING \<Longrightarrow>
    wakeup_step c s (set_pc c (Wake k ch (Suc i)) s)"
| woken_chan: "pc s c = Woken1 k ch i \<Longrightarrow>
    wakeup_step c s (set_pc c (Woken2 k ch i) (set_chn i None s))"
| woken_cas: "pc s c = Woken2 k ch i \<Longrightarrow> st s i = M_RUNNABLE \<Longrightarrow>
    wakeup_step c s (set_pc c (Wake k ch (Suc i)) (set_st i RUNNABLE s))"
| woken_panic: "pc s c = Woken2 k ch i \<Longrightarrow> st s i \<noteq> M_RUNNABLE \<Longrightarrow> wakeup_step c s (set_pc c Dead s)"
| kill_test: "pc s c = Run r \<Longrightarrow> i < NPROC \<Longrightarrow> st s i = SLEEPING \<or> st s i = M_SLEEPING \<Longrightarrow>
    wakeup_step c s (set_pc c (Kill_spin r i) s)"
| kill_cas: "pc s c = Kill_spin r i \<Longrightarrow> st s i \<noteq> M_SLEEPING \<Longrightarrow>
    wakeup_step c s (set_pc c (Run r) (cas_st i SLEEPING RUNNABLE s))"

text \<open>\<open>allocproc\<close> and the end of \<open>fork\<close>.\<close>

inductive fork_step :: "nat \<Rightarrow> mach \<Rightarrow> mach \<Rightarrow> bool" for c where
  fork_slot: "pc s c = Run r \<Longrightarrow> i < NPROC \<Longrightarrow> st s i = UNUSED \<Longrightarrow>
    fork_step c s (set_pc c (Embryo r i) (set_st i EMBRYO s))"
| fork_fail: "pc s c = Embryo r i \<Longrightarrow> fork_step c s (set_pc c (Run r) (set_st i UNUSED s))"
| fork_fill: "pc s c = Embryo r i \<Longrightarrow>
    fork_step c s (set_pc c (Born r i) (set_par i (Some r) (set_ctx i (Run i) s)))"
| fork_cas: "pc s c = Born r i \<Longrightarrow> st s i = EMBRYO \<Longrightarrow>
    fork_step c s (set_pc c (Run r) (set_st i RUNNABLE s))"
| fork_panic: "pc s c = Born r i \<Longrightarrow> st s i \<noteq> EMBRYO \<Longrightarrow> fork_step c s (set_pc c Dead s)"

text \<open>\<open>exit\<close>: the swap, \<open>wakeup1(parent)\<close>, the loop over the children, \<open>sched\<close>.\<close>

inductive exit_step :: "nat \<Rightarrow> mach \<Rightarrow> mach \<Rightarrow> bool" for c where
  exit_cas: "pc s c = Run p \<Longrightarrow> ini s \<noteq> Some p \<Longrightarrow>
    exit_step c s (set_pc c (Wake (K_exit p 0) (map_option Ch_proc (par s p)) 0) (cas_st p RUNNING M_ZOMBIE s))"
| orphan_skip: "pc s c = Orphans p i \<Longrightarrow> i < NPROC \<Longrightarrow> par s i \<noteq> Some p \<Longrightarrow>
    exit_step c s (set_pc c (Orphans p (Suc i)) s)"
| orphan_take: "pc s c = Orphans p i \<Longrightarrow> i < NPROC \<Longrightarrow> par s i = Some p \<Longrightarrow>
    exit_step c s (set_pc c (Orphan_spin p i) (set_par i (ini s) s))"
| orphan_zombie: "pc s c = Orphan_spin p i \<Longrightarrow> st s i = ZOMBIE \<Longrightarrow>
    exit_step c s (set_pc c (Wake (K_exit p (Suc i)) (map_option Ch_proc (ini s)) 0) s)"
| orphan_alive: "pc s c = Orphan_spin p i \<Longrightarrow> st s i \<noteq> ZOMBIE \<Longrightarrow> st s i \<noteq> M_ZOMBIE \<Longrightarrow>
    exit_step c s (set_pc c (Orphans p (Suc i)) s)"
| exit_sched: "pc s c = Orphans p i \<Longrightarrow> NPROC \<le> i \<Longrightarrow> exit_step c s (set_pc c (Off p Gone) s)"
| zombie_exit: "pc s c = Gone \<Longrightarrow> exit_step c s (set_pc c Dead s)"

text \<open>\<open>wait\<close>: its loop, with the process in state \<open>-SLEEPING\<close> while it looks for a dead child.\<close>

inductive wait_step :: "nat \<Rightarrow> mach \<Rightarrow> mach \<Rightarrow> bool" for c where
  wait_call: "pc s c = Run p \<Longrightarrow> wait_step c s (set_pc c (Wait0 p) s)"
| wait_cas: "pc s c = Wait0 p \<Longrightarrow> wait_step c s (set_pc c (Wait1 p) (cas_st p RUNNING M_SLEEPING s))"
| wait_chan: "pc s c = Wait1 p \<Longrightarrow>
    wait_step c s (set_pc c (Scan p 0 False) (set_chn p (Some (Ch_proc p)) s))"
| scan_skip: "pc s c = Scan p i hk \<Longrightarrow> i < NPROC \<Longrightarrow> par s i \<noteq> Some p \<Longrightarrow>
    wait_step c s (set_pc c (Scan p (Suc i) hk) s)"
| scan_child: "pc s c = Scan p i hk \<Longrightarrow> i < NPROC \<Longrightarrow> par s i = Some p \<Longrightarrow>
    wait_step c s (set_pc c (Scan_spin p i) s)"
| scan_cas: "pc s c = Scan_spin p i \<Longrightarrow> st s i = ZOMBIE \<Longrightarrow>
    wait_step c s (set_pc c (Reap1 p i) (set_st i PRE_UNUSED s))"
| scan_alive: "pc s c = Scan_spin p i \<Longrightarrow> st s i \<noteq> ZOMBIE \<Longrightarrow> st s i \<noteq> M_ZOMBIE \<Longrightarrow>
    wait_step c s (set_pc c (Scan p (Suc i) True) s)"
| reap_clear: "pc s c = Reap1 p i \<Longrightarrow> wait_step c s (set_pc c (Reap2 p i) (set_par i None s))"
| reap_run: "pc s c = Reap2 p i \<Longrightarrow> st s p = M_SLEEPING \<Longrightarrow>
    wait_step c s (set_pc c (Reap3 p i) (set_st p RUNNING s))"
| reap_free: "pc s c = Reap3 p i \<Longrightarrow> st s i = PRE_UNUSED \<Longrightarrow>
    wait_step c s (set_pc c (Run p) (set_st i UNUSED s))"
| reap_panic: "pc s c = Reap2 p i \<Longrightarrow> st s p \<noteq> M_SLEEPING \<Longrightarrow> wait_step c s (set_pc c Dead s)"
| free_panic: "pc s c = Reap3 p i \<Longrightarrow> st s i \<noteq> PRE_UNUSED \<Longrightarrow> wait_step c s (set_pc c Dead s)"
| wait_give_up: "pc s c = Scan p i hk \<Longrightarrow> NPROC \<le> i \<Longrightarrow> wait_step c s (set_pc c (Wait_none1 p) s)"
| wait_none_cas: "pc s c = Wait_none1 p \<Longrightarrow> st s p = M_SLEEPING \<Longrightarrow>
    wait_step c s (set_pc c (Wait_none2 p) (set_st p RUNNING s))"
| wait_none_panic: "pc s c = Wait_none1 p \<Longrightarrow> st s p \<noteq> M_SLEEPING \<Longrightarrow> wait_step c s (set_pc c Dead s)"
| wait_none_chan: "pc s c = Wait_none2 p \<Longrightarrow> wait_step c s (set_pc c (Run p) (set_chn p None s))"
| wait_sched: "pc s c = Scan p i True \<Longrightarrow> NPROC \<le> i \<Longrightarrow> wait_step c s (set_pc c (Off p (Wait0 p)) s)"

text \<open>The machine.\<close>

inductive step :: "bool \<Rightarrow> mach \<Rightarrow> mach \<Rightarrow> bool" for at where
  step_sched: "c < NCPU \<Longrightarrow> sched_step at c s t \<Longrightarrow> step at s t"
| step_sleep: "c < NCPU \<Longrightarrow> sleep_step c s t \<Longrightarrow> step at s t"
| step_wakeup: "c < NCPU \<Longrightarrow> wakeup_step c s t \<Longrightarrow> step at s t"
| step_fork: "c < NCPU \<Longrightarrow> fork_step c s t \<Longrightarrow> step at s t"
| step_exit: "c < NCPU \<Longrightarrow> exit_step c s t \<Longrightarrow> step at s t"
| step_wait: "c < NCPU \<Longrightarrow> wait_step c s t \<Longrightarrow> step at s t"

text \<open>After \<open>userinit\<close>: the first process is runnable, every CPU is in its scheduler.\<close>

definition boot :: mach where
  "boot = \<lparr>st = (\<lambda>_. UNUSED)(0 := RUNNABLE), chn = (\<lambda>_. None), par = (\<lambda>_. None),
     ctx = (\<lambda>_. Gone)(0 := Run 0), pc = (\<lambda>_. Sched), ini = Some 0\<rparr>"

inductive reach :: "bool \<Rightarrow> mach \<Rightarrow> bool" for at where
  reach_boot: "reach at boot"
| reach_step: "reach at s \<Longrightarrow> step at s t \<Longrightarrow> reach at t"


section \<open>Ownership\<close>

text \<open>The processes a CPU has taken by a swap and not yet given back: the one it runs, and the one
  it is waking, creating or reaping. \<open>need l p\<close> is the state the owner expects \<open>p\<close> in.\<close>

fun cont_proc :: "cont \<Rightarrow> nat set" where
  "cont_proc K_sched = {}"
| "cont_proc (K_run p) = {p}"
| "cont_proc (K_exit p i) = {p}"

fun cont_need :: "cont \<Rightarrow> procstate set" where
  "cont_need (K_exit p i) = {M_ZOMBIE}"
| "cont_need _ = {RUNNING}"

fun owns :: "loc \<Rightarrow> nat set" where
  "owns (Enter p) = {p}" | "owns (Run p) = {p}" | "owns (Off p l) = {p}"
| "owns (Settle1 p) = {p}" | "owns (Sleep1 p ch) = {p}" | "owns (Sleep2 p ch) = {p}" | "owns (Slept p) = {p}"
| "owns (Wake k ch i) = cont_proc k" | "owns (Spin k ch i) = cont_proc k"
| "owns (Woken1 k ch i) = insert i (cont_proc k)" | "owns (Woken2 k ch i) = insert i (cont_proc k)"
| "owns (Kill_spin r i) = {r}" | "owns (Embryo r i) = {r, i}" | "owns (Born r i) = {r, i}"
| "owns (Orphans p i) = {p}" | "owns (Orphan_spin p i) = {p}"
| "owns (Wait0 p) = {p}" | "owns (Wait1 p) = {p}" | "owns (Scan p i hk) = {p}" | "owns (Scan_spin p i) = {p}"
| "owns (Reap1 p i) = {p, i}" | "owns (Reap2 p i) = {p, i}" | "owns (Reap3 p i) = {p, i}"
| "owns (Wait_none1 p) = {p}" | "owns (Wait_none2 p) = {p}"
| "owns _ = {}"

fun need :: "loc \<Rightarrow> nat \<Rightarrow> procstate set" where
  "need (Enter p) q = {M_RUNNING}"
| "need (Off p l) q = {M_RUNNABLE, M_SLEEPING, M_ZOMBIE}" | "need (Settle1 p) q = {M_RUNNABLE, M_SLEEPING, M_ZOMBIE}"
| "need (Sleep1 p ch) q = {M_SLEEPING}" | "need (Sleep2 p ch) q = {M_SLEEPING}"
| "need (Wake k ch i) q = cont_need k" | "need (Spin k ch i) q = cont_need k"
| "need (Woken1 k ch i) q = (if q = i then {M_RUNNABLE} else cont_need k)"
| "need (Woken2 k ch i) q = (if q = i then {M_RUNNABLE} else cont_need k)"
| "need (Embryo r i) q = (if q = i then {EMBRYO} else {RUNNING})"
| "need (Born r i) q = (if q = i then {EMBRYO} else {RUNNING})"
| "need (Orphans p i) q = {M_ZOMBIE}" | "need (Orphan_spin p i) q = {M_ZOMBIE}"
| "need (Wait1 p) q = {M_SLEEPING}" | "need (Scan p i hk) q = {M_SLEEPING}" | "need (Scan_spin p i) q = {M_SLEEPING}"
| "need (Reap1 p i) q = (if q = i then {PRE_UNUSED} else {M_SLEEPING})"
| "need (Reap2 p i) q = (if q = i then {PRE_UNUSED} else {M_SLEEPING})"
| "need (Reap3 p i) q = (if q = i then {PRE_UNUSED} else {RUNNING})"
| "need (Wait_none1 p) q = {M_SLEEPING}"
| "need _ q = {RUNNING}"

definition at_rest :: "procstate set" where
  "at_rest = {UNUSED, SLEEPING, RUNNABLE, ZOMBIE}"

lemma cont_need_at_rest [simp]: "cont_need k \<inter> at_rest = {}"
  by (cases k) (auto simp: at_rest_def)

definition owned :: "mach \<Rightarrow> bool" where
  "owned s \<longleftrightarrow>
     (\<forall>p c. p \<in> owns (pc s c) \<longrightarrow> st s p \<in> need (pc s c) p \<and> (\<forall>d. p \<in> owns (pc s d) \<longrightarrow> d = c)) \<and>
     (\<forall>p. (\<forall>c. p \<notin> owns (pc s c)) \<longrightarrow> st s p \<in> at_rest)"

lemma need_not_at_rest: "need l p \<inter> at_rest = {}"
proof -
  show ?thesis using cont_need_at_rest by (cases "(l, p)" rule: need.cases) (auto simp: at_rest_def)
qed

lemma owned_unowned: "owned s \<Longrightarrow> st s p \<in> at_rest \<Longrightarrow> p \<notin> owns (pc s c)"
  using need_not_at_rest unfolding owned_def by blast

text \<open>The shape of every step: CPU \<open>c\<close> moves from \<open>l\<close> to \<open>l'\<close>, takes processes that are in a
  at_rest state, gives back processes in a at_rest state, and otherwise leaves states alone.\<close>

lemma owned_move:
  assumes inv: "owned s" and pc: "pc t = (pc s)(c := l')"
    and gain: "\<forall>q \<in> owns l'. st t q \<in> need l' q \<and> (q \<in> owns (pc s c) \<or> st s q \<in> at_rest)"
    and give: "\<forall>q \<in> owns (pc s c) - owns l'. st t q \<in> at_rest"
    and rest: "\<forall>q. q \<notin> owns (pc s c) \<union> owns l' \<longrightarrow> st t q = st s q \<or> st s q \<in> at_rest \<and> st t q \<in> at_rest"
  shows "owned t"
proof -
  have un: "st s q \<in> at_rest \<Longrightarrow> q \<notin> owns (pc s d)" for q d using inv by (rule owned_unowned)
  have one: "q \<in> owns (pc s d) \<Longrightarrow> q \<in> owns (pc s e) \<Longrightarrow> d = e" for q d e
    using inv unfolding owned_def by blast
  have A: "st t q \<in> need (pc t d) q \<and> (\<forall>e. q \<in> owns (pc t e) \<longrightarrow> e = d)" if "q \<in> owns (pc t d)" for q d
  proof (cases "d = c")
    case True
    then have q: "q \<in> owns l'" using that pc by simp
    moreover have "e = c" if "q \<in> owns (pc t e)" for e
      using that gain q un one unfolding pc by (metis fun_upd_apply)
    moreover have "st t q \<in> need l' q" using gain q by blast
    moreover have "pc t d = l'" by (simp add: True pc)
    ultimately show ?thesis using True by metis
  next
    case False
    then have d: "q \<in> owns (pc s d)" using that pc by simp
    then have nc: "q \<notin> owns (pc s c)" using one False by blast
    have ns: "st s q \<notin> at_rest" using un d by blast
    then have "q \<notin> owns l'" using gain nc by blast
    then have "st t q = st s q" using rest nc ns by blast
    moreover have "st s q \<in> need (pc s d) q" using inv d unfolding owned_def by blast
    moreover have "e = d" if "q \<in> owns (pc t e)" for e
      using that \<open>q \<notin> owns l'\<close> one d unfolding pc by (metis fun_upd_apply)
    moreover have "pc t d = pc s d" by (simp add: False pc)
    ultimately show ?thesis by metis
  qed
  have B: "st t q \<in> at_rest" if "\<forall>d. q \<notin> owns (pc t d)" for q
  proof -
    have l': "q \<notin> owns l'" using that pc by (metis fun_upd_same)
    show ?thesis
    proof (cases "q \<in> owns (pc s c)")
      case False
      then have "\<forall>d. q \<notin> owns (pc s d)" using that pc by (metis fun_upd_other)
      then have "st s q \<in> at_rest" using inv unfolding owned_def by blast
      then show ?thesis using rest False l' by (metis Un_iff)
    qed (use give l' in blast)
  qed
  show ?thesis using A B unfolding owned_def by blast
qed


text \<open>Where a process that is switched to goes on, and what the CPUs that hand a process on have
  seen to. A CPU with indivisible settling never is between the settling swaps.\<close>

definition good :: "nat \<Rightarrow> loc \<Rightarrow> bool" where
  "good p l \<longleftrightarrow> l = Run p \<or> l = Slept p \<or> l = Wait0 p"

fun ready :: "mach \<Rightarrow> loc \<Rightarrow> bool" where
  "ready s (Settle1 p) = (st s p \<noteq> M_ZOMBIE \<longrightarrow> good p (ctx s p))"
| "ready s (Off p l) = (st s p \<noteq> M_ZOMBIE \<longrightarrow> good p l)"
| "ready s (Woken1 k ch i) = (good i (ctx s i) \<and> i \<notin> cont_proc k)"
| "ready s (Woken2 k ch i) = (good i (ctx s i) \<and> i \<notin> cont_proc k)"
| "ready s (Embryo r i) = (r \<noteq> i)"
| "ready s (Born r i) = (good i (ctx s i) \<and> r \<noteq> i)"
| "ready s (Reap1 p i) = (p \<noteq> i)"
| "ready s (Reap2 p i) = (p \<noteq> i)"
| "ready s (Reap3 p i) = (p \<noteq> i)"
| "ready s (Settle2 p) = False"
| "ready s (Settle3 p) = False"
| "ready s Gone = False"
| "ready s Dead = False"
| "ready s _ = True"

definition inv :: "mach \<Rightarrow> bool" where
  "inv s \<longleftrightarrow> owned s \<and> (\<forall>c. ready s (pc s c)) \<and>
     (\<forall>p. st s p \<in> {SLEEPING, RUNNABLE, M_RUNNING} \<longrightarrow> good p (ctx s p))"

lemma ready_cong:
  "ready s l \<Longrightarrow> (\<And>q. q \<in> owns l \<Longrightarrow> st t q = st s q \<and> ctx t q = ctx s q) \<Longrightarrow> ready t l"
  by (cases "(s, l)" rule: ready.cases) auto

lemma inv_move:
  assumes inv: "inv s" and pc: "pc t = (pc s)(c := l')"
    and gain: "\<forall>q \<in> owns l'. st t q \<in> need l' q \<and> (q \<in> owns (pc s c) \<or> st s q \<in> at_rest)"
    and give: "\<forall>q \<in> owns (pc s c) - owns l'. st t q \<in> at_rest"
    and rest: "\<forall>q. q \<notin> owns (pc s c) \<union> owns l' \<longrightarrow>
      ctx t q = ctx s q \<and> (st t q = st s q \<or> st s q \<in> at_rest \<and> st t q \<in> at_rest)"
    and ok: "ready t l'" "\<forall>q. st t q \<in> {SLEEPING, RUNNABLE, M_RUNNING} \<longrightarrow> good q (ctx t q)"
  shows "inv t"
proof -
  have o: "owned s" using inv by (simp add: inv_def)
  have "owned t" using owned_move [OF o pc gain give] rest by blast
  moreover have "ready t (pc t d)" for d
  proof (cases "d = c")
    case False
    have "st t q = st s q \<and> ctx t q = ctx s q" if q: "q \<in> owns (pc s d)" for q
    proof -
      have "q \<notin> owns (pc s c)" using o q False unfolding owned_def by blast
      moreover have ns: "st s q \<notin> at_rest" using owned_unowned [OF o] q by blast
      moreover have "q \<notin> owns l'" using gain calculation by blast
      ultimately show ?thesis using rest by blast
    qed
    moreover have "ready s (pc s d)" using inv unfolding inv_def by blast
    ultimately have "ready t (pc s d)" by (rule ready_cong [rotated])
    then show ?thesis using False pc by simp
  qed (use ok(1) pc in simp)
  ultimately show ?thesis using ok(2) unfolding inv_def by blast
qed

lemmas set_defs = set_pc_def set_st_def set_chn_def set_par_def set_ctx_def cas_st_def

text \<open>The same with what the invariant says about the old location at hand.\<close>

lemma inv_moveI:
  assumes inv: "inv s" and l: "pc s c = l"
    and move: "\<forall>q \<in> owns l. st s q \<in> need l q \<Longrightarrow> ready s l \<Longrightarrow>
      \<forall>q. st s q \<in> {SLEEPING, RUNNABLE, M_RUNNING} \<longrightarrow> good q (ctx s q) \<Longrightarrow>
      pc t = (pc s)(c := l') \<and>
      (\<forall>q \<in> owns l'. st t q \<in> need l' q \<and> (q \<in> owns l \<or> st s q \<in> at_rest)) \<and>
      (\<forall>q \<in> owns l - owns l'. st t q \<in> at_rest) \<and>
      (\<forall>q. q \<notin> owns l \<union> owns l' \<longrightarrow> ctx t q = ctx s q \<and> (st t q = st s q \<or> st s q \<in> at_rest \<and> st t q \<in> at_rest)) \<and>
      ready t l' \<and> (\<forall>q. st t q \<in> {SLEEPING, RUNNABLE, M_RUNNING} \<longrightarrow> good q (ctx t q))"
  shows "inv t"
proof -
  have "\<forall>q \<in> owns l. st s q \<in> need l q" "ready s l"
      "\<forall>q. st s q \<in> {SLEEPING, RUNNABLE, M_RUNNING} \<longrightarrow> good q (ctx s q)"
    using inv l unfolding inv_def owned_def by blast+
  note m = move [OF this]
  show ?thesis
    by (rule inv_move [OF inv, of t c l']) (use m l in blast)+
qed

lemma sched_step_inv: "sched_step True c s t \<Longrightarrow> inv s \<Longrightarrow> inv t"
proof (induction rule: sched_step.induct)
  case (pick s p)
  show ?case
    by (rule inv_moveI [OF pick.prems pick.hyps(1), where l' = "Enter p"])
      (use pick.hyps in \<open>auto simp: set_defs at_rest_def\<close>)
next
  case (enter s p)
  show ?case
    by (rule inv_moveI [OF enter.prems enter.hyps(1), where l' = "ctx s p"])
      (auto simp: set_defs at_rest_def good_def)
next
  case (leave s p l)
  show ?case
    by (rule inv_moveI [OF leave.prems leave.hyps(1), where l' = "Settle1 p"])
      (auto simp: set_defs at_rest_def)
next
  case (settle_at s p)
  show ?case
    by (rule inv_moveI [OF settle_at.prems settle_at.hyps(2), where l' = Sched])
      (auto simp: set_defs at_rest_def)
next
  case (settle2 s p)
  then show ?case unfolding inv_def by (metis ready.simps(10))
next
  case (settle3 s p)
  then show ?case unfolding inv_def by (metis ready.simps(11))
qed simp

lemma sleep_step_inv: "sleep_step c s t \<Longrightarrow> inv s \<Longrightarrow> inv t"
proof (induction rule: sleep_step.induct)
  case (yield_cas s p)
  show ?case
    by (rule inv_moveI [OF yield_cas.prems yield_cas.hyps(1), where l' = "Off p (Run p)"])
      (use yield_cas.hyps in \<open>auto simp: set_defs at_rest_def good_def\<close>)
next
  case (sleep_cas s p ch)
  show ?case
    by (rule inv_moveI [OF sleep_cas.prems sleep_cas.hyps(1), where l' = "Sleep1 p ch"])
      (use sleep_cas.hyps in \<open>auto simp: set_defs at_rest_def good_def\<close>)
next
  case (cas_panic s p)
  show ?case
    by (rule inv_moveI [OF cas_panic.prems cas_panic.hyps(1), where l' = "Dead"])
      (use cas_panic.hyps in \<open>auto simp: set_defs at_rest_def good_def\<close>)
next
  case (sleep_release s p ch)
  show ?case
    by (rule inv_moveI [OF sleep_release.prems sleep_release.hyps(1), where l' = "Sleep2 p ch"])
      (use sleep_release.hyps in \<open>auto simp: set_defs at_rest_def good_def\<close>)
next
  case (sleep_chan s p ch)
  show ?case
    by (rule inv_moveI [OF sleep_chan.prems sleep_chan.hyps(1), where l' = "Off p (Slept p)"])
      (use sleep_chan.hyps in \<open>auto simp: set_defs at_rest_def good_def\<close>)
next
  case (slept s p)
  show ?case
    by (rule inv_moveI [OF slept.prems slept.hyps(1), where l' = "Run p"])
      (use slept.hyps in \<open>auto simp: set_defs at_rest_def good_def\<close>)
qed

lemma wakeup_step_inv: "wakeup_step c s t \<Longrightarrow> inv s \<Longrightarrow> inv t"
proof (induction rule: wakeup_step.induct)
  case (wakeup_run s p ch)
  show ?case
    by (rule inv_moveI [OF wakeup_run.prems wakeup_run.hyps(1), where l' = "Wake (K_run p) (Some ch) 0"])
      (use wakeup_run.hyps in \<open>auto simp: set_defs at_rest_def good_def\<close>)
next
  case (wakeup_intr s ch)
  show ?case
    by (rule inv_moveI [OF wakeup_intr.prems wakeup_intr.hyps(1), where l' = "Wake K_sched (Some ch) 0"])
      (use wakeup_intr.hyps in \<open>auto simp: set_defs at_rest_def good_def\<close>)
next
  case (wake_skip s k ch i)
  show ?case
    by (rule inv_moveI [OF wake_skip.prems wake_skip.hyps(1), where l' = "Wake k ch (Suc i)"])
      (use wake_skip.hyps in \<open>auto simp: set_defs at_rest_def good_def\<close>)
next
  case (wake_test s k ch i)
  show ?case
    by (rule inv_moveI [OF wake_test.prems wake_test.hyps(1), where l' = "Spin k ch i"])
      (use wake_test.hyps in \<open>auto simp: set_defs at_rest_def good_def\<close>)
next
  case (wake_end s k ch i)
  show ?case
    by (rule inv_moveI [OF wake_end.prems wake_end.hyps(1), where l' = "resume k"])
      (use wake_end.hyps in \<open>auto simp: set_defs at_rest_def good_def simp: resume_def split: cont.splits\<close>)
next
  case (spin_cas s k ch i)
  show ?case
    by (rule inv_moveI [OF spin_cas.prems spin_cas.hyps(1), where l' = "Woken1 k ch i"])
      (use spin_cas.hyps in \<open>cases k; auto simp: set_defs at_rest_def good_def\<close>)
next
  case (spin_miss s k ch i)
  show ?case
    by (rule inv_moveI [OF spin_miss.prems spin_miss.hyps(1), where l' = "Wake k ch (Suc i)"])
      (use spin_miss.hyps in \<open>auto simp: set_defs at_rest_def good_def\<close>)
next
  case (woken_chan s k ch i)
  show ?case
    by (rule inv_moveI [OF woken_chan.prems woken_chan.hyps(1), where l' = "Woken2 k ch i"])
      (use woken_chan.hyps in \<open>cases k; auto simp: set_defs at_rest_def good_def\<close>)
next
  case (woken_cas s k ch i)
  show ?case
    by (rule inv_moveI [OF woken_cas.prems woken_cas.hyps(1), where l' = "Wake k ch (Suc i)"])
      (use woken_cas.hyps in \<open>cases k; auto simp: set_defs at_rest_def good_def\<close>)
next
  case (woken_panic s k ch i)
  show ?case
    by (rule inv_moveI [OF woken_panic.prems woken_panic.hyps(1), where l' = "Dead"])
      (use woken_panic.hyps in \<open>cases k; auto simp: set_defs at_rest_def good_def\<close>)
next
  case (kill_test s r i)
  show ?case
    by (rule inv_moveI [OF kill_test.prems kill_test.hyps(1), where l' = "Kill_spin r i"])
      (use kill_test.hyps in \<open>auto simp: set_defs at_rest_def good_def\<close>)
next
  case (kill_cas s r i)
  show ?case
    by (rule inv_moveI [OF kill_cas.prems kill_cas.hyps(1), where l' = "Run r"])
      (use kill_cas.hyps in \<open>auto simp: set_defs at_rest_def good_def\<close>)
qed

lemma fork_step_inv: "fork_step c s t \<Longrightarrow> inv s \<Longrightarrow> inv t"
proof (induction rule: fork_step.induct)
  case (fork_slot s r i)
  show ?case
    by (rule inv_moveI [OF fork_slot.prems fork_slot.hyps(1), where l' = "Embryo r i"])
      (use fork_slot.hyps in \<open>auto simp: set_defs at_rest_def good_def\<close>)
next
  case (fork_fail s r i)
  show ?case
    by (rule inv_moveI [OF fork_fail.prems fork_fail.hyps(1), where l' = "Run r"])
      (use fork_fail.hyps in \<open>auto simp: set_defs at_rest_def good_def\<close>)
next
  case (fork_fill s r i)
  show ?case
    by (rule inv_moveI [OF fork_fill.prems fork_fill.hyps(1), where l' = "Born r i"])
      (use fork_fill.hyps in \<open>auto simp: set_defs at_rest_def good_def\<close>)
next
  case (fork_cas s r i)
  show ?case
    by (rule inv_moveI [OF fork_cas.prems fork_cas.hyps(1), where l' = "Run r"])
      (use fork_cas.hyps in \<open>auto simp: set_defs at_rest_def good_def\<close>)
next
  case (fork_panic s r i)
  show ?case
    by (rule inv_moveI [OF fork_panic.prems fork_panic.hyps(1), where l' = "Dead"])
      (use fork_panic.hyps in \<open>auto simp: set_defs at_rest_def good_def\<close>)
qed

lemma exit_step_inv: "exit_step c s t \<Longrightarrow> inv s \<Longrightarrow> inv t"
proof (induction rule: exit_step.induct)
  case (exit_cas s p)
  show ?case
    by (rule inv_moveI [OF exit_cas.prems exit_cas.hyps(1), where l' = "Wake (K_exit p 0) (map_option Ch_proc (par s p)) 0"])
      (use exit_cas.hyps in \<open>auto simp: set_defs at_rest_def good_def\<close>)
next
  case (orphan_skip s p i)
  show ?case
    by (rule inv_moveI [OF orphan_skip.prems orphan_skip.hyps(1), where l' = "Orphans p (Suc i)"])
      (use orphan_skip.hyps in \<open>auto simp: set_defs at_rest_def good_def\<close>)
next
  case (orphan_take s p i)
  show ?case
    by (rule inv_moveI [OF orphan_take.prems orphan_take.hyps(1), where l' = "Orphan_spin p i"])
      (use orphan_take.hyps in \<open>auto simp: set_defs at_rest_def good_def\<close>)
next
  case (orphan_zombie s p i)
  show ?case
    by (rule inv_moveI [OF orphan_zombie.prems orphan_zombie.hyps(1), where l' = "Wake (K_exit p (Suc i)) (map_option Ch_proc (ini s)) 0"])
      (use orphan_zombie.hyps in \<open>auto simp: set_defs at_rest_def good_def\<close>)
next
  case (orphan_alive s p i)
  show ?case
    by (rule inv_moveI [OF orphan_alive.prems orphan_alive.hyps(1), where l' = "Orphans p (Suc i)"])
      (use orphan_alive.hyps in \<open>auto simp: set_defs at_rest_def good_def\<close>)
next
  case (exit_sched s p i)
  show ?case
    by (rule inv_moveI [OF exit_sched.prems exit_sched.hyps(1), where l' = "Off p Gone"])
      (use exit_sched.hyps in \<open>auto simp: set_defs at_rest_def good_def\<close>)
next
  case (zombie_exit s)
  show ?case
    by (rule inv_moveI [OF zombie_exit.prems zombie_exit.hyps(1), where l' = "Dead"])
      (use zombie_exit.hyps in \<open>auto simp: set_defs at_rest_def good_def\<close>)
qed

lemma wait_step_inv: "wait_step c s t \<Longrightarrow> inv s \<Longrightarrow> inv t"
proof (induction rule: wait_step.induct)
  case (wait_call s p)
  show ?case
    by (rule inv_moveI [OF wait_call.prems wait_call.hyps(1), where l' = "Wait0 p"])
      (use wait_call.hyps in \<open>auto simp: set_defs at_rest_def good_def\<close>)
next
  case (wait_cas s p)
  show ?case
    by (rule inv_moveI [OF wait_cas.prems wait_cas.hyps(1), where l' = "Wait1 p"])
      (use wait_cas.hyps in \<open>auto simp: set_defs at_rest_def good_def\<close>)
next
  case (wait_chan s p)
  show ?case
    by (rule inv_moveI [OF wait_chan.prems wait_chan.hyps(1), where l' = "Scan p 0 False"])
      (use wait_chan.hyps in \<open>auto simp: set_defs at_rest_def good_def\<close>)
next
  case (scan_skip s p i hk)
  show ?case
    by (rule inv_moveI [OF scan_skip.prems scan_skip.hyps(1), where l' = "Scan p (Suc i) hk"])
      (use scan_skip.hyps in \<open>auto simp: set_defs at_rest_def good_def\<close>)
next
  case (scan_child s p i hk)
  show ?case
    by (rule inv_moveI [OF scan_child.prems scan_child.hyps(1), where l' = "Scan_spin p i"])
      (use scan_child.hyps in \<open>auto simp: set_defs at_rest_def good_def\<close>)
next
  case (scan_cas s p i)
  show ?case
    by (rule inv_moveI [OF scan_cas.prems scan_cas.hyps(1), where l' = "Reap1 p i"])
      (use scan_cas.hyps in \<open>auto simp: set_defs at_rest_def good_def\<close>)
next
  case (scan_alive s p i)
  show ?case
    by (rule inv_moveI [OF scan_alive.prems scan_alive.hyps(1), where l' = "Scan p (Suc i) True"])
      (use scan_alive.hyps in \<open>auto simp: set_defs at_rest_def good_def\<close>)
next
  case (reap_clear s p i)
  show ?case
    by (rule inv_moveI [OF reap_clear.prems reap_clear.hyps(1), where l' = "Reap2 p i"])
      (use reap_clear.hyps in \<open>auto simp: set_defs at_rest_def good_def\<close>)
next
  case (reap_run s p i)
  show ?case
    by (rule inv_moveI [OF reap_run.prems reap_run.hyps(1), where l' = "Reap3 p i"])
      (use reap_run.hyps in \<open>auto simp: set_defs at_rest_def good_def\<close>)
next
  case (reap_free s p i)
  show ?case
    by (rule inv_moveI [OF reap_free.prems reap_free.hyps(1), where l' = "Run p"])
      (use reap_free.hyps in \<open>auto simp: set_defs at_rest_def good_def\<close>)
next
  case (reap_panic s p i)
  show ?case
    by (rule inv_moveI [OF reap_panic.prems reap_panic.hyps(1), where l' = "Dead"])
      (use reap_panic.hyps in \<open>auto simp: set_defs at_rest_def good_def\<close>)
next
  case (free_panic s p i)
  show ?case
    by (rule inv_moveI [OF free_panic.prems free_panic.hyps(1), where l' = "Dead"])
      (use free_panic.hyps in \<open>auto simp: set_defs at_rest_def good_def\<close>)
next
  case (wait_give_up s p i hk)
  show ?case
    by (rule inv_moveI [OF wait_give_up.prems wait_give_up.hyps(1), where l' = "Wait_none1 p"])
      (use wait_give_up.hyps in \<open>auto simp: set_defs at_rest_def good_def\<close>)
next
  case (wait_none_cas s p)
  show ?case
    by (rule inv_moveI [OF wait_none_cas.prems wait_none_cas.hyps(1), where l' = "Wait_none2 p"])
      (use wait_none_cas.hyps in \<open>auto simp: set_defs at_rest_def good_def\<close>)
next
  case (wait_none_panic s p)
  show ?case
    by (rule inv_moveI [OF wait_none_panic.prems wait_none_panic.hyps(1), where l' = "Dead"])
      (use wait_none_panic.hyps in \<open>auto simp: set_defs at_rest_def good_def\<close>)
next
  case (wait_none_chan s p)
  show ?case
    by (rule inv_moveI [OF wait_none_chan.prems wait_none_chan.hyps(1), where l' = "Run p"])
      (use wait_none_chan.hyps in \<open>auto simp: set_defs at_rest_def good_def\<close>)
next
  case (wait_sched s p i)
  show ?case
    by (rule inv_moveI [OF wait_sched.prems wait_sched.hyps(1), where l' = "Off p (Wait0 p)"])
      (use wait_sched.hyps in \<open>auto simp: set_defs at_rest_def good_def\<close>)
qed

lemma step_inv: "step True s t \<Longrightarrow> inv s \<Longrightarrow> inv t"
  by (erule step.cases)
    (auto intro: sched_step_inv sleep_step_inv wakeup_step_inv fork_step_inv exit_step_inv wait_step_inv)

lemma inv_boot: "inv boot"
  by (auto simp: inv_def owned_def boot_def at_rest_def good_def)

lemma reach_inv: "reach True s \<Longrightarrow> inv s"
  by (induction rule: reach.induct) (auto intro: step_inv inv_boot)

text \<open>The process on whose kernel stack a CPU executes.\<close>

fun cont_stack :: "cont \<Rightarrow> nat option" where
  "cont_stack K_sched = None"
| "cont_stack (K_run p) = Some p"
| "cont_stack (K_exit p i) = Some p"

fun on_stack :: "loc \<Rightarrow> nat option" where
  "on_stack (Run p) = Some p" | "on_stack (Off p l) = Some p"
| "on_stack (Sleep1 p ch) = Some p" | "on_stack (Sleep2 p ch) = Some p" | "on_stack (Slept p) = Some p"
| "on_stack (Wake k ch i) = cont_stack k" | "on_stack (Spin k ch i) = cont_stack k"
| "on_stack (Woken1 k ch i) = cont_stack k" | "on_stack (Woken2 k ch i) = cont_stack k"
| "on_stack (Kill_spin r i) = Some r" | "on_stack (Embryo r i) = Some r" | "on_stack (Born r i) = Some r"
| "on_stack (Orphans p i) = Some p" | "on_stack (Orphan_spin p i) = Some p"
| "on_stack (Wait0 p) = Some p" | "on_stack (Wait1 p) = Some p" | "on_stack (Scan p i hk) = Some p"
| "on_stack (Scan_spin p i) = Some p" | "on_stack (Reap1 p i) = Some p" | "on_stack (Reap2 p i) = Some p"
| "on_stack (Reap3 p i) = Some p" | "on_stack (Wait_none1 p) = Some p" | "on_stack (Wait_none2 p) = Some p"
| "on_stack _ = None"

lemma cont_stack_proc: "cont_stack k = Some p \<Longrightarrow> p \<in> cont_proc k"
  by (cases k) auto

lemma on_stack_owns: "on_stack l = Some p \<Longrightarrow> p \<in> owns l"
  by (cases l) (auto dest: cont_stack_proc)

section \<open>Properties\<close>


end
