(* ===== verification/Cas_Runs.thy ===== *)
theory Cas_Runs
  imports Cas_Protocol
begin

text \<open>
  Concrete runs of the machine of Cas_Protocol: what can go wrong between CPUs in the scheduling
  code of \<^verbatim>\<open>proc.c\<close>, shown by reachable states. The last section is \<open>allocpid\<close>.
\<close>

section \<open>Runs of small machines\<close>

text \<open>States in which at most two processes and three CPUs are involved.\<close>

definition mk :: "procstate \<Rightarrow> procstate \<Rightarrow> chan option \<Rightarrow> nat option \<Rightarrow> loc \<Rightarrow> loc \<Rightarrow> loc \<Rightarrow> loc \<Rightarrow> loc \<Rightarrow> mach" where
  "mk a b h q k m x y z = \<lparr>st = (\<lambda>_. UNUSED)(0 := a, 1 := b), chn = (\<lambda>_. None)(0 := h),
     par = (\<lambda>_. None)(1 := q), ctx = (\<lambda>_. Gone)(0 := k, 1 := m),
     pc = (\<lambda>_. Sched)(0 := x, 1 := y, 2 := z), ini = Some 0\<rparr>"

lemma mk_sel [simp]:
  "st (mk a b h q k m x y z) 0 = a" "st (mk a b h q k m x y z) (Suc 0) = b"
  "chn (mk a b h q k m x y z) 0 = h" "par (mk a b h q k m x y z) 0 = None"
  "par (mk a b h q k m x y z) (Suc 0) = q"
  "ctx (mk a b h q k m x y z) 0 = k" "ctx (mk a b h q k m x y z) (Suc 0) = m"
  "pc (mk a b h q k m x y z) 0 = x" "pc (mk a b h q k m x y z) (Suc 0) = y" "pc (mk a b h q k m x y z) 2 = z"
  "ini (mk a b h q k m x y z) = Some 0"
  by (simp_all add: mk_def)

lemma mk_set [simp]:
  "set_st 0 v (mk a b h q k m x y z) = mk v b h q k m x y z"
  "set_st (Suc 0) v (mk a b h q k m x y z) = mk a v h q k m x y z"
  "set_chn 0 ch (mk a b h q k m x y z) = mk a b ch q k m x y z"
  "set_par (Suc 0) r (mk a b h q k m x y z) = mk a b h r k m x y z"
  "set_ctx 0 l (mk a b h q k m x y z) = mk a b h q l m x y z"
  "set_ctx (Suc 0) l (mk a b h q k m x y z) = mk a b h q k l x y z"
  "set_pc 0 l (mk a b h q k m x y z) = mk a b h q k m l y z"
  "set_pc (Suc 0) l (mk a b h q k m x y z) = mk a b h q k m x l z"
  "set_pc 2 l (mk a b h q k m x y z) = mk a b h q k m x y l"
  by (simp_all add: mk_def set_defs fun_eq_iff)

lemma mk_cas [simp]:
  "cas_st 0 v v' (mk a b h q k m x y z) = mk (if a = v then v' else a) b h q k m x y z"
  "cas_st (Suc 0) v v' (mk a b h q k m x y z) = mk a (if b = v then v' else b) h q k m x y z"
  by (simp_all add: cas_st_def)

lemma boot_mk: "boot = mk RUNNABLE UNUSED None None (Run 0) Gone Sched Sched Sched"
  by (simp add: boot_def mk_def fun_eq_iff)

text \<open>Runs of the machine, extended by a step of CPU \<open>c\<close>.\<close>

abbreviation steps :: "bool \<Rightarrow> mach \<Rightarrow> mach \<Rightarrow> bool" where
  "steps at \<equiv> (step at)\<^sup>*\<^sup>*"

lemma run_sched: "steps at r s \<Longrightarrow> sched_step at c s t \<Longrightarrow> c < NCPU \<Longrightarrow> steps at r t"
  and run_sleep: "steps at r s \<Longrightarrow> sleep_step c s t \<Longrightarrow> c < NCPU \<Longrightarrow> steps at r t"
  and run_wakeup: "steps at r s \<Longrightarrow> wakeup_step c s t \<Longrightarrow> c < NCPU \<Longrightarrow> steps at r t"
  and run_fork: "steps at r s \<Longrightarrow> fork_step c s t \<Longrightarrow> c < NCPU \<Longrightarrow> steps at r t"
  and run_exit: "steps at r s \<Longrightarrow> exit_step c s t \<Longrightarrow> c < NCPU \<Longrightarrow> steps at r t"
  and run_wait: "steps at r s \<Longrightarrow> wait_step c s t \<Longrightarrow> c < NCPU \<Longrightarrow> steps at r t"
  by (meson rtranclp.rtrancl_into_rtrancl step.intros)+

lemma reach_steps: "steps at boot s \<Longrightarrow> reach at s"
  by (induction rule: rtranclp_induct) (auto intro: reach.intros)

text \<open>The first process runs on CPU 0, yields, and CPU 1 takes it before CPU 0 has finished
  settling.\<close>

lemma run_first: "steps at boot (mk RUNNING UNUSED None None (Run 0) Gone (Run 0) Sched Sched)"
proof -
  have r0: "steps at boot (mk RUNNABLE UNUSED None None (Run 0) Gone Sched Sched Sched)"
    by (simp add: boot_mk)
  note r1 = run_sched [where c = 0, OF r0 pick [where p = 0], simplified]
  show ?thesis using run_sched [where c = 0, OF r1 enter [where p = 0]] by simp
qed

lemma run_overtaken:
  "steps False boot (mk M_SLEEPING UNUSED (Some ch) None (Run 0) Gone (Settle2 0) (Off 0 (Slept 0)) Sched)"
proof -
  note r2 = run_first [of False]
  note r3 = run_sleep [where c = 0, OF r2 yield_cas [where p = 0], simplified]
  note r4 = run_sched [where c = 0, OF r3 leave [where p = 0 and l = "Run 0"], simplified]
  note r5 = run_sched [where c = 0, OF r4 settle1 [where p = 0], simplified]
  note r6 = run_sched [where c = 1, OF r5 pick [where p = 0], simplified]
  note r7 = run_sched [where c = 1, OF r6 enter [where p = 0], simplified]
  note r8 = run_sleep [where c = 1, OF r7 sleep_cas [where p = 0 and ch = ch], simplified]
  note r9 = run_sleep [where c = 1, OF r8 sleep_release [where p = 0 and ch = ch], simplified]
  show ?thesis using run_sleep [where c = 1, OF r9 sleep_chan [where p = 0 and ch = ch]] by simp
qed

lemma wake_rest:
  assumes "steps at r s" and "pc s c = Wake k ch i" and "i \<le> NPROC" and "c < NCPU"
    and "\<forall>j. i \<le> j \<and> j < NPROC \<longrightarrow> \<not> sleeps_on s ch j"
  shows "steps at r (set_pc c (resume k) s)"
  using assms
proof (induction "NPROC - i" arbitrary: i s)
  case 0
  then have "wakeup_step c s (set_pc c (resume k) s)" by (intro wake_end) auto
  then show ?case using 0 by (blast intro: run_wakeup)
next
  case (Suc n)
  have "wakeup_step c s (set_pc c (Wake k ch (Suc i)) s)" using Suc by (intro wake_skip) auto
  then have "steps at r (set_pc c (Wake k ch (Suc i)) s)" using Suc.prems by (blast intro: run_wakeup)
  then have "steps at r (set_pc c (resume k) (set_pc c (Wake k ch (Suc i)) s))"
    using Suc by (intro Suc.hyps(1) [of "Suc i"]) (auto simp: set_pc_def sleeps_on_def)
  then show ?case by (simp add: set_pc_def)
qed

text \<open>C3. With the three settling swaps as they are, a process can be executed by two CPUs at once:
  CPU 0 is between its first and second swap for a process that CPU 1 already runs and that is
  just going to sleep there; CPU 0's second swap declares it asleep, a wakeup makes it runnable,
  and CPU 0 switches to it while CPU 1 still executes on its kernel stack.\<close>

theorem two_cpus_one_process:
  "\<exists>s c d p. reach False s \<and> c \<noteq> d \<and> pc s c = Run p \<and> on_stack (pc s d) = Some p"
proof -
  note r0 = run_overtaken [of Ch_ticks]
  note r1 = run_sched [where c = 0, OF r0 settle2 [where p = 0], simplified]
  note r2 = run_sched [where c = 0, OF r1 settle3 [where p = 0], simplified]
  note r3 = run_wakeup [where c = 2, OF r2 wakeup_intr [where ch = Ch_ticks], simplified]
  note r4 = run_wakeup [where c = 2, OF r3 wake_test [where k = K_sched and ch = "Some Ch_ticks" and i = 0],
      unfolded sleeps_on_def, simplified]
  note r5 = run_wakeup [where c = 2, OF r4 spin_cas [where k = K_sched and ch = "Some Ch_ticks" and i = 0], simplified]
  note r6 = run_wakeup [where c = 2, OF r5 woken_chan [where k = K_sched and ch = "Some Ch_ticks" and i = 0], simplified]
  note r7 = run_wakeup [where c = 2, OF r6 woken_cas [where k = K_sched and ch = "Some Ch_ticks" and i = 0], simplified]
  note r8 = run_sched [where c = 0, OF r7 pick [where p = 0], simplified]
  note r9 = run_sched [where c = 0, OF r8 enter [where p = 0], simplified]
  show ?thesis by (rule exI, rule exI [of _ 0], rule exI [of _ 1], rule exI [of _ 0], rule conjI [OF reach_steps [OF r9]]) simp
qed


text \<open>The parent is in \<open>wait\<close> and spins until its child has settled as a zombie; the child is in
  \<open>exit\<close> and spins until its parent has settled asleep. No other process exists.\<close>

definition jammed :: "mach \<Rightarrow> bool" where
  "jammed s \<longleftrightarrow> pc s 0 = Scan_spin 0 1 \<and> pc s 1 = Spin (K_exit 1 0) (Some (Ch_proc 0)) 0 \<and>
     st s 0 = M_SLEEPING \<and> st s 1 = M_ZOMBIE \<and> (\<forall>p > 1. st s p = UNUSED) \<and>
     (\<forall>c > 1. pc s c = Sched \<or> (\<exists>ch i. pc s c = Wake K_sched ch i) \<or> (\<exists>ch. pc s c = Spin K_sched ch 0))"

lemma jammed_st: "jammed s \<Longrightarrow> st s p \<in> {M_SLEEPING, M_ZOMBIE, UNUSED}"
  unfolding jammed_def by (metis insertCI less_one linorder_neqE_nat)

lemma jammed_pc:
  assumes "jammed s"
  obtains "c = 0" "pc s c = Scan_spin 0 1" | "c = 1" "pc s c = Spin (K_exit 1 0) (Some (Ch_proc 0)) 0"
  | "c > 1" "pc s c = Sched" | ch i where "c > 1" "pc s c = Wake K_sched ch i"
  | ch where "c > 1" "pc s c = Spin K_sched ch 0"
  using assms unfolding jammed_def by (metis less_one linorder_neqE_nat)

lemma jammed_wake:
  "jammed s \<Longrightarrow> c > 1 \<Longrightarrow> l = Sched \<or> (\<exists>ch i. l = Wake K_sched ch i) \<or> (\<exists>ch. l = Spin K_sched ch 0) \<Longrightarrow>
   jammed (set_pc c l s)"
  by (simp add: jammed_def set_pc_def)

lemma jammed_sleeper: "jammed s \<Longrightarrow> sleeps_on s ch i \<Longrightarrow> i = 0"
  by (cases i rule: nat.exhaust; cases "i = 1") (auto simp: jammed_def sleeps_on_def)

text \<open>A CPU in one of these places has no step of its own.\<close>

lemma at_scan_spin:
  assumes "pc s c = Scan_spin p i" and "st s i = M_ZOMBIE"
  shows "\<not> sched_step at c s t" "\<not> sleep_step c s t" "\<not> wakeup_step c s t" "\<not> fork_step c s t"
    "\<not> exit_step c s t" "\<not> wait_step c s t"
  using assms by (auto elim: sched_step.cases sleep_step.cases wakeup_step.cases fork_step.cases
      exit_step.cases wait_step.cases)

lemma at_spin:
  assumes "pc s c = Spin k ch i" and "st s i = M_SLEEPING"
  shows "\<not> sched_step at c s t" "\<not> sleep_step c s t" "\<not> wakeup_step c s t" "\<not> fork_step c s t"
    "\<not> exit_step c s t" "\<not> wait_step c s t"
  using assms by (auto elim: sched_step.cases sleep_step.cases wakeup_step.cases fork_step.cases
      exit_step.cases wait_step.cases)

lemma at_sched:
  assumes "pc s c = Sched" and "\<forall>p. st s p \<noteq> RUNNABLE"
  shows "\<not> sched_step at c s t" "\<not> sleep_step c s t" "\<not> fork_step c s t" "\<not> exit_step c s t" "\<not> wait_step c s t"
    "wakeup_step c s t \<Longrightarrow> \<exists>ch. t = set_pc c (Wake K_sched (Some ch) 0) s"
  using assms by (auto elim: sched_step.cases sleep_step.cases wakeup_step.cases fork_step.cases
      exit_step.cases wait_step.cases)

lemma at_wake:
  assumes "pc s c = Wake k ch i"
  shows "\<not> sched_step at c s t" "\<not> sleep_step c s t" "\<not> fork_step c s t" "\<not> exit_step c s t" "\<not> wait_step c s t"
    "wakeup_step c s t \<Longrightarrow> t = set_pc c (Wake k ch (Suc i)) s \<or> t = set_pc c (resume k) s \<or>
      sleeps_on s ch i \<and> t = set_pc c (Spin k ch i) s"
  using assms by (auto elim: sched_step.cases sleep_step.cases wakeup_step.cases fork_step.cases
      exit_step.cases wait_step.cases)

lemma jammed_step:
  assumes "step at s t" and j: "jammed s"
  shows "jammed t"
proof -
  obtain c where any: "sched_step at c s t \<or> sleep_step c s t \<or> wakeup_step c s t \<or> fork_step c s t \<or>
      exit_step c s t \<or> wait_step c s t"
    using assms(1) by (blast elim: step.cases)
  have st: "st s 0 = M_SLEEPING" "st s 1 = M_ZOMBIE" using j by (simp_all add: jammed_def)
  have nr: "st s p \<noteq> RUNNABLE" for p using jammed_st [OF j, of p] by auto
  show ?thesis
  proof (cases rule: jammed_pc [OF j, of c])
    case 1 show ?thesis using any at_scan_spin [OF 1(2) st(2)] by blast
  next
    case 2 show ?thesis using any at_spin [OF 2(2) st(1)] by blast
  next
    case 3 show ?thesis using any at_sched [OF 3(2)] nr jammed_wake [OF j 3(1)] by blast
  next
    case (4 ch i)
    then consider "t = set_pc c (Wake K_sched ch (Suc i)) s" | "t = set_pc c Sched s"
      | "sleeps_on s ch i" "t = set_pc c (Spin K_sched ch i) s"
      using any at_wake [OF 4(2)] unfolding resume_def cont.case by blast
    then show ?thesis
      by cases (use jammed_wake [OF j 4(1)] jammed_sleeper [OF j] in blast)+
  next
    case (5 ch) show ?thesis using any at_spin [OF 5(2) st(1)] by blast
  qed
qed

lemma jammed_forever: "steps at s t \<Longrightarrow> jammed s \<Longrightarrow> jammed t"
  by (induction rule: rtranclp_induct) (auto intro: jammed_step)

text \<open>C4. \<open>wait\<close> and \<open>exit\<close> can block each other for ever. There is a reachable state in which the
  parent, in \<open>wait\<close>, spins on CPU 0 while its child is \<open>-ZOMBIE\<close>, the child, in \<open>exit\<close>, spins on
  CPU 1 inside \<open>wakeup1\<close> while the parent is \<open>-SLEEPING\<close>, and in every continuation both CPUs stay
  where they are. This does not depend on how the scheduler settles.\<close>

theorem wait_exit_deadlock:
  "\<exists>s. reach at s \<and> pc s 0 = Scan_spin 0 1 \<and> pc s 1 = Spin (K_exit 1 0) (Some (Ch_proc 0)) 0 \<and>
     (\<forall>t. steps at s t \<longrightarrow> pc t 0 = pc s 0 \<and> pc t 1 = pc s 1)"
proof -
  note r2 = run_first [of at]
  note r3 = run_fork [where c = 0, OF r2 fork_slot [where r = 0 and i = 1], simplified]
  note r4 = run_fork [where c = 0, OF r3 fork_fill [where r = 0 and i = 1], simplified]
  note r5 = run_fork [where c = 0, OF r4 fork_cas [where r = 0 and i = 1], simplified]
  note r6 = run_sched [where c = 1, OF r5 pick [where p = 1], simplified]
  note r7 = run_sched [where c = 1, OF r6 enter [where p = 1], simplified]
  note r8 = run_wait [where c = 0, OF r7 wait_call [where p = 0], simplified]
  note r9 = run_wait [where c = 0, OF r8 wait_cas [where p = 0], simplified]
  note r10 = run_wait [where c = 0, OF r9 wait_chan [where p = 0], simplified]
  note r11 = run_wait [where c = 0, OF r10 scan_skip [where p = 0 and i = 0 and hk = False], simplified]
  note r12 = run_wait [where c = 0, OF r11 scan_child [where p = 0 and i = 1 and hk = False], simplified]
  note r13 = run_exit [where c = 1, OF r12 exit_cas [where p = 1], simplified]
  note r14 = run_wakeup [where c = 1, OF r13 wake_test [where k = "K_exit 1 0" and ch = "Some (Ch_proc 0)" and i = 0],
      unfolded sleeps_on_def, simplified]
  let ?s = "mk M_SLEEPING M_ZOMBIE (Some (Ch_proc 0)) (Some 0) (Run 0) (Run 1) (Scan_spin 0 1)
      (Spin (K_exit 1 0) (Some (Ch_proc 0)) 0) Sched"
  have "jammed ?s" by (simp add: jammed_def mk_def)
  then have "\<forall>t. steps at ?s t \<longrightarrow> jammed t" using jammed_forever by blast
  then have "\<forall>t. steps at ?s t \<longrightarrow> pc t 0 = pc ?s 0 \<and> pc t 1 = pc ?s 1" by (simp add: jammed_def)
  moreover have "reach at ?s" using reach_steps [OF r14] by simp
  ultimately show ?thesis by (intro exI [of _ ?s] conjI) simp_all
qed


theorem wait_exit_deadlock_witness:
  "\<exists>s. reach False s \<and> steps False s s \<and> pc s 0 = Scan_spin 0 1 \<and>
     pc s 1 = Spin (K_exit 1 0) (Some (Ch_proc 0)) 0"
  using wait_exit_deadlock [of False] by blast

section \<open>Process ids\<close>

text \<open>\<open>allocpid\<close> on several CPUs: \<open>seen c\<close> is the value CPU \<open>c\<close> has read in the current round of
  its loop, \<open>out\<close> the ids returned so far, the last first.\<close>

record pidmach =
  npid :: u32
  seen :: "nat \<Rightarrow> u32 option"
  out :: "u32 list"

inductive pid_step :: "nat \<Rightarrow> pidmach \<Rightarrow> pidmach \<Rightarrow> bool" for c where
  pid_read: "seen s c = None \<Longrightarrow> pid_step c s (s\<lparr>seen := (seen s)(c := Some (npid s))\<rparr>)"
| pid_cas: "seen s c = Some v \<Longrightarrow> npid s = v \<Longrightarrow>
    pid_step c s (s\<lparr>npid := v + 1, seen := (seen s)(c := None), out := (v + 1) # out s\<rparr>)"
| pid_retry: "seen s c = Some v \<Longrightarrow> npid s \<noteq> v \<Longrightarrow> pid_step c s (s\<lparr>seen := (seen s)(c := None)\<rparr>)"

inductive pid_reach :: "pidmach \<Rightarrow> bool" where
  pid_boot: "pid_reach \<lparr>npid = 1, seen = (\<lambda>_. None), out = []\<rparr>"
| pid_next: "pid_reach s \<Longrightarrow> pid_step c s t \<Longrightarrow> pid_reach t"

lemma pid_reach_out:
  "pid_reach s \<Longrightarrow> npid s = 1 + of_nat (length (out s)) \<and>
     rev (out s) = map (\<lambda>i. of_nat (i + 2)) [0..<length (out s)]"
proof (induction rule: pid_reach.induct)
  case (pid_next s c t)
  from pid_next.hyps(2) pid_next.IH show ?case by cases simp_all
qed simp

text \<open>C24. Process ids are unique. In every interleaving of \<open>allocpid\<close> on any number of CPUs the ids
  returned are 2, 3, 4, ... in order, so no two of them are equal until \<open>2^32\<close> have been given
  out.\<close>

theorem allocpid_unique:
  assumes "pid_reach s" and "length (out s) \<le> 2 ^ 32"
  shows "distinct (out s) \<and> rev (out s) = map (\<lambda>i. of_nat (i + 2)) [0..<length (out s)]"
proof -
  have eq: "rev (out s) = map (\<lambda>i. of_nat (i + 2)) [0..<length (out s)]"
    using pid_reach_out [OF assms(1)] by blast
  have "inj_on (\<lambda>i. of_nat (i + 2) :: u32) {0..<length (out s)}"
  proof (rule inj_onI)
    fix i j assume ij: "i \<in> {0..<length (out s)}" "j \<in> {0..<length (out s)}"
      and "(of_nat (i + 2) :: u32) = of_nat (j + 2)"
    then have "(of_nat i :: u32) = of_nat j" by simp
    then show "i = j" using ij assms(2) of_nat_u32_inject [of i j] by simp
  qed
  then have "distinct (rev (out s))" unfolding eq by (simp add: distinct_map)
  then have "distinct (out s)" unfolding distinct_rev .
  then show ?thesis using eq by blast
qed

text \<open>Two CPUs read the same number; the second has to try again.\<close>

theorem allocpid_unique_witness:
  "\<exists>s. pid_reach s \<and> out s = [3, 2] \<and> distinct (out s)"
proof -
  note r0 = pid_boot
  note r1 = pid_next [where c = 0, OF r0 pid_read, simplified]
  note r2 = pid_next [where c = 1, OF r1 pid_read, simplified]
  note r3 = pid_next [where c = 0, OF r2 pid_cas [where v = 1], simplified]
  note r4 = pid_next [where c = 1, OF r3 pid_retry [where v = 1], simplified]
  note r5 = pid_next [where c = 1, OF r4 pid_read, simplified]
  note r6 = pid_next [where c = 1, OF r5 pid_cas [where v = 2], simplified]
  show ?thesis by (rule exI, rule conjI [OF r6], rule conjI)
    (simp, rule conjunct1 [OF allocpid_unique [OF r6]], simp)
qed

end
