(* ===== verification/Log_Crash.thy ===== *)
theory Log_Crash
  imports Log
begin

text \<open>
  The log as a protocol with the disk (\<^verbatim>\<open>log.c\<close>): one step is one block written to the disk or one
  operation of a file system call on the in-memory log, and the machine can crash between any two
  of them, during recovery too. Several calls are outstanding at a time.

  The state has the disk, the cached blocks (a block that is not cached is read from the disk),
  the in-memory header \<open>log.lh\<close>, the outstanding calls, each with the number of \<open>log_write\<close>s it has
  made, and where \<open>commit\<close> or \<open>recover_from_log\<close> is. The disk writes a block as a whole, as
  \<open>idestart\<close> models it. The parameters are \<open>log.start\<close> and \<open>log.size\<close>.
\<close>

section \<open>The header block\<close>

text \<open>The bytes \<open>write_head\<close> makes of the header block and the list \<open>read_head\<close> takes from them.\<close>

definition head_put :: "u32 list \<Rightarrow> u8 list \<Rightarrow> u8 list" where
  "head_put bs d = fold (\<lambda>i. put32 (4 + 4 * i) (bs ! i)) [0..<length bs] (put32 0 (of_nat (length bs)) d)"

definition head_get :: "u8 list \<Rightarrow> u32 list" where
  "head_get d = map (\<lambda>i. get32 d (4 + 4 * i)) [0..<nat (sint (get32 d 0))]"

section \<open>The steps\<close>

datatype lphase =
    Open                   \<comment> \<open>\<open>log.committing\<close> is 0\<close>
  | Log_at nat             \<comment> \<open>\<open>write_log\<close> at an index; at the end, \<open>write_head\<close>\<close>
  | Install_at nat         \<comment> \<open>\<open>install_trans\<close> at an index; at the end, the erasing \<open>write_head\<close>\<close>
  | Down                   \<comment> \<open>crashed\<close>
  | Overflow               \<comment> \<open>\<open>panic("too big a transaction")\<close>\<close>

record logm =
  l_disk :: "u32 \<Rightarrow> u8 list"
  l_cache :: "u32 \<Rightarrow> u8 list option"
  l_blocks :: "u32 list"
  l_ops :: "nat list"
  l_phase :: lphase

definition view :: "logm \<Rightarrow> u32 \<Rightarrow> u8 list" where
  "view s b = (case l_cache s b of Some x \<Rightarrow> x | None \<Rightarrow> l_disk s b)"

definition log_block :: "u32 \<Rightarrow> nat \<Rightarrow> u32" where
  "log_block start i = start + of_nat i + 1"

text \<open>An index of the log, and a block outside the log, which occupies \<open>log.size\<close> blocks.\<close>

definition in_log :: "nat \<Rightarrow> nat \<Rightarrow> bool" where
  "in_log sz i \<longleftrightarrow> i < LOGSIZE \<and> i < sz - 1"

definition home :: "u32 \<Rightarrow> nat \<Rightarrow> u32 \<Rightarrow> bool" where
  "home start sz b \<longleftrightarrow> b \<noteq> start \<and> (\<forall>i. in_log sz i \<longrightarrow> b \<noteq> log_block start i)"

text \<open>The entry \<open>log_write\<close> makes: a block that is already there is absorbed.\<close>

definition absorb :: "u32 \<Rightarrow> u32 list \<Rightarrow> u32 list" where
  "absorb b bs = (if b \<in> set bs then bs else bs @ [b])"

definition ltick :: "nat \<Rightarrow> nat list \<Rightarrow> nat list" where
  "ltick i ops = ops[i := ops ! i + 1]"

definition ldrop :: "nat \<Rightarrow> nat list \<Rightarrow> nat list" where
  "ldrop i ops = take i ops @ drop (Suc i) ops"

inductive lstep :: "u32 \<Rightarrow> nat \<Rightarrow> logm \<Rightarrow> logm \<Rightarrow> bool" for start sz where
  l_begin: "l_phase s = Open \<Longrightarrow> length (l_blocks s) + (length (l_ops s) + 1) * MAXOPBLOCKS \<le> LOGSIZE \<Longrightarrow>
    lstep start sz s (s\<lparr>l_ops := l_ops s @ [0]\<rparr>)"
| l_write: "l_phase s = Open \<Longrightarrow> i < length (l_ops s) \<Longrightarrow> l_ops s ! i < MAXOPBLOCKS \<Longrightarrow> home start sz b \<Longrightarrow>
    \<not> (length (l_blocks s) \<ge> LOGSIZE \<or> length (l_blocks s) \<ge> sz - 1) \<Longrightarrow>
    lstep start sz s (s\<lparr>l_cache := (l_cache s)(b \<mapsto> x), l_blocks := absorb b (l_blocks s),
      l_ops := ltick i (l_ops s)\<rparr>)"
| l_overflow: "l_phase s = Open \<Longrightarrow> i < length (l_ops s) \<Longrightarrow> l_ops s ! i < MAXOPBLOCKS \<Longrightarrow> home start sz b \<Longrightarrow>
    length (l_blocks s) \<ge> LOGSIZE \<or> length (l_blocks s) \<ge> sz - 1 \<Longrightarrow>
    lstep start sz s (s\<lparr>l_phase := Overflow\<rparr>)"
| l_end: "l_phase s = Open \<Longrightarrow> i < length (l_ops s) \<Longrightarrow> length (l_ops s) \<noteq> 1 \<Longrightarrow>
    lstep start sz s (s\<lparr>l_ops := ldrop i (l_ops s)\<rparr>)"
| l_end_last: "l_phase s = Open \<Longrightarrow> length (l_ops s) = 1 \<Longrightarrow>
    lstep start sz s (s\<lparr>l_ops := [], l_phase := (if l_blocks s = [] then Open else Log_at 0)\<rparr>)"
| l_log: "l_phase s = Log_at i \<Longrightarrow> i < length (l_blocks s) \<Longrightarrow>
    lstep start sz s (s\<lparr>l_disk := (l_disk s)(log_block start i := view s (l_blocks s ! i)), l_phase := Log_at (Suc i)\<rparr>)"
| l_head: "l_phase s = Log_at (length (l_blocks s)) \<Longrightarrow>
    lstep start sz s (s\<lparr>l_disk := (l_disk s)(start := head_put (l_blocks s) (l_disk s start)), l_phase := Install_at 0\<rparr>)"
| l_install: "l_phase s = Install_at i \<Longrightarrow> i < length (l_blocks s) \<Longrightarrow>
    lstep start sz s (s\<lparr>l_disk := (l_disk s)(l_blocks s ! i := l_disk s (log_block start i)), l_phase := Install_at (Suc i)\<rparr>)"
| l_erase: "l_phase s = Install_at (length (l_blocks s)) \<Longrightarrow>
    lstep start sz s (s\<lparr>l_blocks := [], l_disk := (l_disk s)(start := head_put [] (l_disk s start)), l_phase := Open\<rparr>)"
| l_crash: "lstep start sz s (s\<lparr>l_cache := Map.empty, l_blocks := [], l_ops := [], l_phase := Down\<rparr>)"
| l_recover: "l_phase s = Down \<Longrightarrow>
    lstep start sz s (s\<lparr>l_blocks := head_get (l_disk s start), l_phase := Install_at 0\<rparr>)"

lemma set_absorb [simp]: "set (absorb b bs) = insert b (set bs)"
  by (auto simp: absorb_def)

lemma view_frame [simp]:
  "view (s\<lparr>l_ops := o'\<rparr>) = view s" "view (s\<lparr>l_phase := ph\<rparr>) = view s" "view (s\<lparr>l_blocks := bs\<rparr>) = view s"
  by (auto simp: fun_eq_iff view_def split: option.split)

lemma view_cache [simp]: "view (s\<lparr>l_cache := (l_cache s)(b \<mapsto> x)\<rparr>) = (view s)(b := x)"
  by (auto simp: fun_eq_iff view_def split: option.split)

lemma view_disk: "d c = l_disk s c \<Longrightarrow> view (s\<lparr>l_disk := d\<rparr>) c = view s c"
  by (auto simp: view_def split: option.split)

section \<open>The header code\<close>

lemma length_head_put_fold:
  "4 + 4 * k \<le> length d \<Longrightarrow> length (fold (\<lambda>i. put32 (4 + 4 * i) (bs ! i)) [0..<k] d) = length d"
  by (induction k) simp_all

lemma length_head_put [simp]: "length bs \<le> LOGSIZE \<Longrightarrow> length d = BSIZE \<Longrightarrow> length (head_put bs d) = BSIZE"
  unfolding head_put_def using length_head_put_fold [of "length bs" "put32 0 (of_nat (length bs)) d" bs] by simp

lemma head_put_fold:
  assumes "k \<le> LOGSIZE" and "length d = BSIZE"
  shows "get32 (fold (\<lambda>i. put32 (4 + 4 * i) (bs ! i)) [0..<k] d) 0 = get32 d 0"
    and "j < k \<Longrightarrow> get32 (fold (\<lambda>i. put32 (4 + 4 * i) (bs ! i)) [0..<k] d) (4 + 4 * j) = bs ! j"
proof -
  let ?f = "\<lambda>k. fold (\<lambda>i. put32 (4 + 4 * i) (bs ! i)) [0..<k] d"
  have len: "length (?f i) = BSIZE" if "i \<le> LOGSIZE" for i using that assms(2) length_head_put_fold [of i d bs] by simp
  show "get32 (?f k) 0 = get32 d 0" using assms
    by (induction k) (simp_all add: len)
  show "j < k \<Longrightarrow> get32 (?f k) (4 + 4 * j) = bs ! j" using assms
  proof (induction k)
    case (Suc k)
    then show ?case by (cases "j = k") (simp_all add: len)
  qed simp
qed

lemma head_get_put [simp]:
  assumes "length bs \<le> LOGSIZE" and "length d = BSIZE"
  shows "head_get (head_put bs d) = bs"
proof -
  let ?d = "put32 0 (of_nat (length bs)) d"
  have d: "length ?d = BSIZE" using assms(2) by simp
  have n: "unat (of_nat (length bs) :: u32) = length bs" using assms(1) by (simp add: unat_of_nat)
  have "get32 (head_put bs d) 0 = of_nat (length bs)"
    using head_put_fold(1) [OF assms(1) d] assms(2) by (simp add: head_put_def)
  moreover have "nat (sint (of_nat (length bs) :: u32)) = length bs"
    using nat_abs_sint_pos [of "of_nat (length bs)"] sint_neg_u32 [of "of_nat (length bs)"] n assms(1) by simp
  ultimately show ?thesis
    using head_put_fold(2) [OF assms(1) d] by (auto simp: head_get_def head_put_def intro!: nth_equalityI)
qed

lemma set_bdata_app: "set_bdata b f s w = Done () (s\<lparr>bufs := (bufs s)(b := bufs s b\<lparr>b_data := f (b_data (bufs s b))\<rparr>)\<rparr>) w"
  by (simp add: set_bdata_def upd_buf_def)

lemma upd_log_app: "upd_log f s w = Done () (s\<lparr>log := f (log s)\<rparr>) w"
  by (simp add: upd_log_def)

text \<open>The loops of the kernel's \<open>write_head\<close> and \<open>read_head\<close> compute these two functions.\<close>

lemma write_head_bytes:
  assumes "0 \<le> lg_n lg"
  shows "kseq (set_bdata b (put32 0 (of_int (lg_n lg))))
      (kfor (nat (lg_n lg)) 0 (\<lambda>i. set_bdata b (put32 (4 + 4 * i) (lg_block lg i)))) s w =
    Done () (s\<lparr>bufs := (bufs s)(b := bufs s b\<lparr>b_data :=
      head_put (map (lg_block lg) [0..<nat (lg_n lg)]) (b_data (bufs s b))\<rparr>)\<rparr>) w"
proof -
  let ?n = "nat (lg_n lg)" and ?put = "\<lambda>i. put32 (4 + 4 * i) (lg_block lg i)"
  have loop: "kfor k i (\<lambda>i. set_bdata b (?put i)) t w =
      Done () (t\<lparr>bufs := (bufs t)(b := bufs t b\<lparr>b_data := fold ?put [i..<i + k] (b_data (bufs t b))\<rparr>)\<rparr>) w" for k i t
  proof (induction k arbitrary: i t)
    case (Suc k)
    let ?t = "t\<lparr>bufs := (bufs t)(b := bufs t b\<lparr>b_data := ?put i (b_data (bufs t b))\<rparr>)\<rparr>"
    have up: "[i..<i + Suc k] = i # [Suc i..<Suc i + k]" by (simp add: upt_conv_Cons del: upt_Suc)
    have "kfor (Suc k) i (\<lambda>i. set_bdata b (?put i)) t w = kfor k (Suc i) (\<lambda>i. set_bdata b (?put i)) ?t w"
      by (simp add: set_bdata_app)
    also have "\<dots> = Done () (?t\<lparr>bufs := (bufs ?t)(b := bufs ?t b\<lparr>b_data := fold ?put [Suc i..<Suc i + k] (b_data (bufs ?t b))\<rparr>)\<rparr>) w"
      by (rule Suc.IH)
    finally show ?case unfolding up by (simp add: fun_upd_def cong: if_cong del: upt_Suc)
  qed simp
  have "fold ?put [0..<?n] d = fold (\<lambda>i. put32 (4 + 4 * i) (map (lg_block lg) [0..<?n] ! i)) [0..<?n] d" for d
    by (intro fold_cong) simp_all
  then show ?thesis using assms loop [of ?n 0] by (simp add: set_bdata_app head_put_def)
qed

lemma read_head_bytes:
  "kseq (upd_log (\<lambda>l. l\<lparr>lg_n := sint (get32 lh 0)\<rparr>))
     (kfor (nat (sint (get32 lh 0))) 0 (\<lambda>i. upd_log (\<lambda>l. l\<lparr>lg_block := (lg_block l)(i := get32 lh (4 + 4 * i))\<rparr>))) s w =
   Done () (s\<lparr>log := log s\<lparr>lg_n := sint (get32 lh 0), lg_block := (\<lambda>i. if i < length (head_get lh) then head_get lh ! i
     else lg_block (log s) i)\<rparr>\<rparr>) w"
proof -
  let ?upd = "\<lambda>i. upd_log (\<lambda>l. l\<lparr>lg_block := (lg_block l)(i := get32 lh (4 + 4 * i))\<rparr>)"
  have loop: "kfor k i ?upd t w = Done () (t\<lparr>log := log t\<lparr>lg_block := (\<lambda>j. if i \<le> j \<and> j < i + k then get32 lh (4 + 4 * j)
      else lg_block (log t) j)\<rparr>\<rparr>) w" for k i t
  proof (induction k arbitrary: i t)
    case (Suc k)
    let ?l = "log t\<lparr>lg_block := (lg_block (log t))(i := get32 lh (4 + 4 * i))\<rparr>"
    have "kfor (Suc k) i ?upd t w = kfor k (Suc i) ?upd (t\<lparr>log := ?l\<rparr>) w" by (simp add: upd_log_app)
    also have "\<dots> = Done () ((t\<lparr>log := ?l\<rparr>)\<lparr>log := log (t\<lparr>log := ?l\<rparr>)\<lparr>lg_block := (\<lambda>j. if Suc i \<le> j \<and> j < Suc i + k
        then get32 lh (4 + 4 * j) else lg_block (log (t\<lparr>log := ?l\<rparr>)) j)\<rparr>\<rparr>) w"
      by (rule Suc.IH)
    also have "(\<lambda>j. if Suc i \<le> j \<and> j < Suc i + k then get32 lh (4 + 4 * j) else lg_block (log (t\<lparr>log := ?l\<rparr>)) j) =
        (\<lambda>j. if i \<le> j \<and> j < i + Suc k then get32 lh (4 + 4 * j) else lg_block (log t) j)"
      by (auto simp: fun_eq_iff)
    finally show ?case by simp
  next
    case (0 i t)
    have "(\<lambda>j. if i \<le> j \<and> j < i + 0 then get32 lh (4 + 4 * j) else lg_block (log t) j) = lg_block (log t)" by (auto simp: fun_eq_iff)
    then show ?case by simp
  qed
  show ?thesis using loop [of "nat (sint (get32 lh 0))" 0]
    by (simp add: upd_log_app head_get_def cong: if_cong)
qed

section \<open>What a recovery would find\<close>

definition eff :: "u32 \<Rightarrow> (u32 \<Rightarrow> u8 list) \<Rightarrow> u32 \<Rightarrow> u8 list" where
  "eff start d b = (let hs = head_get (d start) in
     case map_of (zip hs (map (\<lambda>i. d (log_block start i)) [0..<length hs])) b of Some x \<Rightarrow> x | None \<Rightarrow> d b)"

lemma eff_logged:
  assumes "distinct (head_get (d start))" and "i < length (head_get (d start))" and "b = head_get (d start) ! i"
  shows "eff start d b = d (log_block start i)"
proof -
  let ?hs = "head_get (d start)"
  have "map_of (zip ?hs (map (\<lambda>i. d (log_block start i)) [0..<length ?hs])) (?hs ! i) =
      Some (map (\<lambda>i. d (log_block start i)) [0..<length ?hs] ! i)"
    using assms by (intro map_of_zip_nth) simp_all
  with assms show ?thesis by (simp add: eff_def Let_def)
qed

lemma eff_other: "b \<notin> set (head_get (d start)) \<Longrightarrow> eff start d b = d b"
  by (simp add: eff_def Let_def map_of_zip_is_None [THEN iffD2] split: option.split)

definition headers_ok :: "u32 \<Rightarrow> nat \<Rightarrow> u32 list \<Rightarrow> bool" where
  "headers_ok start sz bs \<longleftrightarrow> distinct bs \<and> length bs \<le> LOGSIZE \<and> length bs \<le> sz - 1 \<and> (\<forall>b \<in> set bs. home start sz b)"

fun linv_phase :: "u32 \<Rightarrow> nat \<Rightarrow> logm \<Rightarrow> lphase \<Rightarrow> bool" where
  "linv_phase start sz s Open \<longleftrightarrow> head_get (l_disk s start) = [] \<and>
     (\<forall>b. home start sz b \<longrightarrow> b \<notin> set (l_blocks s) \<longrightarrow> view s b = l_disk s b)"
| "linv_phase start sz s (Log_at i) \<longleftrightarrow> head_get (l_disk s start) = [] \<and> l_ops s = [] \<and> i \<le> length (l_blocks s) \<and>
     (\<forall>b. home start sz b \<longrightarrow> b \<notin> set (l_blocks s) \<longrightarrow> view s b = l_disk s b) \<and>
     (\<forall>k < i. l_disk s (log_block start k) = view s (l_blocks s ! k))"
| "linv_phase start sz s (Install_at i) \<longleftrightarrow> head_get (l_disk s start) = l_blocks s \<and> l_ops s = [] \<and> i \<le> length (l_blocks s) \<and>
     (\<forall>b x. home start sz b \<longrightarrow> l_cache s b = Some x \<longrightarrow> x = eff start (l_disk s) b) \<and>
     (\<forall>k < i. l_disk s (l_blocks s ! k) = l_disk s (log_block start k))"
| "linv_phase start sz s Down \<longleftrightarrow> l_cache s = Map.empty \<and> l_blocks s = [] \<and> l_ops s = []"
| "linv_phase start sz s Overflow \<longleftrightarrow> True"

definition linv :: "u32 \<Rightarrow> nat \<Rightarrow> logm \<Rightarrow> bool" where
  "linv start sz s \<longleftrightarrow> length (l_disk s start) = BSIZE \<and> headers_ok start sz (l_blocks s) \<and>
     headers_ok start sz (head_get (l_disk s start)) \<and> linv_phase start sz s (l_phase s)"

section \<open>The invariant\<close>

lemma log_block_inj: "i < LOGSIZE \<Longrightarrow> j < LOGSIZE \<Longrightarrow> log_block start i = log_block start j \<longleftrightarrow> i = j"
  using of_nat_u32_inject [of i j] by (simp add: log_block_def)

lemma log_block_start: "in_log sz i \<Longrightarrow> log_block start i \<noteq> start"
  using of_nat_u32_inject [of "Suc i" 0] by (simp add: in_log_def log_block_def add.commute add.left_commute)

lemma home_apart: "home start sz b \<Longrightarrow> b \<noteq> start" "home start sz b \<Longrightarrow> in_log sz i \<Longrightarrow> b \<noteq> log_block start i"
  by (auto simp: home_def)

lemma eff_empty: "head_get (d start) = [] \<Longrightarrow> eff start d b = d b"
  by (simp add: eff_other)

lemma eff_log:
  "head_get (d start) = [] \<Longrightarrow> in_log sz i \<Longrightarrow> home start sz b \<Longrightarrow> eff start (d(log_block start i := x)) b = eff start d b"
  using log_block_start [of sz i start] home_apart by (simp add: eff_empty)

lemma eff_head:
  assumes hs: "headers_ok start sz bs" and d: "length (d start) = BSIZE"
    and logged: "\<forall>k < length bs. d (log_block start k) = v (bs ! k)" and rest: "\<forall>b. home start sz b \<longrightarrow> b \<notin> set bs \<longrightarrow> v b = d b"
    and b: "home start sz b"
  shows "eff start (d(start := head_put bs (d start))) b = v b"
proof -
  let ?d = "d(start := head_put bs (d start))"
  have h: "head_get (?d start) = bs" using hs d by (simp add: headers_ok_def)
  show ?thesis
  proof (cases "b \<in> set bs")
    case True
    then obtain k where k: "k < length bs" "b = bs ! k" by (auto simp: in_set_conv_nth)
    have "eff start ?d b = ?d (log_block start k)" using hs k unfolding headers_ok_def by (intro eff_logged) (simp_all only: h)
    also have "\<dots> = d (log_block start k)" using log_block_start [of sz k start] hs k by (simp add: headers_ok_def in_log_def)
    finally show ?thesis using logged k by simp
  next
    case False
    then have "eff start ?d b = ?d b" by (intro eff_other) (simp only: h, simp)
    then show ?thesis using False rest b home_apart(1) [OF b] by simp
  qed
qed

lemma eff_install:
  assumes hs: "headers_ok start sz bs" "head_get (d start) = bs" and i: "i < length bs"
  shows "eff start (d(bs ! i := d (log_block start i))) b = eff start d b"
proof -
  let ?d = "d(bs ! i := d (log_block start i))"
  have home: "home start sz (bs ! i)" using hs i by (simp add: headers_ok_def)
  then have h: "head_get (?d start) = bs" using hs(2) home_apart(1) [OF home] by auto
  have bs: "distinct bs" using hs by (simp add: headers_ok_def)
  show ?thesis
  proof (cases "b \<in> set bs")
    case True
    then obtain k where k: "k < length bs" "b = bs ! k" by (auto simp: in_set_conv_nth)
    have "in_log sz k" using hs(1) k(1) by (simp add: headers_ok_def in_log_def)
    from home_apart(2) [OF home this] have "?d (log_block start k) = d (log_block start k)" by auto
    moreover have "eff start ?d b = ?d (log_block start k)" using bs k by (intro eff_logged) (simp_all only: h)
    moreover have "eff start d b = d (log_block start k)" using bs k hs(2) by (intro eff_logged) simp_all
    ultimately show ?thesis by simp
  next
    case False
    then have "eff start ?d b = ?d b" "eff start d b = d b" by (simp_all only: eff_other h hs(2) not_False_eq_True)
    moreover have "b \<noteq> bs ! i" using False i by auto
    ultimately show ?thesis by simp
  qed
qed

lemma eff_installed:
  assumes hs: "headers_ok start sz bs" "head_get (d start) = bs" and all: "\<forall>k < length bs. d (bs ! k) = d (log_block start k)"
  shows "eff start d b = d b"
proof (cases "b \<in> set bs")
  case True
  then obtain k where k: "k < length bs" "b = bs ! k" by (auto simp: in_set_conv_nth)
  have "eff start d b = d (log_block start k)" using hs k by (intro eff_logged) (simp_all add: headers_ok_def)
  with all k show ?thesis by simp
qed (use hs(2) in \<open>simp add: eff_other\<close>)

text \<open>Every step keeps the invariant. It also keeps what a recovery would find, with one exception:
  writing the header makes it the contents the file system calls see.\<close>

definition commits :: "u32 \<Rightarrow> nat \<Rightarrow> logm \<Rightarrow> logm \<Rightarrow> bool" where
  "commits start sz s s' \<longleftrightarrow> l_phase s = Log_at (length (l_blocks s)) \<and> l_phase s' = Install_at 0 \<and>
     (\<forall>b. home start sz b \<longrightarrow> eff start (l_disk s') b = view s b)"

definition same_eff :: "u32 \<Rightarrow> nat \<Rightarrow> logm \<Rightarrow> logm \<Rightarrow> bool" where
  "same_eff start sz s s' \<longleftrightarrow> (\<forall>b. home start sz b \<longrightarrow> eff start (l_disk s') b = eff start (l_disk s) b)"

lemma head_commits:
  assumes "linv start sz s" and "l_phase s = Log_at (length (l_blocks s))"
    and s': "s' = s\<lparr>l_disk := (l_disk s)(start := head_put (l_blocks s) (l_disk s start)), l_phase := Install_at 0\<rparr>"
  shows "linv start sz s'" and "commits start sz s s'"
proof -
  let ?d = "(l_disk s)(start := head_put (l_blocks s) (l_disk s start))"
  have hs: "headers_ok start sz (l_blocks s)" "length (l_disk s start) = BSIZE" using assms(1) by (auto simp: linv_def)
  have eff: "eff start ?d b = view s b" if "home start sz b" for b
    using assms(1,2) that by (intro eff_head) (auto simp: linv_def)
  have "x = view s b" if "l_cache s b = Some x" for b x using that by (simp add: view_def)
  moreover have "l_ops s = []" using assms(1,2) by (simp add: linv_def)
  ultimately show "linv start sz s'" using hs eff unfolding s' by (auto simp: linv_def headers_ok_def)
  show "commits start sz s s'" using eff assms(2) unfolding s' by (auto simp: commits_def)
qed

lemma lstep_inv:
  assumes "lstep start sz s s'" and "linv start sz s"
  shows "linv start sz s' \<and> (same_eff start sz s s' \<or> commits start sz s s')"
  using assms
proof cases
  case l_begin
  with assms(2) show ?thesis by (auto simp: linv_def same_eff_def)
next
  case (l_write i b x)
  have bs: "headers_ok start sz (absorb b (l_blocks s))"
    using assms(2) l_write by (auto simp: linv_def headers_ok_def absorb_def)
  with assms(2) l_write show ?thesis by (auto simp: linv_def same_eff_def)
next
  case (l_overflow i b)
  with assms(2) show ?thesis by (auto simp: linv_def same_eff_def)
next
  case (l_end i)
  with assms(2) show ?thesis by (auto simp: linv_def same_eff_def)
next
  case l_end_last
  with assms(2) show ?thesis by (auto simp: linv_def same_eff_def)
next
  case (l_log i)
  let ?d = "(l_disk s)(log_block start i := view s (l_blocks s ! i))"
  have i: "in_log sz i" "head_get (l_disk s start) = []" using l_log assms(2) by (auto simp: linv_def headers_ok_def in_log_def)
  have start: "?d start = l_disk s start" using log_block_start [OF i(1), of start] by simp
  have home: "?d b = l_disk s b" "view (s\<lparr>l_disk := ?d\<rparr>) b = view s b" if "home start sz b" for b
    using home_apart(2) [OF that i(1)] by (simp_all add: view_disk)
  have "home start sz (l_blocks s ! k)" if "k < length (l_blocks s)" for k
    using that assms(2) by (simp add: linv_def headers_ok_def)
  then have logged: "?d (log_block start k) = view (s\<lparr>l_disk := ?d\<rparr>) (l_blocks s ! k)" if "k < Suc i" for k
    using that l_log assms(2) home(2) log_block_inj [of k i start] by (auto simp: linv_def headers_ok_def less_Suc_eq)
  have eff: "eff start ?d b = eff start (l_disk s) b" if "home start sz b" for b
    using that i by (intro eff_log)
  show ?thesis
    using l_log assms(2) i start home logged eff by (auto simp: linv_def same_eff_def)
next
  case l_head
  show ?thesis using head_commits [OF assms(2) l_head(2,1)] by blast
next
  case (l_install i)
  let ?d = "(l_disk s)(l_blocks s ! i := l_disk s (log_block start i))"
  have hs: "headers_ok start sz (l_blocks s)" "head_get (l_disk s start) = l_blocks s" using assms(2) l_install by (auto simp: linv_def)
  have eff: "eff start ?d = eff start (l_disk s)" using eff_install [where d = "l_disk s", OF hs l_install(3)] by auto
  have home: "home start sz (l_blocks s ! k)" if "k < length (l_blocks s)" for k
    using that hs by (simp add: headers_ok_def)
  have log: "?d (log_block start k) = l_disk s (log_block start k)" if "k < length (l_blocks s)" for k
  proof -
    have "in_log sz k" using hs(1) that by (simp add: headers_ok_def in_log_def)
    from home_apart(2) [OF home [OF l_install(3)] this] show ?thesis by auto
  qed
  have start: "?d start = l_disk s start" using home_apart(1) [OF home [OF l_install(3)]] by auto
  have "?d (l_blocks s ! k) = l_disk s (log_block start k)" if "k < Suc i" for k
    using that l_install assms(2) hs by (auto simp: linv_def headers_ok_def less_Suc_eq nth_eq_iff_index_eq)
  then show ?thesis using l_install assms(2) eff log start by (auto simp: linv_def same_eff_def)
next
  case l_erase
  let ?d = "(l_disk s)(start := head_put [] (l_disk s start))"
  have hs: "headers_ok start sz (l_blocks s)" "head_get (l_disk s start) = l_blocks s" "length (l_disk s start) = BSIZE"
    using assms(2) l_erase by (auto simp: linv_def)
  have h: "head_get (?d start) = []" using hs(3) by simp
  have all: "eff start (l_disk s) b = l_disk s b" for b
    using assms(2) l_erase by (intro eff_installed [OF hs(1)]) (auto simp: linv_def)
  have eff: "eff start ?d b = eff start (l_disk s) b" "view s' b = l_disk s' b" if "home start sz b" for b
  proof -
    have b: "?d b = l_disk s b" using home_apart(1) [OF that] by simp
    have "eff start ?d b = ?d b" using h by (rule eff_empty)
    with b all show "eff start ?d b = eff start (l_disk s) b" by simp
    have "x = l_disk s b" if "l_cache s b = Some x" for x
      using that \<open>home start sz b\<close> assms(2) l_erase all by (simp add: linv_def)
    with b show "view s' b = l_disk s' b" unfolding l_erase(1) by (auto simp: view_def split: option.split)
  qed
  have "l_phase s' = Open" "l_blocks s' = []" "l_disk s' = ?d" using l_erase by simp_all
  moreover have "length (?d start) = BSIZE" using hs(3) by simp
  ultimately show ?thesis using h eff by (simp add: linv_def same_eff_def headers_ok_def del: fun_upd_apply)
next
  case l_crash
  with assms(2) show ?thesis by (auto simp: linv_def same_eff_def headers_ok_def)
next
  case l_recover
  with assms(2) show ?thesis by (auto simp: linv_def same_eff_def headers_ok_def)
qed


definition lrun :: "u32 \<Rightarrow> nat \<Rightarrow> logm \<Rightarrow> logm \<Rightarrow> bool" where
  "lrun start sz = (lstep start sz)\<^sup>*\<^sup>*"

lemma lrun_inv: "lrun start sz s t \<Longrightarrow> linv start sz s \<Longrightarrow> linv start sz t"
  unfolding lrun_def by (induction rule: rtranclp_induct) (auto dest: lstep_inv)

text \<open>A disk without a transaction, and a machine just booted from it.\<close>

definition booted :: "u32 \<Rightarrow> nat \<Rightarrow> logm \<Rightarrow> bool" where
  "booted start sz s \<longleftrightarrow> length (l_disk s start) = BSIZE \<and> head_get (l_disk s start) = [] \<and>
     l_cache s = Map.empty \<and> l_blocks s = [] \<and> l_ops s = [] \<and> l_phase s = Open"

lemma booted_inv: "booted start sz s \<Longrightarrow> linv start sz s"
  by (simp add: booted_def linv_def headers_ok_def view_def)

text \<open>The steps of a commit, of crashes and of recoveries: no file system call runs.\<close>

inductive lquiet :: "u32 \<Rightarrow> nat \<Rightarrow> logm \<Rightarrow> logm \<Rightarrow> bool" for start sz s where
  lq_refl: "lquiet start sz s s"
| lq_step: "lquiet start sz s t \<Longrightarrow> l_phase t \<noteq> Open \<or> l_phase u = Down \<Longrightarrow> lstep start sz t u \<Longrightarrow> lquiet start sz s u"

text \<open>While \<open>write_log\<close> runs, what the calls see does not change.\<close>

lemma log_phase_view:
  assumes "lstep start sz s t" and "linv start sz s" and "l_phase s = Log_at i" and "l_phase t = Log_at j" and "home start sz b"
  shows "view t b = view s b"
  using assms(1)
proof cases
  case (l_log k)
  then have "in_log sz k" using assms(2) by (simp add: linv_def headers_ok_def in_log_def)
  with home_apart(2) [OF assms(5)] have "b \<noteq> log_block start k" by blast
  then show ?thesis unfolding l_log(1) by (simp add: view_disk)
qed (use assms(3,4) in \<open>auto split: if_splits\<close>)

definition logging :: "logm \<Rightarrow> bool" where
  "logging s \<longleftrightarrow> (\<exists>i. l_phase s = Log_at i)"

lemma logging_from: "lstep start sz s t \<Longrightarrow> l_phase s \<noteq> Open \<Longrightarrow> logging t \<Longrightarrow> logging s"
  by (cases rule: lstep.cases) (auto simp: logging_def)

lemma quiet_atomic:
  assumes "lquiet start sz s t" and "linv start sz s" and "logging s"
  shows "linv start sz t \<and>
    ((\<forall>b. home start sz b \<longrightarrow> eff start (l_disk t) b = eff start (l_disk s) b) \<and>
       (logging t \<longrightarrow> (\<forall>b. home start sz b \<longrightarrow> view t b = view s b)) \<or>
     (\<forall>b. home start sz b \<longrightarrow> eff start (l_disk t) b = view s b) \<and> \<not> logging t)"
  using assms(1)
proof induction
  case (lq_step t u)
  note inv = lstep_inv [OF lq_step.hyps(3) conjunct1 [OF lq_step.IH]]
  have prev: "logging t" if "logging u"
    using that lq_step.hyps(2) logging_from [OF lq_step.hyps(3)] by (auto simp: logging_def)
  have view: "view u b = view t b" if "logging u" "home start sz b" for b
    using that prev log_phase_view [OF lq_step.hyps(3) conjunct1 [OF lq_step.IH]] by (auto simp: logging_def)
  show ?case
  proof (cases "same_eff start sz t u")
    case True
    then show ?thesis using inv lq_step.IH prev view by (auto simp: same_eff_def)
  next
    case False
    then have c: "commits start sz t u" using inv by blast
    then have "logging t" "\<not> logging u" by (auto simp: commits_def logging_def)
    then show ?thesis using inv lq_step.IH c by (auto simp: commits_def)
  qed
qed (use assms in auto)

text \<open>Without a crash, the commit goes through.\<close>

lemma lquiet_trans: "lquiet start sz s t \<Longrightarrow> lquiet start sz t u \<Longrightarrow> lquiet start sz s u"
  by (rotate_tac, induction rule: lquiet.induct) (auto intro: lq_step)

lemma lquiet_one: "lstep start sz s t \<Longrightarrow> l_phase s \<noteq> Open \<Longrightarrow> lquiet start sz s t"
  by (rule lq_step [OF lq_refl]) auto

lemma finish_log:
  "l_phase s = Log_at i \<Longrightarrow> i \<le> length (l_blocks s) \<Longrightarrow>
   \<exists>t. lquiet start sz s t \<and> l_phase t = Log_at (length (l_blocks t)) \<and> l_blocks t = l_blocks s"
proof (induction "length (l_blocks s) - i" arbitrary: i s)
  case 0
  then show ?case by (intro exI [of _ s]) (auto intro: lq_refl)
next
  case (Suc n)
  then have n: "n = length (l_blocks s) - Suc i" "Suc i \<le> length (l_blocks s)" by arith+
  from Suc have step: "lstep start sz s (s\<lparr>l_disk := (l_disk s)(log_block start i := view s (l_blocks s ! i)), l_phase := Log_at (Suc i)\<rparr>)"
      (is "lstep start sz s ?u") by (intro l_log) auto
  obtain t where "lquiet start sz ?u t \<and> l_phase t = Log_at (length (l_blocks t)) \<and> l_blocks t = l_blocks s"
    using Suc.hyps(1) [of ?u "Suc i"] n by auto
  then show ?case using lquiet_trans [OF lquiet_one [OF step]] Suc.prems(1) by auto
qed

lemma finish_install:
  "l_phase s = Install_at i \<Longrightarrow> i \<le> length (l_blocks s) \<Longrightarrow> \<exists>t. lquiet start sz s t \<and> l_phase t = Open"
proof (induction "length (l_blocks s) - i" arbitrary: i s)
  case 0
  then have "lstep start sz s (s\<lparr>l_blocks := [], l_disk := (l_disk s)(start := head_put [] (l_disk s start)), l_phase := Open\<rparr>)"
    by (intro l_erase) auto
  then have "lquiet start sz s (s\<lparr>l_blocks := [], l_disk := (l_disk s)(start := head_put [] (l_disk s start)), l_phase := Open\<rparr>)"
    using 0 by (intro lquiet_one) auto
  then show ?case by fastforce
next
  case (Suc n)
  then have n: "n = length (l_blocks s) - Suc i" "Suc i \<le> length (l_blocks s)" by arith+
  from Suc have step: "lstep start sz s (s\<lparr>l_disk := (l_disk s)(l_blocks s ! i := l_disk s (log_block start i)), l_phase := Install_at (Suc i)\<rparr>)"
      (is "lstep start sz s ?u") by (intro l_install) auto
  obtain t where "lquiet start sz ?u t \<and> l_phase t = Open"
    using Suc.hyps(1) [of ?u "Suc i"] n by auto
  then show ?case using lquiet_trans [OF lquiet_one [OF step]] Suc.prems(1) by auto
qed

lemma quiet_same:
  assumes "lquiet start sz s t" and "linv start sz s" and "\<not> logging s"
  shows "linv start sz t \<and> \<not> logging t \<and> same_eff start sz s t"
  using assms(1)
proof induction
  case (lq_step t u)
  note inv = lstep_inv [OF lq_step.hyps(3) conjunct1 [OF lq_step.IH]]
  have "\<not> logging u" using lq_step.IH lq_step.hyps(2) logging_from [OF lq_step.hyps(3)] by (auto simp: logging_def)
  moreover have "\<not> commits start sz t u" using lq_step.IH by (auto simp: commits_def logging_def)
  ultimately show ?case using inv lq_step.IH by (auto simp: same_eff_def)
qed (use assms in \<open>auto simp: same_eff_def\<close>)

lemma open_disk: "linv start sz s \<Longrightarrow> l_phase s = Open \<Longrightarrow> eff start (l_disk s) b = l_disk s b"
  by (simp add: linv_def eff_empty)

lemma commit_completes:
  assumes inv: "linv start sz s" and log: "logging s"
  shows "\<exists>t. lquiet start sz s t \<and> l_phase t = Open \<and> (\<forall>b. home start sz b \<longrightarrow> l_disk t b = view s b)"
proof -
  obtain i where i: "l_phase s = Log_at i" "i \<le> length (l_blocks s)"
    using inv log by (auto simp: linv_def logging_def)
  then obtain t where t: "lquiet start sz s t" "l_phase t = Log_at (length (l_blocks t))" using finish_log by blast
  then have "linv start sz t" "logging t" "\<forall>b. home start sz b \<longrightarrow> view t b = view s b"
    using quiet_atomic [OF t(1) inv log] by (auto simp: logging_def)
  let ?u = "t\<lparr>l_disk := (l_disk t)(start := head_put (l_blocks t) (l_disk t start)), l_phase := Install_at 0\<rparr>"
  have step: "lstep start sz t ?u" using t(2) by (rule l_head)
  have u: "linv start sz ?u" "commits start sz t ?u" using head_commits [OF \<open>linv start sz t\<close> t(2) refl] by auto
  obtain v where v: "lquiet start sz ?u v" "l_phase v = Open" using finish_install [of ?u 0] by auto
  have "same_eff start sz ?u v" "linv start sz v" using quiet_same [OF v(1) u(1)] by (auto simp: logging_def)
  then have "l_disk v b = view s b" if "home start sz b" for b
    using that u(2) open_disk [OF _ v(2)] \<open>\<forall>b. home start sz b \<longrightarrow> view t b = view s b\<close>
    by (auto simp: same_eff_def commits_def)
  moreover have "lquiet start sz s v"
    using lquiet_trans [OF lquiet_trans [OF t(1) lquiet_one [OF step]] v(1)] t(2) by simp
  ultimately show ?thesis using v(2) by blast
qed

section \<open>Properties\<close>

text \<open>C6. Crash safety of the log. Take any state reachable from a clean disk by file system calls,
  commits, crashes and recoveries in any order. A step changes what a recovery would find on the
  disk only when it writes the header of a full log, and then to exactly what the file system
  calls see, with no call outstanding. While no commit runs, the disk itself holds what a recovery
  would find. A commit under way, however often the machine crashes from there on, in the commit or
  in a recovery, ends with a disk that has all of the transaction's blocks or none of them; and it
  can always go through.\<close>

theorem log_crash_safe:
  assumes boot: "booted start sz s0" and reach: "lrun start sz s0 s"
  shows "(\<forall>t. lstep start sz s t \<longrightarrow> same_eff start sz s t \<or> commits start sz s t \<and> l_ops s = []) \<and>
    (l_phase s = Open \<longrightarrow> (\<forall>b. eff start (l_disk s) b = l_disk s b)) \<and>
    (logging s \<longrightarrow> (\<forall>t. lquiet start sz s t \<and> l_phase t = Open \<longrightarrow>
        (\<forall>b. home start sz b \<longrightarrow> l_disk t b = eff start (l_disk s) b) \<or> (\<forall>b. home start sz b \<longrightarrow> l_disk t b = view s b))) \<and>
    (logging s \<longrightarrow> (\<exists>t. lquiet start sz s t \<and> l_phase t = Open \<and> (\<forall>b. home start sz b \<longrightarrow> l_disk t b = view s b)))"
proof (intro conjI allI impI)
  have inv: "linv start sz s" using lrun_inv [OF reach booted_inv [OF boot]] .
  fix t assume "lstep start sz s t"
  then have "same_eff start sz s t \<or> commits start sz s t" using lstep_inv inv by blast
  moreover have "commits start sz s t \<Longrightarrow> l_ops s = []" using inv by (auto simp: commits_def linv_def)
  ultimately show "same_eff start sz s t \<or> commits start sz s t \<and> l_ops s = []" by blast
next
  have inv: "linv start sz s" using lrun_inv [OF reach booted_inv [OF boot]] .
  show "l_phase s = Open \<Longrightarrow> eff start (l_disk s) b = l_disk s b" for b using inv by (rule open_disk)
  show "logging s \<Longrightarrow> \<exists>t. lquiet start sz s t \<and> l_phase t = Open \<and> (\<forall>b. home start sz b \<longrightarrow> l_disk t b = view s b)"
    using inv by (rule commit_completes)
  fix t assume t: "logging s" "lquiet start sz s t \<and> l_phase t = Open"
  then have "linv start sz t" using quiet_atomic [OF _ inv] by blast
  then show "(\<forall>b. home start sz b \<longrightarrow> l_disk t b = eff start (l_disk s) b) \<or> (\<forall>b. home start sz b \<longrightarrow> l_disk t b = view s b)"
    using quiet_atomic [of start sz s t] inv t open_disk [of start sz t] by auto
qed

text \<open>A clean disk, and one call that writes block 100.\<close>

definition log0_disk :: logm where
  "log0_disk = \<lparr>l_disk = (\<lambda>_. replicate BSIZE 0), l_cache = Map.empty, l_blocks = [], l_ops = [], l_phase = Open\<rparr>"

lemma booted_log0: "booted start sz log0_disk"
proof -
  have "get32 (replicate BSIZE 0) 0 = 0" by (simp add: get32_def slice_def of_le32_def numeral_eq_Suc)
  then show ?thesis by (simp add: booted_def log0_disk_def head_get_def)
qed

lemma home_far: "40 \<le> n \<Longrightarrow> n < 2 ^ 32 \<Longrightarrow> home 2 30 (of_nat n)"
proof -
  assume n: "40 \<le> n" "n < 2 ^ 32"
  have "(of_nat n :: u32) \<noteq> of_nat (i + 3)" if "i < 30" for i
    using n that of_nat_u32_inject [of n "i + 3"] by auto
  moreover have "(of_nat n :: u32) \<noteq> of_nat 2" using n of_nat_u32_inject [of n 2] by auto
  ultimately show "home 2 30 (of_nat n)" by (auto simp: home_def in_log_def log_block_def add.commute)
qed

theorem log_crash_safe_witness:
  "\<exists>s t. lrun 2 30 log0_disk s \<and> logging s \<and> lquiet 2 30 s t \<and> l_disk t 100 = [1]"
proof -
  let ?s1 = "log0_disk\<lparr>l_ops := [0]\<rparr>"
  let ?s2 = "log0_disk\<lparr>l_cache := [100 \<mapsto> [1]], l_blocks := [100], l_ops := [1]\<rparr>"
  let ?s3 = "log0_disk\<lparr>l_cache := [100 \<mapsto> [1]], l_blocks := [100], l_ops := [], l_phase := Log_at 0\<rparr>"
  have home: "home 2 30 100" using home_far [of 100] by simp
  have "lstep 2 30 log0_disk ?s1" using lstep.l_begin [of log0_disk 2 30] by (simp add: log0_disk_def)
  moreover have "lstep 2 30 ?s1 ?s2" using lstep.l_write [of ?s1 0 2 30 100 "[1]"] home by (simp add: log0_disk_def ltick_def absorb_def)
  moreover have "lstep 2 30 ?s2 ?s3" using lstep.l_end_last [of ?s2 2 30] by (simp add: log0_disk_def)
  ultimately have run: "lrun 2 30 log0_disk ?s3" unfolding lrun_def by (meson rtranclp.rtrancl_into_rtrancl rtranclp.rtrancl_refl)
  have "logging ?s3" "view ?s3 100 = [1]" by (simp_all add: logging_def view_def)
  with log_crash_safe [OF booted_log0 run] home run show ?thesis by metis
qed

section \<open>Room in the log\<close>

definition reserved :: "nat list \<Rightarrow> nat" where
  "reserved ops = (\<Sum>k \<leftarrow> ops. MAXOPBLOCKS - k)"

definition roomy :: "logm \<Rightarrow> bool" where
  "roomy s \<longleftrightarrow> (l_phase s = Open \<longrightarrow> length (l_blocks s) + reserved (l_ops s) \<le> LOGSIZE)"

lemma reserved_le: "reserved ops \<le> length ops * MAXOPBLOCKS"
  by (induction ops) (simp_all add: reserved_def)

lemma reserved_append [simp]: "reserved (xs @ ys) = reserved xs + reserved ys"
  by (simp add: reserved_def)

lemma reserved_split: "i < length ops \<Longrightarrow> reserved ops = reserved (take i ops) + (MAXOPBLOCKS - ops ! i) + reserved (drop (Suc i) ops)"
  using id_take_nth_drop [of i ops] reserved_append [of "take i ops" "ops ! i # drop (Suc i) ops"] by (simp add: reserved_def)

lemma reserved_ltick:
  assumes "i < length ops" and "ops ! i < MAXOPBLOCKS"
  shows "reserved ops = Suc (reserved (ltick i ops))"
  using reserved_split [of i ops] reserved_split [of i "ltick i ops"] assms by (simp add: ltick_def)

lemma reserved_ldrop: "i < length ops \<Longrightarrow> reserved (ldrop i ops) \<le> reserved ops"
  using reserved_split [of i ops] by (simp add: ldrop_def)

lemma lstep_roomy:
  assumes "lstep start sz s t" and "roomy s" and "linv start sz s" and "LOGSIZE < sz"
  shows "roomy t \<and> l_phase t \<noteq> Overflow"
  using assms(1)
proof cases
  case l_begin
  then show ?thesis using reserved_le [of "l_ops s"] by (simp add: roomy_def) (simp add: reserved_def)
next
  case (l_write i b x)
  then show ?thesis using assms(2) reserved_ltick [of i "l_ops s"] by (auto simp: roomy_def absorb_def)
next
  case (l_overflow i b)
  then show ?thesis using assms(2,4) reserved_ltick [of i "l_ops s"] by (auto simp: roomy_def)
next
  case (l_end i)
  then show ?thesis using assms(2) reserved_ldrop [of i "l_ops s"] by (auto simp: roomy_def)
qed (use assms(2,3) in \<open>auto simp: roomy_def reserved_def linv_def headers_ok_def\<close>)

lemma lrun_roomy:
  assumes "lrun start sz s t" and "linv start sz s" and "roomy s" and "l_phase s \<noteq> Overflow" and "LOGSIZE < sz"
  shows "roomy t \<and> l_phase t \<noteq> Overflow \<and> linv start sz t"
  using assms(1) unfolding lrun_def
  by (induction rule: rtranclp_induct) (use assms(2-5) lstep_roomy lstep_inv in blast)+

text \<open>Three calls that together write thirty blocks: \<open>fresh k\<close> are the first \<open>k\<close> of them and \<open>used k\<close> how
  many each call has written.\<close>

definition fresh :: "nat \<Rightarrow> u32 list" where
  "fresh k = map (\<lambda>i. of_nat (1000 + i)) [0..<k]"

definition used :: "nat \<Rightarrow> nat list" where
  "used k = [min k 10, min (k - 10) 10, min (k - 20) 10]"

lemma insert_fresh: "k < 30 \<Longrightarrow> absorb (of_nat (1000 + k)) (fresh k) = fresh (Suc k)"
proof -
  assume k: "k < 30"
  have "of_nat (1000 + k) \<notin> set (fresh k)"
  proof
    assume "of_nat (1000 + k) \<in> set (fresh k)"
    then obtain i where "i < k" "(of_nat (1000 + k) :: u32) = of_nat (1000 + i)" by (auto simp: fresh_def simp del: of_nat_add)
    then show False using k of_nat_u32_inject [of "1000 + k" "1000 + i"] by simp
  qed
  then show ?thesis by (simp add: fresh_def absorb_def)
qed

lemma tick_used: "k < 30 \<Longrightarrow> used k ! (k div 10) < 10 \<and> ltick (k div 10) (used k) = used (Suc k)"
proof -
  assume "k < 30"
  then consider "k < 10" "k div 10 = 0" | "10 \<le> k" "k < 20" "k div 10 = 1" | "20 \<le> k" "k < 30" "k div 10 = 2" by fastforce
  then show ?thesis by cases (auto simp: used_def ltick_def)
qed

lemma fill_log:
  "k < 30 \<Longrightarrow> \<exists>c. lrun 2 LOGSIZE log0_disk (log0_disk\<lparr>l_cache := c, l_blocks := fresh k, l_ops := used k\<rparr>)"
proof (induction k)
  case 0
  let ?s = "\<lambda>ops. log0_disk\<lparr>l_ops := ops\<rparr>"
  have "lstep 2 30 log0_disk (?s [0])" "lstep 2 30 (?s [0]) (?s [0, 0])" "lstep 2 30 (?s [0, 0]) (?s [0, 0, 0])"
    using lstep.l_begin [of log0_disk 2 30] lstep.l_begin [of "?s [0]" 2 30] lstep.l_begin [of "?s [0, 0]" 2 30]
    by (simp_all add: log0_disk_def)
  then have "lrun 2 30 log0_disk (?s [0, 0, 0])"
    unfolding lrun_def by (meson rtranclp.rtrancl_into_rtrancl rtranclp.rtrancl_refl)
  moreover have "?s [0, 0, 0] = log0_disk\<lparr>l_cache := Map.empty, l_blocks := fresh 0, l_ops := used 0\<rparr>"
    by (simp add: log0_disk_def fresh_def used_def)
  ultimately show ?case by auto
next
  case (Suc k)
  then obtain c where run: "lrun 2 30 log0_disk (log0_disk\<lparr>l_cache := c, l_blocks := fresh k, l_ops := used k\<rparr>)" (is "lrun _ _ _ ?s")
    by auto
  have "lstep 2 30 ?s (?s\<lparr>l_cache := (l_cache ?s)(of_nat (1000 + k) \<mapsto> []),
      l_blocks := absorb (of_nat (1000 + k)) (l_blocks ?s), l_ops := ltick (k div 10) (l_ops ?s)\<rparr>)"
    using Suc.prems tick_used [of k] home_far [of "1000 + k"]
    by (intro lstep.l_write) (auto simp: log0_disk_def fresh_def used_def simp del: of_nat_add)
  then have "lstep 2 30 ?s (log0_disk\<lparr>l_cache := c(of_nat (1000 + k) \<mapsto> []), l_blocks := fresh (Suc k), l_ops := used (Suc k)\<rparr>)"
    using Suc.prems insert_fresh [of k] tick_used [of k] by (simp add: log0_disk_def del: of_nat_add)
  with run have "lrun 2 30 log0_disk (log0_disk\<lparr>l_cache := c(of_nat (1000 + k) \<mapsto> []), l_blocks := fresh (Suc k), l_ops := used (Suc k)\<rparr>)"
    unfolding lrun_def by (rule rtranclp.rtrancl_into_rtrancl)
  then show ?case by (intro exI [of _ "c(of_nat (1000 + k) \<mapsto> [])"])
qed



end
