(* ===== verification/Signal_Props.thy ===== *)
theory Signal_Props
  imports Signals Kill_Props
begin

text \<open>
  The built-in signal actions: what \<open>handle_signals\<close> does to a process none of whose deliverable
  signals has a user handler or stops it.
\<close>

section \<open>One signal\<close>

definition resumes :: "proc \<Rightarrow> nat \<Rightarrow> bool" where
  "resumes q i \<longleftrightarrow> p_signalHandler q i = of_nat SIGCONT \<or> i = SIGCONT \<and> p_signalHandler q i = SIG_DFL"

definition kills :: "proc \<Rightarrow> nat \<Rightarrow> bool" where
  "kills q i \<longleftrightarrow> \<not> resumes q i \<and> (p_signalHandler q i = of_nat SIGKILL \<or> p_signalHandler q i = SIG_DFL)"

definition built_in :: "proc \<Rightarrow> nat \<Rightarrow> bool" where
  "built_in q i \<longleftrightarrow> i \<noteq> SIGSTOP \<and> (resumes q i \<or> kills q i)"

definition acted :: "nat \<Rightarrow> proc \<Rightarrow> proc" where
  "acted i q = (if left_alone q i then q
     else if resumes q i then (taken i q)\<lparr>p_frozen := False\<rparr> else (taken i q)\<lparr>p_killed := True\<rparr>)"

lemma acted_same [simp]:
  "p_signalHandler (acted i q) = p_signalHandler q" "p_signalMask (acted i q) = p_signalMask q"
  by (simp_all add: acted_def taken_def)

lemma built_in_acted [simp]: "built_in (acted i q) j = built_in q j" "kills (acted i q) j = kills q j"
    "resumes (acted i q) j = resumes q j"
  by (simp_all add: built_in_def kills_def resumes_def)

lemma pending_acted:
  assumes "i < 32" and "j < 32"
  shows "p_pendingSignals (acted i q) AND sigbit j =
    (if i = j \<and> \<not> left_alone q i then 0 else p_pendingSignals q AND sigbit j)"
proof -
  have "(x AND NOT (sigbit i)) AND sigbit j = (if i = j then 0 else x AND sigbit j)" for x :: u32
    using assms by (auto intro!: bit_word_eqI simp: sigbit_def bit_simps)
  from this [of "p_pendingSignals q"] show ?thesis by (auto simp: acted_def taken_def)
qed

lemma left_alone_acted: "i < 32 \<Longrightarrow> j < 32 \<Longrightarrow> i \<noteq> j \<Longrightarrow> left_alone (acted i q) j = left_alone q j"
  by (simp add: left_alone_def pending_acted)

lemma left_alone_nothing: "p_pendingSignals q = 0 \<Longrightarrow> left_alone q i"
  by (simp add: left_alone_def)

lemma handle_signal_built_in:
  assumes run: "running c p s" and act: "\<not> left_alone (ptable s p) i" and b: "built_in (ptable s p) i"
  shows "handle_signal p i s w = Done None (s\<lparr>ptable := (ptable s)(p := acted i (ptable s p))\<rparr>) w"
proof -
  let ?h = "p_signalHandler (ptable s p) i"
  have stop: "\<not> (?h = of_nat SIGSTOP \<or> i = SIGSTOP)" using b by (auto simp: built_in_def kills_def resumes_def)
  have run1: "running c p (s\<lparr>ptable := (ptable s)(p := taken i (ptable s p))\<rparr>)" using run by simp
  show ?thesis
  proof (cases "resumes (ptable s p) i")
    case True
    then have "?h = of_nat SIGCONT \<or> i = SIGCONT \<and> ?h = SIG_DFL" by (simp add: resumes_def)
    with stop act True show ?thesis
      unfolding handle_signal_acts [OF act] Let_def
      by (simp add: sh_sigcont_def curproc_running [OF run1] acted_def)
  next
    case False
    then have "\<not> (?h = of_nat SIGCONT \<or> i = SIGCONT \<and> ?h = SIG_DFL)" "?h = of_nat SIGKILL \<or> ?h = SIG_DFL"
      using b by (auto simp: resumes_def built_in_def kills_def)
    with stop act False show ?thesis
      unfolding handle_signal_acts [OF act] Let_def
      by (auto simp: sh_sigkill_def curproc_running [OF run1] acted_def)
  qed
qed

section \<open>All signals\<close>

lemma fold_acted_idle: "p_pendingSignals q = 0 \<Longrightarrow> fold acted is q = q"
  by (induction "is") (simp_all add: acted_def left_alone_nothing)

lemma handle_loop_built_in:
  assumes "running c p s" and "i + k = 32"
    and "\<And>j. i \<le> j \<Longrightarrow> j < 32 \<Longrightarrow> \<not> left_alone (ptable s p) j \<Longrightarrow> built_in (ptable s p) j"
  shows "\<exists>r. kfind k i (handle_signal p) s w =
    Done r (s\<lparr>ptable := (ptable s)(p := fold acted [i..<32] (ptable s p))\<rparr>) w"
  using assms
proof (induction k arbitrary: i s)
  case (Suc k)
  let ?q = "ptable s p"
  let ?s = "s\<lparr>ptable := (ptable s)(p := acted i ?q)\<rparr>"
  have i: "i < 32" "[i..<32] = i # [Suc i..<32]" using Suc.prems(2) by (auto simp: upt_conv_Cons)
  show ?case
  proof (cases "p_pendingSignals ?q = 0")
    case True
    then have "handle_signal p i s w = Done (Some ()) s w" by (simp add: handle_signal_def)
    with True show ?thesis by (simp add: fold_acted_idle)
  next
    case False
    have "handle_signal p i s w = Done None ?s w"
    proof (cases "left_alone ?q i")
      case True
      then have "?s = s" by (simp add: acted_def)
      with handle_signal_left_alone [OF False True] show ?thesis by simp
    next
      case left: False
      with Suc.prems i show ?thesis by (intro handle_signal_built_in) auto
    qed
    moreover have "\<exists>r. kfind k (Suc i) (handle_signal p) ?s w =
        Done r (?s\<lparr>ptable := (ptable ?s)(p := fold acted [Suc i..<32] (ptable ?s p))\<rparr>) w"
      using Suc.prems i by (intro Suc.IH) (auto simp: left_alone_acted)
    then obtain r where "kfind k (Suc i) (handle_signal p) ?s w =
        Done r (s\<lparr>ptable := (ptable s)(p := fold acted [i..<32] ?q)\<rparr>) w"
      using i(2) by auto
    ultimately show ?thesis by (simp only: kfind.simps kbind_app outcome.case option.case) blast
  qed
qed simp

text \<open>What the pass leaves of the process.\<close>

definition handled :: "nat \<Rightarrow> proc \<Rightarrow> nat \<Rightarrow> bool" where
  "handled k q j \<longleftrightarrow> j < k \<and> \<not> left_alone q j"

lemma acted_fields:
  "acted i q = q\<lparr>p_pendingSignals := p_pendingSignals (acted i q), p_killed := p_killed (acted i q),
     p_frozen := p_frozen (acted i q)\<rparr>"
  by (simp add: acted_def taken_def)

definition passed :: "nat \<Rightarrow> proc \<Rightarrow> proc \<Rightarrow> bool" where
  "passed k q q' \<longleftrightarrow>
     q' = q\<lparr>p_pendingSignals := p_pendingSignals q', p_killed := p_killed q', p_frozen := p_frozen q'\<rparr> \<and>
     (\<forall>j < 32. p_pendingSignals q' AND sigbit j = (if handled k q j then 0 else p_pendingSignals q AND sigbit j)) \<and>
     (p_killed q' \<longleftrightarrow> p_killed q \<or> (\<exists>j. handled k q j \<and> \<not> resumes q j)) \<and>
     (p_frozen q' \<longleftrightarrow> p_frozen q \<and> \<not> (\<exists>j. handled k q j \<and> resumes q j))"

lemma passed_0: "passed 0 q q"
  by (simp add: passed_def handled_def)

lemma passed_Suc:
  assumes "passed k q q'" and "k < 32"
  shows "passed (Suc k) q (acted k q')"
proof -
  have q': "q' = q\<lparr>p_pendingSignals := p_pendingSignals q', p_killed := p_killed q', p_frozen := p_frozen q'\<rparr>"
    using assms(1) unfolding passed_def by (rule conjunct1)
  have same: "p_signalHandler q' = p_signalHandler q" "p_signalMask q' = p_signalMask q"
    by (subst q', simp)+
  have "p_pendingSignals q' AND sigbit k = p_pendingSignals q AND sigbit k"
    using assms by (auto simp: passed_def handled_def)
  then have left: "left_alone q' k = left_alone q k" by (simp add: left_alone_def same)
  have conts: "resumes q' k = resumes q k" by (simp add: resumes_def same)
  have step: "handled (Suc k) q j \<longleftrightarrow> handled k q j \<or> j = k \<and> \<not> left_alone q k" for j
    by (auto simp: handled_def less_Suc_eq)
  have "q'\<lparr>p_pendingSignals := a, p_killed := b, p_frozen := d\<rparr> =
      q\<lparr>p_pendingSignals := a, p_killed := b, p_frozen := d\<rparr>" for a b d
    by (subst q') simp
  then have "acted k q' = q\<lparr>p_pendingSignals := p_pendingSignals (acted k q'), p_killed := p_killed (acted k q'),
      p_frozen := p_frozen (acted k q')\<rparr>"
    using acted_fields by metis
  moreover have "\<forall>j < 32. p_pendingSignals (acted k q') AND sigbit j =
      (if handled (Suc k) q j then 0 else p_pendingSignals q AND sigbit j)"
    using assms unfolding step by (auto simp: pending_acted left passed_def)
  moreover have "p_killed (acted k q') \<longleftrightarrow> p_killed q \<or> (\<exists>j. handled (Suc k) q j \<and> \<not> resumes q j)"
    using assms unfolding step passed_def by (auto simp: acted_def taken_def left conts)
  moreover have "p_frozen (acted k q') \<longleftrightarrow> p_frozen q \<and> \<not> (\<exists>j. handled (Suc k) q j \<and> resumes q j)"
    using assms unfolding step passed_def by (auto simp: acted_def taken_def left conts)
  ultimately show ?thesis unfolding passed_def by blast
qed

lemma fold_acted: "k \<le> 32 \<Longrightarrow> passed k q (fold acted [0..<k] q)"
  by (induction k) (simp_all add: passed_0 passed_Suc)

section \<open>Properties\<close>

text \<open>C9. Default signal handling. When the process that returns to user space is not killed and each
  of its signals that is pending and neither blocked nor ignored has a built-in action other than
  stopping, \<open>handle_signals\<close> handles all of them in one pass and changes nothing but three fields of
  the process: it is killed if one of them kills, unfrozen if one of them continues, and exactly
  the handled bits of \<open>pendingSignals\<close> are cleared. In particular a pending \<open>SIGKILL\<close> with its default
  action kills whatever the mask says.\<close>

theorem default_signals:
  assumes run: "running c p s" and user: "cs AND 3 = DPL_USER" and alive: "\<not> p_killed (ptable s p)"
    and built: "\<forall>j < 32. \<not> left_alone (ptable s p) j \<longrightarrow> built_in (ptable s p) j"
  shows "\<exists>q'. handle_signals cs s w = Done () (s\<lparr>ptable := (ptable s)(p := q')\<rparr>) w \<and>
    q' = ptable s p\<lparr>p_pendingSignals := p_pendingSignals q', p_killed := p_killed q', p_frozen := p_frozen q'\<rparr> \<and>
    (\<forall>j < 32. p_pendingSignals q' AND sigbit j =
       (if left_alone (ptable s p) j then p_pendingSignals (ptable s p) AND sigbit j else 0)) \<and>
    (p_killed q' \<longleftrightarrow> (\<exists>j < 32. \<not> left_alone (ptable s p) j \<and> kills (ptable s p) j)) \<and>
    (p_frozen q' \<longleftrightarrow> p_frozen (ptable s p) \<and> (\<forall>j < 32. resumes (ptable s p) j \<longrightarrow> left_alone (ptable s p) j)) \<and>
    (p_pendingSignals (ptable s p) AND sigbit SIGKILL \<noteq> 0 \<and> p_signalHandler (ptable s p) SIGKILL = SIG_DFL \<longrightarrow> p_killed q')"
proof -
  let ?q = "ptable s p"
  define q' where "q' = fold acted [0..<32] ?q"
  obtain r where "kfind 32 0 (handle_signal p) s w = Done r (s\<lparr>ptable := (ptable s)(p := q')\<rparr>) w"
    using handle_loop_built_in [OF run, of 0 32 w] built unfolding q'_def by auto
  then have exec: "handle_signals cs s w = Done () (s\<lparr>ptable := (ptable s)(p := q')\<rparr>) w"
    using run user alive by (simp add: handle_signals_def exec_simps)
  have "passed 32 ?q q'" unfolding q'_def by (rule fold_acted) simp
  then have p1: "q' = ?q\<lparr>p_pendingSignals := p_pendingSignals q', p_killed := p_killed q', p_frozen := p_frozen q'\<rparr>"
    and p2: "\<forall>j < 32. p_pendingSignals q' AND sigbit j = (if handled 32 ?q j then 0 else p_pendingSignals ?q AND sigbit j)"
    and p3: "p_killed q' \<longleftrightarrow> p_killed ?q \<or> (\<exists>j. handled 32 ?q j \<and> \<not> resumes ?q j)"
    and p4: "p_frozen q' \<longleftrightarrow> p_frozen ?q \<and> \<not> (\<exists>j. handled 32 ?q j \<and> resumes ?q j)"
    unfolding passed_def by blast+
  have "p_killed q' \<longleftrightarrow> (\<exists>j < 32. \<not> left_alone ?q j \<and> kills ?q j)"
    using p3 alive built by (auto simp: handled_def built_in_def kills_def)
  moreover have "p_frozen q' \<longleftrightarrow> p_frozen ?q \<and> (\<forall>j < 32. resumes ?q j \<longrightarrow> left_alone ?q j)"
    using p4 by (auto simp: handled_def)
  moreover have "\<forall>j < 32. p_pendingSignals q' AND sigbit j =
      (if left_alone ?q j then p_pendingSignals ?q AND sigbit j else 0)"
    using p2 by (simp add: handled_def)
  moreover have "\<exists>j < 32. \<not> left_alone ?q j \<and> kills ?q j"
    if "p_pendingSignals ?q AND sigbit SIGKILL \<noteq> 0 \<and> p_signalHandler ?q SIGKILL = SIG_DFL"
    using that by (intro exI [of _ SIGKILL]) (simp add: left_alone_def kills_def resumes_def)
  ultimately show ?thesis using exec p1 by blast
qed

text \<open>A process whose mask blocks everything, with \<open>SIGKILL\<close> and signal 3 pending.\<close>

theorem default_signals_witness:
  "\<exists>q'. handle_signals 0x1b (ukernel\<lparr>ptable := (ptable ukernel)(0 := ptable ukernel 0\<lparr>p_pendingSignals := 0x208,
      p_signalMask := - 1\<rparr>)\<rparr>) [] = Done () (ukernel\<lparr>ptable := (ptable ukernel)(0 := q')\<rparr>) [] \<and> p_killed q'"
proof -
  let ?q = "ptable ukernel 0\<lparr>p_pendingSignals := 0x208, p_signalMask := - 1\<rparr>"
  let ?s = "ukernel\<lparr>ptable := (ptable ukernel)(0 := ?q)\<rparr>"
  have "(0x208 :: u32) AND sigbit 9 \<noteq> 0" "(0x208 :: u32) AND sigbit 17 = 0" by (simp_all add: sigbit_def)
  then have left: "left_alone ?q j \<longleftrightarrow> j \<noteq> SIGKILL" if "j < 32" for j
    using that by (auto simp: left_alone_def)
  have h: "p_signalHandler ?q j = 0" "\<not> p_killed ?q" for j by (simp_all add: proc0_def)
  have tab: "ptable ?s 0 = ?q" by simp
  have hyps: "running 0 0 ?s" "(0x1b :: u16) AND 3 = DPL_USER" "\<not> p_killed (ptable ?s 0)"
      "\<forall>j < 32. \<not> left_alone (ptable ?s 0) j \<longrightarrow> built_in (ptable ?s 0) j"
    unfolding tab using left h by (simp_all add: built_in_def kills_def resumes_def del: proc.simps)
  have "p_pendingSignals (ptable ?s 0) AND sigbit SIGKILL \<noteq> 0 \<and> p_signalHandler (ptable ?s 0) SIGKILL = SIG_DFL"
    unfolding tab using h by (simp add: sigbit_def)
  with default_signals [OF hyps, of "[]"]
  obtain q' where "handle_signals 0x1b ?s [] = Done () (?s\<lparr>ptable := (ptable ?s)(0 := q')\<rparr>) []" "p_killed q'" by blast
  moreover have "?s\<lparr>ptable := (ptable ?s)(0 := q')\<rparr> = ukernel\<lparr>ptable := (ptable ukernel)(0 := q')\<rparr>" by simp
  ultimately show ?thesis by metis
qed

end
