(* ===== verification/Arg_Props.thy ===== *)
theory Arg_Props
  imports Sysproc Signal_Props
begin

text \<open>
  What the argument checks of \<^verbatim>\<open>syscall.c\<close> guarantee to the system calls, and what \<open>sigaction\<close>,
  which checks one byte of each structure, does with them.
\<close>

section \<open>Reading user memory\<close>

lemma vread_eq: "vread va n s w = (case vread_list (mem s) (cur_pgdir s) va n of
    Some bs \<Rightarrow> Done bs s w | None \<Rightarrow> Panic ''trap'')"
  by (simp add: vread_def split: option.split)

lemma vload32_eq: "vload32 va s w = (case vread_list (mem s) (cur_pgdir s) va 4 of
    Some bs \<Rightarrow> Done (of_le32 bs) s w | None \<Rightarrow> Panic ''trap'')"
  by (simp add: vload32_def vread_eq split: option.split)

text \<open>The word a user address holds, and whether the four bytes lie below the end of the process.\<close>

definition in_process :: "u32 \<Rightarrow> u32 \<Rightarrow> nat \<Rightarrow> bool" where
  "in_process sz a n \<longleftrightarrow> unat a + n \<le> unat sz"

lemma unat_plus_small: "unat (a :: u32) + unat b < 2 ^ 32 \<Longrightarrow> unat (a + b) = unat a + unat b"
  by (simp add: unat_add_lem [THEN iffD1])

lemma check_range:
  assumes "sz \<le> KERNBASE" and "0 \<le> sint n"
  shows "\<not> (a \<ge> sz \<or> a + n > sz) \<longleftrightarrow> unat a < unat sz \<and> in_process sz a (unat n)"
proof (cases "a < sz")
  case True
  have "unat n < 2 ^ 31" using assms(2) sint_neg_u32 [of n] by linarith
  moreover have "unat sz \<le> 2 ^ 31" using assms(1) by (simp add: word_le_nat_alt)
  ultimately have "unat (a + n) = unat a + unat n"
    using True by (intro unat_plus_small) (simp add: word_less_nat_alt)
  with True show ?thesis by (auto simp: in_process_def word_less_nat_alt word_le_nat_alt)
qed (simp add: word_less_nat_alt word_le_nat_alt not_less)

lemma fetchint_exec:
  assumes "running c p s" and "p_sz (ptable s p) \<le> KERNBASE"
  shows "fetchint a s w = (if in_process (p_sz (ptable s p)) a 4 then
      (case vread_list (mem s) (cur_pgdir s) a 4 of Some bs \<Rightarrow> Done (Some (of_le32 bs)) s w | None \<Rightarrow> Panic ''trap'')
    else Done None s w)"
proof -
  have "\<not> (a \<ge> p_sz (ptable s p) \<or> a + 4 > p_sz (ptable s p)) \<longleftrightarrow> in_process (p_sz (ptable s p)) a 4"
    using check_range [OF assms(2), of 4 a] by (auto simp: in_process_def)
  then show ?thesis using assms(1)
    by (auto simp: fetchint_def exec_simps vload32_eq split: option.split)
qed

definition arg_slot :: "proc \<Rightarrow> nat \<Rightarrow> u32" where
  "arg_slot q n = tf_esp (p_tf q) + 4 + 4 * of_nat n"

lemma argint_eq: "running c p s \<Longrightarrow> argint n s w = fetchint (arg_slot (ptable s p) n) s w"
  by (simp add: argint_def exec_simps arg_slot_def)

lemma argptr_exec:
  assumes run: "running c p s" and sz: "p_sz (ptable s p) \<le> KERNBASE"
  shows "argptr n len s w = (case argint n s w of
      Done (Some a) t v \<Rightarrow> Done (if 0 \<le> sint len \<and> unat a < unat (p_sz (ptable s p)) \<and>
         in_process (p_sz (ptable s p)) a (unat len) then Some a else None) s w
    | Done None t v \<Rightarrow> Done None s w | Panic m \<Rightarrow> Panic m | Stuck t \<Rightarrow> Stuck t)"
proof -
  let ?sz = "p_sz (ptable s p)"
  have chk: "\<not> (sint len < 0 \<or> a \<ge> ?sz \<or> a + len > ?sz) \<longleftrightarrow>
      0 \<le> sint len \<and> unat a < unat ?sz \<and> in_process ?sz a (unat len)" for a
    using check_range [OF sz, of len a] by fastforce
  show ?thesis using run
    by (auto simp: argptr_def exec_simps argint_eq fetchint_exec [OF run sz] chk [symmetric] split: option.split)
qed

lemma fetchstr_loop_string:
  "fetchstr_loop n a acc s w = Done (Some bs) t w' \<Longrightarrow>
   t = s \<and> w' = w \<and> (\<exists>xs. bs = acc @ xs \<and> 0 \<notin> set xs \<and> length xs < n \<and>
     vread_list (mem s) (cur_pgdir s) a (length xs + 1) = Some (xs @ [0]))"
proof (induction n arbitrary: a acc)
  case (Suc n)
  then obtain b pa where b: "vaddr (mem s) (cur_pgdir s) False a = Some pa" "b = mem s pa"
      "(if b = 0 then Done (Some acc) s w else fetchstr_loop n (a + 1) (acc @ [b]) s w) = Done (Some bs) t w'"
    by (auto simp: vread_eq split: option.splits if_splits)
  show ?case
  proof (cases "b = 0")
    case True
    with b show ?thesis by (intro conjI exI [of _ "[]"]) auto
  next
    case False
    with b Suc.IH [of "a + 1" "acc @ [b]"] obtain xs where "t = s" "w' = w" "bs = (acc @ [b]) @ xs" "0 \<notin> set xs"
        "length xs < n" "vread_list (mem s) (cur_pgdir s) (a + 1) (length xs + 1) = Some (xs @ [0])"
      by auto
    with False b show ?thesis by (intro conjI exI [of _ "b # xs"]) auto
  qed
qed simp

lemma fetchstr_string:
  assumes run: "running c p s" and f: "fetchstr a s w = Done (Some bs) t w'"
  shows "t = s \<and> w' = w \<and> 0 \<notin> set bs \<and> in_process (p_sz (ptable s p)) a (length bs + 1) \<and>
    vread_list (mem s) (cur_pgdir s) a (length bs + 1) = Some (bs @ [0])"
proof -
  let ?sz = "p_sz (ptable s p)"
  have a: "\<not> a \<ge> ?sz" "fetchstr_loop (unat (?sz - a)) a [] s w = Done (Some bs) t w'"
    using f run by (auto simp: fetchstr_def exec_simps split: if_splits)
  then have "unat (?sz - a) = unat ?sz - unat a" by (simp add: unat_sub)
  with a fetchstr_loop_string [OF a(2)] show ?thesis
    by (auto simp: in_process_def word_le_nat_alt)
qed

section \<open>sigaction\<close>

lemma vstore32_filled:
  assumes "filled (mem s) (cur_pgdir s) lo n xs" and "a = lo + of_nat off" and "off + 4 \<le> n"
  shows "\<exists>m'. vstore32 a v s w = Done () (s\<lparr>mem := m'\<rparr>) w \<and> filled m' (cur_pgdir s) lo n (splice off (le32 v) xs) \<and>
    wrote (mem s) (cur_pgdir s) lo n m'"
  using vwrite_filled [OF assms(1,2), of "le32 v"] assms(3) by (auto simp: vstore32_def)

lemma vload32_filled:
  assumes "filled (mem s) (cur_pgdir s) lo n xs" and "a = lo + of_nat off" and "off + 4 \<le> n"
  shows "vload32 a s w = Done (get32 xs off) s w"
  using vread_filled [OF assms(1,2), of 4 w] assms(3) by (simp add: vload32_def get32_def)

lemma slice_splice_apart:
  "i + k \<le> j \<or> j + length ys \<le> i \<Longrightarrow> j + length ys \<le> length xs \<Longrightarrow> slice i k (splice j ys xs) = slice i k xs"
  by (auto simp: slice_def splice_def min_def not_le drop_take)

definition acting :: "nat \<Rightarrow> u32 \<Rightarrow> u32 \<Rightarrow> proc \<Rightarrow> proc" where
  "acting sn h m q = q\<lparr>p_signalHandler := (p_signalHandler q)(sn := h),
     p_signalHandlerMasks := (p_signalHandlerMasks q)(sn := m)\<rparr>"

text \<open>The two structures lie apart in a stretch of user memory.\<close>

lemma sigaction_exec:
  assumes run: "running c p s" and buf: "filled (mem s) (cur_pgdir s) lo n xs"
    and act: "act = lo + of_nat i" "i + 8 \<le> n"
    and old: "oldact = lo + of_nat j" "j + 8 \<le> n" "oldact \<noteq> 0" and apart: "i + 8 \<le> j \<or> j + 8 \<le> i"
  shows "\<exists>m'. sigaction sn act oldact s w =
      Done 0 (s\<lparr>mem := m', ptable := (ptable s)(p := acting sn (get32 xs i) (get32 xs (i + 4)) (ptable s p))\<rparr>) w \<and>
    filled m' (cur_pgdir s) lo n
      (splice j (le32 (p_signalHandler (ptable s p) sn) @ le32 (p_signalHandlerMasks (ptable s p) sn)) xs) \<and>
    wrote (mem s) (cur_pgdir s) lo n m'"
proof -
  let ?q = "ptable s p" and ?d = "cur_pgdir s"
  let ?xs1 = "splice j (le32 (p_signalHandler ?q sn)) xs"
  let ?xs2 = "splice (j + 4) (le32 (p_signalHandlerMasks ?q sn)) ?xs1"
  have len: "length xs = n" using buf by (rule filled_length)
  obtain m1 where m1: "vstore32 oldact (p_signalHandler ?q sn) s w = Done () (s\<lparr>mem := m1\<rparr>) w"
      "filled m1 ?d lo n ?xs1" "wrote (mem s) ?d lo n m1"
    using vstore32_filled [OF buf old(1)] old(2) by auto
  have "filled (mem (s\<lparr>mem := m1\<rparr>)) (cur_pgdir (s\<lparr>mem := m1\<rparr>)) lo n ?xs1" "oldact + 4 = lo + of_nat (j + 4)"
    using m1(2) old(1) by (simp_all add: ac_simps)
  from vstore32_filled [OF this, of "p_signalHandlerMasks ?q sn" w] old(2)
  obtain m2 where m2: "vstore32 (oldact + 4) (p_signalHandlerMasks ?q sn) (s\<lparr>mem := m1\<rparr>) w = Done () (s\<lparr>mem := m2\<rparr>) w"
      "filled m2 ?d lo n ?xs2" "wrote m1 ?d lo n m2"
    by auto
  have same: "get32 ?xs2 i = get32 xs i" "get32 ?xs2 (i + 4) = get32 xs (i + 4)"
    using apart act(2) old(2) len by (auto simp: get32_def slice_splice_apart length_splice)
  have load: "vload32 act (s\<lparr>mem := m2, ptable := pt\<rparr>) w = Done (get32 xs i) (s\<lparr>mem := m2, ptable := pt\<rparr>) w"
    "vload32 (act + 4) (s\<lparr>mem := m2, ptable := pt\<rparr>) w = Done (get32 xs (i + 4)) (s\<lparr>mem := m2, ptable := pt\<rparr>) w" for pt
    using vload32_filled [of "s\<lparr>mem := m2, ptable := pt\<rparr>" lo n ?xs2 act i w]
      vload32_filled [of "s\<lparr>mem := m2, ptable := pt\<rparr>" lo n ?xs2 "act + 4" "i + 4" w] m2(2) act same
    by (simp_all add: ac_simps)
  have "sigaction sn act oldact s w =
      Done 0 (s\<lparr>mem := m2, ptable := (ptable s)(p := acting sn (get32 xs i) (get32 xs (i + 4)) ?q)\<rparr>) w"
    using run old(3) m1(1) m2(1) load [of "ptable s"] load
    by (simp add: sigaction_def exec_simps acting_def)
  moreover have "?xs2 = splice j (le32 (p_signalHandler ?q sn) @ le32 (p_signalHandlerMasks ?q sn)) xs"
    using old(2) len by (simp add: splice_def ac_simps)
  ultimately show ?thesis using m2(2) wrote_trans [OF m1(3) m2(3)] by auto
qed

section \<open>Properties\<close>

text \<open>C20. The argument checks. For a process below \<open>KERNBASE\<close>, an argument whose stack slot is not inside
  the process is refused without a fault. A pointer that \<open>argptr\<close> accepts with a length starts
  inside the process and ends inside it, the addition not wrapping around; a string that \<open>argstr\<close>
  accepts is NUL-terminated inside the process, and what the kernel gets are its bytes. None of
  them changes the kernel.\<close>

theorem user_arguments:
  assumes run: "running c p s" and sz: "p_sz (ptable s p) \<le> KERNBASE"
  shows "(\<not> in_process (p_sz (ptable s p)) (arg_slot (ptable s p) n) 4 \<longrightarrow>
      argint n s w = Done None s w \<and> argptr n len s w = Done None s w \<and> argstr n s w = Done None s w) \<and>
    (argptr n len s w = Done (Some a) t w' \<longrightarrow>
      t = s \<and> w' = w \<and> argint n s w = Done (Some a) s w \<and> 0 \<le> sint len \<and> in_process (p_sz (ptable s p)) a (unat len)) \<and>
    (argstr n s w = Done (Some bs) t w' \<longrightarrow>
      t = s \<and> w' = w \<and> 0 \<notin> set bs \<and> (\<exists>a. argint n s w = Done (Some a) s w \<and>
        in_process (p_sz (ptable s p)) a (length bs + 1) \<and>
        vread_list (mem s) (cur_pgdir s) a (length bs + 1) = Some (bs @ [0])))"
proof (intro conjI impI)
  assume "\<not> in_process (p_sz (ptable s p)) (arg_slot (ptable s p) n) 4"
  then have *: "argint n s w = Done None s w" by (simp add: argint_eq [OF run] fetchint_exec [OF run sz])
  then show "argint n s w = Done None s w" "argptr n len s w = Done None s w" "argstr n s w = Done None s w"
    by (simp_all add: argptr_exec [OF run sz] argstr_def)
next
  assume "argptr n len s w = Done (Some a) t w'"
  then show "t = s" "w' = w" "argint n s w = Done (Some a) s w" "0 \<le> sint len" "in_process (p_sz (ptable s p)) a (unat len)"
    by (auto simp: argptr_exec [OF run sz] argint_eq [OF run] fetchint_exec [OF run sz]
        split: outcome.splits option.splits if_splits)
next
  assume "argstr n s w = Done (Some bs) t w'"
  then obtain a where "argint n s w = Done (Some a) s w" "fetchstr a s w = Done (Some bs) t w'"
    by (auto simp: argstr_def argint_eq [OF run] fetchint_exec [OF run sz] split: option.splits if_splits)
  with fetchstr_string [OF run this(2)]
  show "t = s" "w' = w" "0 \<notin> set bs" "\<exists>a. argint n s w = Done (Some a) s w \<and>
        in_process (p_sz (ptable s p)) a (length bs + 1) \<and>
        vread_list (mem s) (cur_pgdir s) a (length bs + 1) = Some (bs @ [0])"
    by auto
qed

text \<open>A stack pointer two bytes below the end of the process: its second argument is refused.\<close>

theorem user_arguments_witness:
  "argptr 1 4 (ukernel\<lparr>ptable := (ptable ukernel)(0 := ptable ukernel 0\<lparr>p_tf := (p_tf proc0)\<lparr>tf_esp := 4094\<rparr>\<rparr>)\<rparr>) [] =
   Done None (ukernel\<lparr>ptable := (ptable ukernel)(0 := ptable ukernel 0\<lparr>p_tf := (p_tf proc0)\<lparr>tf_esp := 4094\<rparr>\<rparr>)\<rparr>) []"
proof -
  let ?s = "ukernel\<lparr>ptable := (ptable ukernel)(0 := ptable ukernel 0\<lparr>p_tf := (p_tf proc0)\<lparr>tf_esp := 4094\<rparr>\<rparr>)\<rparr>"
  have "running 0 0 ?s" "p_sz (ptable ?s 0) \<le> KERNBASE" "\<not> in_process (p_sz (ptable ?s 0)) (arg_slot (ptable ?s 0) 1) 4"
    by (simp_all add: in_process_def arg_slot_def)
  with user_arguments [OF this(1,2), of 1 "[]" 4 0 ?s "[]" "[]"] show ?thesis by blast
qed


lemma sys_sigaction_args:
  assumes run: "running c p s" and sz: "p_sz (ptable s p) \<le> KERNBASE"
    and args: "argint 0 s w = Done (Some sn) s w" "argint 1 s w = Done (Some act) s w" "argint 2 s w = Done (Some oldact) s w"
    and ok: "unat sn < 32" "unat sn \<noteq> SIGKILL" "unat sn \<noteq> SIGSTOP"
    and chk: "in_process (p_sz (ptable s p)) act 1" "in_process (p_sz (ptable s p)) oldact 1"
  shows "sys_sigaction s w = sigaction (unat sn) act oldact s w"
proof -
  have "unat sn < 2 ^ 31" using ok(1) by simp
  then have "sint sn = int (unat sn)" unfolding sint_u32 by (simp only: if_True)
  then have sn: "0 \<le> sint sn" "sint sn < 32" using ok(1) by linarith+
  have "argptr 1 1 s w = Done (Some act) s w" "argptr 2 1 s w = Done (Some oldact) s w"
    using args(2,3) chk by (simp_all add: argptr_exec [OF run sz] in_process_def)
  moreover have "\<not> (sn = of_nat SIGKILL \<or> sn = of_nat SIGSTOP \<or> sint sn < 0 \<or> sint sn \<ge> int SIGNAL_HANDLERS_SIZE)"
    using ok sn by auto
  ultimately show ?thesis using args(1) by (simp add: sys_sigaction_def)
qed

lemma sys_sigaction_refused:
  assumes "argint 0 s w = Done (Some sn) s w" and "unat sn = SIGKILL \<or> unat sn = SIGSTOP \<or> \<not> unat sn < 32"
  shows "sys_sigaction s w = Done minus1 s w"
proof -
  have "sn = of_nat SIGKILL \<or> sn = of_nat SIGSTOP \<or> sint sn < 0 \<or> sint sn \<ge> int SIGNAL_HANDLERS_SIZE"
  proof (cases "unat sn < 2 ^ 31")
    case True
    then have "sint sn = int (unat sn)" unfolding sint_u32 by (simp only: if_True)
    moreover have "unat sn = 9 \<longrightarrow> sn = of_nat 9" "unat sn = 17 \<longrightarrow> sn = of_nat 17" by (simp_all add: word_unat_eq_iff)
    ultimately show ?thesis using assms(2) by linarith
  next
    case False
    then show ?thesis using sint_neg_u32 [of sn] by simp
  qed
  then show ?thesis using assms(1) by (simp add: sys_sigaction_def)
qed


text \<open>C22. The length passed to \<open>argptr\<close> is \<open>sizeof(*sigaction)\<close>, the size of a function, which is 1: only the
  first byte of \<open>act\<close> is checked. A process that passes its last byte, with nothing mapped behind
  it, makes the kernel fault while it reads the structure, and a fault in the kernel is a panic.\<close>

theorem sigaction_panics:
  assumes run: "running c p s" and sz: "p_sz (ptable s p) \<le> KERNBASE"
    and args: "argint 0 s w = Done (Some sn) s w" "argint 1 s w = Done (Some act) s w" "argint 2 s w = Done (Some 0) s w"
    and ok: "unat sn < 32" "unat sn \<noteq> SIGKILL" "unat sn \<noteq> SIGSTOP"
    and last: "unat act + 1 = unat (p_sz (ptable s p))" "vaddr (mem s) (cur_pgdir s) False (act + 1) = None"
  shows "sys_sigaction s w = Panic ''trap''"
proof -
  have chk: "in_process (p_sz (ptable s p)) act 1" "in_process (p_sz (ptable s p)) 0 1"
    using last(1) by (simp_all add: in_process_def)
  have "vread_list (mem s) (cur_pgdir s) act 4 = None"
    using last(2) by (simp add: numeral_eq_Suc split: option.split)
  then show ?thesis using run sys_sigaction_args [OF run sz args ok chk]
    by (simp add: sigaction_def exec_simps vload32_eq)
qed

text \<open>A process of one page that calls \<open>sigaction(b, 4095, 0)\<close>.\<close>

definition sa_kernel :: "u8 \<Rightarrow> kernel" where
  "sa_kernel b = ukernel\<lparr>mem := umem(0x80202004 := b, 0x80202008 := 0xFF, 0x80202009 := 0x0F)\<rparr>"

lemma sa_kernel_sel [simp]:
  "running 0 0 (sa_kernel b)" "ptable (sa_kernel b) = ptable ukernel" "cur_pgdir (sa_kernel b) = 0x80200000"
  by (simp_all add: sa_kernel_def)

lemma sa_mem: "mem (sa_kernel b) = umem(0x80202004 := b, 0x80202008 := 0xFF, 0x80202009 := 0x0F)"
  by (simp add: sa_kernel_def)

lemma vread_list_4:
  "vread_list m d va 4 = (case vread_list m d (va + 1) 3 of None \<Rightarrow> None | Some bs \<Rightarrow>
     map_option (\<lambda>a. m a # bs) (vaddr m d False va))"
  "vread_list m d va 3 = (case vread_list m d (va + 1) 2 of None \<Rightarrow> None | Some bs \<Rightarrow>
     map_option (\<lambda>a. m a # bs) (vaddr m d False va))"
  "vread_list m d va 2 = (case vread_list m d (va + 1) 1 of None \<Rightarrow> None | Some bs \<Rightarrow>
     map_option (\<lambda>a. m a # bs) (vaddr m d False va))"
  by (simp_all add: eval_nat_numeral split: option.split)

lemma sa_tables:
  "load32 (mem (sa_kernel b)) 0x80200000 = 0x201007" "load32 (mem (sa_kernel b)) 0x80201000 = 0x202007"
  "load32 (mem (sa_kernel b)) 0x80201004 = 0"
  by (simp_all add: sa_mem load32_def read_bytes_def umem_def upt_rec of_le32_def del: fun_upd_same_val)

lemma sa_walk: "vaddr (mem (sa_kernel b)) 0x80200000 False va = Some (0x80202000 + va)"
  if "va \<in> {4, 5, 6, 7, 8, 9, 10, 11, 12, 13, 14, 15}"
proof -
  have "pde_addr 0x80200000 va = 0x80200000" "PTX va = 0" "va AND 0xFFF = va" "\<not> KERNBASE \<le> va"
    using that by (auto simp: pde_addr_def PDX_def PTX_def)
  moreover from this have "pte_addr (mem (sa_kernel b)) 0x80200000 va = 0x80201000"
    by (simp add: pte_addr_def sa_tables PTE_ADDR_def P2V_def)
  ultimately show ?thesis
    by (simp add: vaddr_def lookup_def sa_tables PTE_ADDR_def P2V_def)
qed

lemma sa_args:
  "argint 0 (sa_kernel b) w = Done (Some (ucast b)) (sa_kernel b) w"
  "argint 1 (sa_kernel b) w = Done (Some 4095) (sa_kernel b) w"
  "argint 2 (sa_kernel b) w = Done (Some 0) (sa_kernel b) w"
proof -
  have sz: "p_sz (ptable (sa_kernel b) 0) \<le> KERNBASE" by simp
  have slot: "arg_slot (ptable (sa_kernel b) 0) n = 4 + 4 * of_nat n" for n by (simp add: arg_slot_def proc0_def trapframe0_def)
  show "argint 0 (sa_kernel b) w = Done (Some (ucast b)) (sa_kernel b) w"
    "argint 1 (sa_kernel b) w = Done (Some 4095) (sa_kernel b) w"
    "argint 2 (sa_kernel b) w = Done (Some 0) (sa_kernel b) w"
    unfolding argint_eq [OF sa_kernel_sel(1)] fetchint_exec [OF sa_kernel_sel(1) sz] slot sa_kernel_sel(3)
    by (simp_all add: vread_list_4 in_process_def sa_walk) (simp_all add: sa_mem umem_def of_le32_def del: fun_upd_same_val)
qed

theorem sigaction_panics_witness: "sys_sigaction (sa_kernel 5) [] = Panic ''trap''"
proof -
  have "vaddr (mem (sa_kernel 5)) (cur_pgdir (sa_kernel 5)) False 4096 = None"
    by (simp add: vaddr_def lookup_def pde_addr_def pte_addr_def PDX_def PTX_def sa_tables PTE_ADDR_def P2V_def
       )
  then show ?thesis using sa_args [of 5 "[]"] by (intro sigaction_panics [of 0 0 _ _ 5 4095]) simp_all
qed


end
