(* ===== verification/File_Props.thy ===== *)
theory File_Props
  imports Sysfile Arg_Props
begin

text \<open>
  Reference counts of open files (\<^verbatim>\<open>file.c\<close>, \<^verbatim>\<open>sysfile.c\<close>): the count of a file is the number of
  descriptors that name it, and \<open>dup\<close> and \<open>close\<close> keep it so.
\<close>

section \<open>The invariant\<close>

definition holders :: "(nat \<Rightarrow> proc) \<Rightarrow> nat \<Rightarrow> (nat \<times> nat) set" where
  "holders pt f = {(p, fd). p < NPROC \<and> fd < NOFILE \<and> p_ofile (pt p) fd = Some f}"

definition refs_ok :: "kernel \<Rightarrow> bool" where
  "refs_ok s \<longleftrightarrow>
     (\<forall>f < NFILE. f_ref (ftable s f) = int (card (holders (ptable s) f))) \<and>
     (\<forall>p < NPROC. \<forall>fd < NOFILE. \<forall>f. p_ofile (ptable s p) fd = Some f \<longrightarrow> f < NFILE)"

lemma finite_holders [simp]: "finite (holders pt f)"
  by (rule finite_subset [of _ "{..<NPROC} \<times> {..<NOFILE}"]) (auto simp: holders_def)

definition set_fd :: "nat \<Rightarrow> nat option \<Rightarrow> proc \<Rightarrow> proc" where
  "set_fd fd v q = q\<lparr>p_ofile := (p_ofile q)(fd := v)\<rparr>"

lemma holders_add:
  assumes "p < NPROC" and "fd < NOFILE" and "p_ofile (pt p) fd = None"
  shows "card (holders (pt(p := set_fd fd (Some f) (pt p))) g) = (if g = f then Suc (card (holders pt g)) else card (holders pt g))"
proof -
  have "holders (pt(p := set_fd fd (Some f) (pt p))) g = (if g = f then insert (p, fd) (holders pt g) else holders pt g)"
    using assms by (auto simp: holders_def set_fd_def split: if_splits)
  moreover have "(p, fd) \<notin> holders pt g" using assms by (auto simp: holders_def)
  ultimately show ?thesis by (cases "g = f") simp_all
qed

lemma holders_remove:
  assumes "p < NPROC" and "fd < NOFILE" and "p_ofile (pt p) fd = Some f"
  shows "card (holders pt g) = (if g = f then Suc (card (holders (pt(p := set_fd fd None (pt p))) g))
    else card (holders (pt(p := set_fd fd None (pt p))) g))"
proof -
  let ?pt = "pt(p := set_fd fd None (pt p))"
  have "holders pt g = (if g = f then insert (p, fd) (holders ?pt g) else holders ?pt g)"
    using assms by (auto simp: holders_def set_fd_def split: if_splits)
  moreover have "(p, fd) \<notin> holders ?pt g" by (auto simp: holders_def set_fd_def)
  ultimately show ?thesis by (cases "g = f") simp_all
qed

section \<open>dup and close\<close>

lemma upd_file_app: "upd_file f g s w = Done () (s\<lparr>ftable := (ftable s)(f := g (ftable s f))\<rparr>) w"
  by (simp add: upd_file_def)

text \<open>Leaving the critical section of the file table.\<close>

lemma release_ftable:
  assumes "cli_ok c s" and "lock_free L_ftable s"
  shows "release L_ftable ((with_lock c L_ftable s)\<lparr>ftable := ft\<rparr>) w = Done () (s\<lparr>ftable := ft\<rparr>) w"
proof -
  let ?t = "(with_lock c L_ftable s)\<lparr>ftable := ft\<rparr>"
  have "release L_ftable ?t w = Done () (?t\<lparr>locks := locks s, eflags_if := eflags_if s, cpus := cpus s\<rparr>) w"
    using assms by (intro release_ok) (simp_all add: cli_okD)
  moreover have "?t\<lparr>locks := locks s, eflags_if := eflags_if s, cpus := cpus s\<rparr> = s\<lparr>ftable := ft\<rparr>"
    by (simp add: with_lock_def kernel_order)
  ultimately show ?thesis by simp
qed

lemma filedup_exec:
  assumes "cli_ok c s" and "lock_free L_ftable s" and "1 \<le> f_ref (ftable s f)"
  shows "filedup f s w = Done f (s\<lparr>ftable := (ftable s)(f := ftable s f\<lparr>f_ref := f_ref (ftable s f) + 1\<rparr>)\<rparr>) w"
proof -
  have sel: "ftable (with_lock c L_ftable s) = ftable s" by (simp add: with_lock_def)
  have "filedup f s w = kseq (release L_ftable) (kret f)
      ((with_lock c L_ftable s)\<lparr>ftable := (ftable s)(f := ftable s f\<lparr>f_ref := f_ref (ftable s f) + 1\<rparr>)\<rparr>) w"
    using assms(3) acquire_ok [OF assms(1,2)] by (simp add: filedup_def upd_file_app sel)
  then show ?thesis using release_ftable [OF assms(1,2)] by simp
qed

text \<open>What \<open>fileclose\<close> still has to do once the table is in order.\<close>

definition let_go :: "ofile \<Rightarrow> unit K" where
  "let_go ff = (case f_type ff of
     FD_PIPE \<Rightarrow> pipeclose (f_pipe ff) (f_writable ff)
   | FD_INODE \<Rightarrow> kseq begin_op (kseq (iput (f_ip ff)) end_op)
   | FD_NONE \<Rightarrow> kret ())"

lemma let_go_ref [simp]: "let_go (q\<lparr>f_ref := x\<rparr>) = let_go q"
  by (cases "f_type q") (simp_all add: let_go_def)

lemma fileclose_exec:
  assumes "cli_ok c s" and "lock_free L_ftable s" and "1 \<le> f_ref (ftable s f)"
  shows "1 < f_ref (ftable s f) \<Longrightarrow>
      fileclose f s w = Done () (s\<lparr>ftable := (ftable s)(f := ftable s f\<lparr>f_ref := f_ref (ftable s f) - 1\<rparr>)\<rparr>) w"
    and "f_ref (ftable s f) = 1 \<Longrightarrow>
      fileclose f s w = let_go (ftable s f) (s\<lparr>ftable := (ftable s)(f := ftable s f\<lparr>f_ref := 0, f_type := FD_NONE\<rparr>)\<rparr>) w"
proof -
  let ?t = "with_lock c L_ftable s"
  have sel: "ftable ?t = ftable s" by (simp add: with_lock_def)
  show "fileclose f s w = Done () (s\<lparr>ftable := (ftable s)(f := ftable s f\<lparr>f_ref := f_ref (ftable s f) - 1\<rparr>)\<rparr>) w"
    if "1 < f_ref (ftable s f)"
    using that acquire_ok [OF assms(1,2)] release_ftable [OF assms(1,2)]
    by (simp add: fileclose_def upd_file_app sel)
  assume one: "f_ref (ftable s f) = 1"
  let ?ft = "(ftable s)(f := ftable s f\<lparr>f_ref := 0, f_type := FD_NONE\<rparr>)"
  have "fileclose f s w = let_go (ftable s f\<lparr>f_ref := 0\<rparr>) (s\<lparr>ftable := ?ft\<rparr>) w"
    unfolding fileclose_def let_go_def [symmetric]
    using one acquire_ok [OF assms(1,2)] release_ftable [OF assms(1,2)] by (simp add: upd_file_app sel)
  then show "fileclose f s w = let_go (ftable s f) (s\<lparr>ftable := ?ft\<rparr>) w" by simp
qed


section \<open>Properties\<close>

lemma argint_same:
  "running c p s \<Longrightarrow> argint n s w = Done r t w' \<Longrightarrow> t = s \<and> w' = w"
  by (auto simp: argint_eq fetchint_def exec_simps vload32_eq split: if_splits option.splits)

lemma argfd_open:
  assumes run: "running c p s" and arg: "argfd 0 s w = Done (Some (fd, f)) t w'"
  shows "t = s \<and> w' = w \<and> fd < NOFILE \<and> p_ofile (ptable s p) fd = Some f"
proof -
  obtain v where v: "argint 0 s w = Done (Some v) s w" "\<not> (sint v < 0 \<or> sint v \<ge> int NOFILE)"
    using arg argint_same [OF run] by (fastforce simp: argfd_def split: outcome.splits option.splits if_splits)
  have "unat v < NOFILE"
  proof -
    have "int (unat v) = sint v" using v(2) sint_neg_u32 [of v] unfolding sint_u32 by auto
    then show ?thesis using v(2) by linarith
  qed
  then show ?thesis using v arg run by (auto simp: argfd_def exec_simps split: option.splits)
qed

lemma find_free_fd: "find P [0..<n] = Some i \<Longrightarrow> i < n \<and> P i"
  by (auto simp: find_Some_iff)

lemma refs_okI:
  assumes "\<And>g. g < NFILE \<Longrightarrow> f_ref (ft g) = int (card (holders pt g))"
    and "\<And>p fd g. p < NPROC \<Longrightarrow> fd < NOFILE \<Longrightarrow> p_ofile (pt p) fd = Some g \<Longrightarrow> g < NFILE"
  shows "refs_ok (s\<lparr>ptable := pt, ftable := ft\<rparr>)"
  using assms by (simp add: refs_ok_def)

lemma refs_okD:
  assumes "refs_ok s"
  shows "g < NFILE \<Longrightarrow> f_ref (ftable s g) = int (card (holders (ptable s) g))"
    and "p < NPROC \<Longrightarrow> fd < NOFILE \<Longrightarrow> p_ofile (ptable s p) fd = Some g \<Longrightarrow> g < NFILE"
  using assms by (auto simp: refs_ok_def)

lemma refs_ok_dup:
  assumes "refs_ok s" and "p < NPROC" and "n < NOFILE" and "p_ofile (ptable s p) n = None" and "f < NFILE"
  shows "refs_ok (s\<lparr>ptable := (ptable s)(p := set_fd n (Some f) (ptable s p)),
    ftable := (ftable s)(f := ftable s f\<lparr>f_ref := f_ref (ftable s f) + 1\<rparr>)\<rparr>)"
proof (rule refs_okI)
  fix g assume "g < NFILE"
  then show "f_ref (((ftable s)(f := ftable s f\<lparr>f_ref := f_ref (ftable s f) + 1\<rparr>)) g) =
      int (card (holders ((ptable s)(p := set_fd n (Some f) (ptable s p))) g))"
    using holders_add [where pt = "ptable s", OF assms(2-4), of f g] refs_okD(1) [OF assms(1), of g] by (cases "g = f") simp_all
next
  fix p' fd g assume "p' < NPROC" "fd < NOFILE" "p_ofile (((ptable s)(p := set_fd n (Some f) (ptable s p))) p') fd = Some g"
  then show "g < NFILE" using refs_okD(2) [OF assms(1), of p' fd g] assms(5) by (simp add: set_fd_def split: if_splits)
qed

lemma refs_ok_close:
  assumes "refs_ok s" and "p < NPROC" and "fd < NOFILE" and "p_ofile (ptable s p) fd = Some f"
    and "f_ref q = f_ref (ftable s f) - 1"
  shows "refs_ok (s\<lparr>ptable := (ptable s)(p := set_fd fd None (ptable s p)), ftable := (ftable s)(f := q)\<rparr>)"
proof (rule refs_okI)
  fix g assume "g < NFILE"
  then show "f_ref (((ftable s)(f := q)) g) = int (card (holders ((ptable s)(p := set_fd fd None (ptable s p))) g))"
    using holders_remove [where pt = "ptable s", OF assms(2-4), of g] refs_okD(1) [OF assms(1), of g] assms(5) by (cases "g = f") simp_all
next
  fix p' d g assume "p' < NPROC" "d < NOFILE" "p_ofile (((ptable s)(p := set_fd fd None (ptable s p))) p') d = Some g"
  then show "g < NFILE" using refs_okD(2) [OF assms(1), of p' d g] by (simp add: set_fd_def split: if_splits)
qed

lemma refs_ok_ref:
  assumes "refs_ok s" and "p < NPROC" and "fd < NOFILE" and "p_ofile (ptable s p) fd = Some f"
  shows "f < NFILE" and "1 \<le> f_ref (ftable s f)"
proof -
  show f: "f < NFILE" using assms by (auto simp: refs_ok_def)
  have "(p, fd) \<in> holders (ptable s) f" using assms by (simp add: holders_def)
  then have "0 < card (holders (ptable s) f)" by (auto simp: card_gt_0_iff)
  then show "1 \<le> f_ref (ftable s f)" using assms(1) f by (simp add: refs_ok_def)
qed

text \<open>C23. Reference counts. As long as the count of every open file is the number of descriptors, in all
  processes, that name it: \<open>dup\<close> of an open descriptor finds a file with a positive count, and
  either fails with -1 when the process has no free descriptor, changing nothing, or returns a
  descriptor that was free, now naming the same file. \<open>close\<close> of a descriptor only counts down while
  other descriptors name the file; for the last one it frees the table entry first and then lets
  the pipe or inode go. The counts stay right in every case.\<close>

theorem fd_references:
  assumes run: "running c p s" "p < NPROC" and lock: "lock_free L_ftable s" and refs: "refs_ok s"
    and arg: "argfd 0 s w = Done (Some (fd, f)) t w'"
  shows "1 \<le> f_ref (ftable s f) \<and>
    (sys_dup s w = Done minus1 s w \<and> (\<forall>n < NOFILE. p_ofile (ptable s p) n \<noteq> None) \<or>
     (\<exists>n s'. sys_dup s w = Done (of_nat n) s' w \<and> n < NOFILE \<and> p_ofile (ptable s p) n = None \<and>
        s' = s\<lparr>ptable := (ptable s)(p := set_fd n (Some f) (ptable s p)),
          ftable := (ftable s)(f := ftable s f\<lparr>f_ref := f_ref (ftable s f) + 1\<rparr>)\<rparr> \<and> refs_ok s')) \<and>
    (\<exists>s'. refs_ok s' \<and> ptable s' = (ptable s)(p := set_fd fd None (ptable s p)) \<and>
       (if 1 < f_ref (ftable s f) then sys_close s w = Done 0 s' w
        else f_type (ftable s' f) = FD_NONE \<and> sys_close s w = kseq (let_go (ftable s f)) (kret 0) s' w))"
proof (intro conjI)
  let ?q = "ptable s p"
  have fd: "t = s" "w' = w" "fd < NOFILE" "p_ofile ?q fd = Some f" using argfd_open [OF run(1) arg] by auto
  have f: "f < NFILE" "1 \<le> f_ref (ftable s f)" using refs_ok_ref [OF refs run(2) fd(3,4)] by auto
  have cli: "cli_ok c s" using run(1) by (simp add: running_def)
  show "1 \<le> f_ref (ftable s f)" by (rule f(2))
  show "sys_dup s w = Done minus1 s w \<and> (\<forall>n < NOFILE. p_ofile ?q n \<noteq> None) \<or>
     (\<exists>n s'. sys_dup s w = Done (of_nat n) s' w \<and> n < NOFILE \<and> p_ofile ?q n = None \<and>
        s' = s\<lparr>ptable := (ptable s)(p := set_fd n (Some f) ?q),
          ftable := (ftable s)(f := ftable s f\<lparr>f_ref := f_ref (ftable s f) + 1\<rparr>)\<rparr> \<and> refs_ok s')"
  proof (cases "find (\<lambda>n. p_ofile ?q n = None) [0..<NOFILE]")
    case None
    then have "sys_dup s w = Done minus1 s w" using run(1) arg fd(1,2) by (simp add: sys_dup_def fdalloc_def exec_simps)
    with None show ?thesis by (auto simp: find_None_iff)
  next
    case (Some n)
    let ?s = "s\<lparr>ptable := (ptable s)(p := set_fd n (Some f) ?q)\<rparr>"
    have n: "n < NOFILE" "p_ofile ?q n = None" using find_free_fd [OF Some] by auto
    have "filedup f ?s w = Done f (?s\<lparr>ftable := (ftable ?s)(f := ftable ?s f\<lparr>f_ref := f_ref (ftable ?s f) + 1\<rparr>)\<rparr>) w"
      using cli lock f(2) by (intro filedup_exec [of c]) (simp_all add: lock_free_def)
    then have "sys_dup s w = Done (of_nat n) (?s\<lparr>ftable := (ftable s)(f := ftable s f\<lparr>f_ref := f_ref (ftable s f) + 1\<rparr>)\<rparr>) w"
      using Some run(1) arg fd(1,2) by (simp add: sys_dup_def fdalloc_def exec_simps set_fd_def)
    then show ?thesis using n refs_ok_dup [OF refs run(2) n f(1)] by blast
  qed
  let ?s = "s\<lparr>ptable := (ptable s)(p := set_fd fd None ?q)\<rparr>"
  have close: "sys_close s w = kseq (fileclose f) (kret 0) ?s w"
    using run(1) arg fd(1,2) by (simp add: sys_close_def exec_simps set_fd_def)
  have s: "cli_ok c ?s" "lock_free L_ftable ?s" "1 \<le> f_ref (ftable ?s f)" using cli lock f(2) by (simp_all add: lock_free_def)
  show "\<exists>s'. refs_ok s' \<and> ptable s' = (ptable s)(p := set_fd fd None ?q) \<and>
       (if 1 < f_ref (ftable s f) then sys_close s w = Done 0 s' w
        else f_type (ftable s' f) = FD_NONE \<and> sys_close s w = kseq (let_go (ftable s f)) (kret 0) s' w)"
  proof (cases "1 < f_ref (ftable s f)")
    case True
    let ?r = "ftable s f\<lparr>f_ref := f_ref (ftable s f) - 1\<rparr>"
    show ?thesis using fileclose_exec(1) [OF s] close True refs_ok_close [OF refs run(2) fd(3,4), of ?r]
      by (intro exI [of _ "?s\<lparr>ftable := (ftable s)(f := ?r)\<rparr>"]) simp
  next
    case False
    let ?r = "ftable s f\<lparr>f_ref := 0, f_type := FD_NONE\<rparr>"
    have one: "f_ref (ftable s f) = 1" using False f(2) by simp
    then show ?thesis using fileclose_exec(2) [OF s] close False refs_ok_close [OF refs run(2) fd(3,4), of ?r]
      by (intro exI [of _ "?s\<lparr>ftable := (ftable s)(f := ?r)\<rparr>"]) simp
  qed
qed

text \<open>A process with one open descriptor that calls \<open>dup(0)\<close>.\<close>

definition fd_kernel :: kernel where
  "fd_kernel = (sa_kernel 0)\<lparr>ptable := (ptable ukernel)(0 := set_fd 0 (Some 0) (ptable ukernel 0)),
     ftable := (ftable ukernel)(0 := ftable ukernel 0\<lparr>f_ref := 1\<rparr>)\<rparr>"

lemma fd_kernel_argfd: "running 0 0 fd_kernel" "lock_free L_ftable fd_kernel" "argfd 0 fd_kernel [] = Done (Some (0, 0)) fd_kernel []"
proof -
  show run: "running 0 0 fd_kernel" by (simp add: fd_kernel_def)
  show "lock_free L_ftable fd_kernel" by (simp add: fd_kernel_def sa_kernel_def)
  have sz: "p_sz (ptable fd_kernel 0) \<le> KERNBASE" by (simp add: fd_kernel_def set_fd_def)
  have "arg_slot (ptable fd_kernel 0) 0 = 4" by (simp add: fd_kernel_def set_fd_def arg_slot_def proc0_def trapframe0_def)
  moreover have "cpu_index fd_kernel = Some 0" using run by (auto simp: running_def dest: cli_okD)
  then have "cur_pgdir fd_kernel = 0x80200000"
    by (simp add: cur_pgdir_def) (simp add: fd_kernel_def sa_kernel_def P2V_def)
  moreover have "mem fd_kernel = mem (sa_kernel 0)" "p_sz (ptable fd_kernel 0) = 4096"
    by (simp_all add: fd_kernel_def set_fd_def)
  moreover have "vread_list (mem (sa_kernel 0)) 0x80200000 4 4 = Some [0, 0, 0, 0]"
    by (simp add: vread_list_4 sa_walk) (simp add: sa_mem umem_def del: fun_upd_same_val)
  ultimately have "argint 0 fd_kernel [] = Done (Some 0) fd_kernel []"
    by (simp add: argint_eq [OF run] fetchint_exec [OF run sz] in_process_def of_le32_def)
  then show "argfd 0 fd_kernel [] = Done (Some (0, 0)) fd_kernel []"
    using run by (simp add: argfd_def exec_simps) (simp add: fd_kernel_def set_fd_def)
qed

lemma fd_kernel_ofile: "p_ofile (ptable fd_kernel p) n = (if p = 0 \<and> n = 0 then Some 0 else None)"
  by (simp add: fd_kernel_def set_fd_def proc0_def)

lemma fd_kernel_refs: "refs_ok fd_kernel"
proof -
  have "holders (ptable fd_kernel) f = (if f = 0 then {(0, 0)} else {})" for f
    by (auto simp: holders_def fd_kernel_ofile split: if_splits)
  moreover have "f_ref (ftable fd_kernel f) = (if f = 0 then 1 else 0)" for f
    by (simp add: fd_kernel_def ukernel_def ofile0_def)
  ultimately show ?thesis by (auto simp: refs_ok_def fd_kernel_ofile)
qed

theorem fd_references_witness: "\<exists>n s'. sys_dup fd_kernel [] = Done (of_nat n) s' [] \<and> n \<noteq> 0 \<and> refs_ok s'"
proof -
  have free: "p_ofile (ptable fd_kernel 0) n = None \<longleftrightarrow> n \<noteq> 0" for n by (simp add: fd_kernel_ofile)
  have "\<exists>n < NOFILE. p_ofile (ptable fd_kernel 0) n = None" using free by (intro exI [of _ 1]) simp
  with fd_references [OF fd_kernel_argfd(1) _ fd_kernel_argfd(2) fd_kernel_refs fd_kernel_argfd(3)]
  obtain n s' where "sys_dup fd_kernel [] = Done (of_nat n) s' []" "p_ofile (ptable fd_kernel 0) n = None" "refs_ok s'" by auto
  with free show ?thesis by blast
qed

end
