(* ===== verification/Vm_Props.thy ===== *)
theory Vm_Props
  imports Vm
begin

text \<open>
  Page tables as functions: \<open>mappages\<close> on the two-level tables in memory refines an update of the
  function \<open>lookup\<close> from virtual pages to page table entries.
\<close>

section \<open>Entries of pages\<close>

text \<open>The \<open>i\<close>-th entry of the page \<open>p\<close>.\<close>

definition entry :: "u32 \<Rightarrow> u32 \<Rightarrow> u32" where
  "entry p i = p + 4 * i"

lemma write_bytes_apart: "(\<And>t. t < length bs \<Longrightarrow> x \<noteq> b + of_nat t) \<Longrightarrow> write_bytes m b bs x = m x"
proof -
  assume apart: "\<And>t. t < length bs \<Longrightarrow> x \<noteq> b + of_nat t"
  have "x = b + of_nat (unat (x - b))" by simp
  then have "\<not> unat (x - b) < length bs" using apart by blast
  then show ?thesis by (simp add: write_bytes_def)
qed

lemma entry_byte: "entry p i + of_nat k = p + of_nat (4 * unat i + k)"
proof -
  have "of_nat (4 * unat i + k) = 4 * i + of_nat k" by simp
  then show ?thesis by (simp add: entry_def)
qed

lemma entry_page: "pg_aligned p \<Longrightarrow> unat i < 1024 \<Longrightarrow> k < 4 \<Longrightarrow> PGROUNDDOWN (entry p i + of_nat k) = p"
  unfolding entry_byte by (rule in_page_parts(4)) auto

lemma entry_inj:
  assumes "unat i < 1024" and "unat j < 1024" and "k < 4" and "l < 4" and "entry p i + of_nat k = entry p j + of_nat l"
  shows "i = j"
proof -
  have "4 * unat i + k = 4 * unat j + l"
    using assms unfolding entry_byte by (auto simp: of_nat_u32_inject simp del: of_nat_add of_nat_mult)
  then have "unat i = unat j" using assms(3,4) by presburger
  then show ?thesis by (simp add: word_unat_eq_iff)
qed

lemma load_store_other:
  assumes "\<And>k l. k < 4 \<Longrightarrow> l < 4 \<Longrightarrow> a + of_nat k \<noteq> b + of_nat l"
  shows "load32 (store32 m b v) a = load32 m a"
  unfolding store32_def using assms by (intro load32_cong write_bytes_apart) simp

lemma load_store_page:
  assumes "pg_aligned p" and "pg_aligned q" and "p \<noteq> q" and "unat i < 1024" and "unat j < 1024"
  shows "load32 (store32 m (entry q j) v) (entry p i) = load32 m (entry p i)"
  using assms entry_page by (intro load_store_other) metis

lemma load_store_entry:
  assumes "unat i < 1024" and "unat j < 1024"
  shows "load32 (store32 m (entry p j) v) (entry p i) = (if i = j then v else load32 m (entry p i))"
  using assms load_store_other [of "entry p i" "entry p j" m v] entry_inj [OF assms] by auto

lemma load_clear_page:
  assumes "pg_aligned p" and "pg_aligned q" and "unat i < 1024"
  shows "load32 (memset q 0 PGSIZE m) (entry p i) = (if p = q then 0 else load32 m (entry p i))"
proof (cases "p = q")
  case True
  have "memset q 0 PGSIZE m (entry q i + of_nat k) = 0" if "k < 4" for k
    using that assms(3) unfolding entry_byte memset_bytes by (simp add: write_bytes_inside del: of_nat_add of_nat_mult)
  then have "load32 (memset q 0 PGSIZE m) (entry q i) = load32 (\<lambda>_. 0) (entry q i)" by (intro load32_cong) simp
  then show ?thesis using True by (simp add: load32_def read_bytes_def of_le32_def upt_rec)
next
  case False
  have "memset q 0 PGSIZE m (entry p i + of_nat k) = m (entry p i + of_nat k)" if "k < 4" for k
    unfolding memset_bytes
  proof (rule write_bytes_apart)
    fix t assume "t < length (replicate (unat (PGSIZE)) (ucast (0 :: u32) :: u8))"
    then have "PGROUNDDOWN (q + of_nat t) = q" using assms(2) by (intro in_page_parts(4)) simp_all
    then show "entry p i + of_nat k \<noteq> q + of_nat t" using entry_page [OF assms(1,3) that] False by metis
  qed
  then show ?thesis using False by (simp cong: load32_cong)
qed

lemma index_lt [simp]: "unat (PDX va) < 1024" "unat (PTX va) < 1024"
  using and_mask_less' [of 10 "drop_bit 22 va"] and_mask_less' [of 10 "drop_bit 12 va"]
  by (simp_all add: PDX_def PTX_def mask10 word_less_nat_alt)

section \<open>Two-level tables\<close>

definition pde :: "memory \<Rightarrow> u32 \<Rightarrow> u32 \<Rightarrow> u32" where
  "pde m d va = load32 m (entry d (PDX va))"

definition table :: "u32 \<Rightarrow> u32" where
  "table e = P2V (PTE_ADDR e)"

lemma pg_aligned_table [simp]: "pg_aligned (table e)"
proof -
  have "pg_aligned KERNBASE" by (simp add: pg_aligned_def)
  then show ?thesis unfolding table_def P2V_def by (intro pg_aligned_add) simp_all
qed

text \<open>The directory is a page, and the tables it names are different pages.\<close>

definition pt_ok :: "memory \<Rightarrow> u32 \<Rightarrow> bool" where
  "pt_ok m d \<longleftrightarrow> pg_aligned d \<and>
     (\<forall>va. pde m d va AND PTE_P \<noteq> 0 \<longrightarrow> table (pde m d va) \<noteq> d \<and> table (pde m d va) \<noteq> 0 \<and>
       (\<forall>va'. pde m d va' AND PTE_P \<noteq> 0 \<longrightarrow> table (pde m d va') = table (pde m d va) \<longrightarrow> PDX va' = PDX va))"

lemma pt_okD:
  assumes "pt_ok m d"
  shows "pg_aligned d" and "pde m d va AND PTE_P \<noteq> 0 \<Longrightarrow> table (pde m d va) \<noteq> d \<and> table (pde m d va) \<noteq> 0"
    and "pde m d va AND PTE_P \<noteq> 0 \<Longrightarrow> pde m d va' AND PTE_P \<noteq> 0 \<Longrightarrow> table (pde m d va') = table (pde m d va) \<Longrightarrow>
      PDX va' = PDX va"
  using assms unfolding pt_ok_def by blast+

text \<open>The pages the tree occupies.\<close>

definition pt_pages :: "memory \<Rightarrow> u32 \<Rightarrow> u32 set" where
  "pt_pages m d = insert d {table (pde m d va) | va. pde m d va AND PTE_P \<noteq> 0}"

lemma lookup_pde:
  "lookup m d va = (if pde m d va AND PTE_P \<noteq> 0 then load32 m (entry (table (pde m d va)) (PTX va)) else 0)"
  by (simp add: lookup_def pde_def pde_addr_def pte_addr_def entry_def table_def)

lemma pde_cong: "PDX va = PDX va' \<Longrightarrow> pde m d va = pde m d va'"
  by (simp add: pde_def)

lemma page_eq_parts: "PGROUNDDOWN va = PGROUNDDOWN va' \<longleftrightarrow> PDX va = PDX va' \<and> PTX va = PTX va'"
proof
  have "PDX x = PDX (PGROUNDDOWN x)" "PTX x = PTX (PGROUNDDOWN x)" for x
    using in_page_parts(1,2) [of "PGROUNDDOWN x" "unat (x AND 0xFFF)"] and_mask12_lt [of x] PGROUNDDOWN_plus [of x] by simp_all
  then show "PGROUNDDOWN va = PGROUNDDOWN va' \<Longrightarrow> PDX va = PDX va' \<and> PTX va = PTX va'" by metis
next
  assume *: "PDX va = PDX va' \<and> PTX va = PTX va'"
  have "bit va n = bit va' n" if "12 \<le> n" "n < 32" for n
  proof (cases "22 \<le> n")
    case True
    then have "bit (PDX x) (n - 22) = bit x n" for x using that by (auto simp: PDX_def mask10 bit_simps)
    then show ?thesis using * by metis
  next
    case False
    then have "bit (PTX x) (n - 12) = bit x n" for x using that by (auto simp: PTX_def mask10 bit_simps)
    then show ?thesis using * by metis
  qed
  then show "PGROUNDDOWN va = PGROUNDDOWN va'"
    by (auto intro!: bit_word_eqI simp: PGROUNDDOWN_def mask12 bit_simps)
qed

text \<open>Storing an entry of a table.\<close>

lemma set_pte:
  assumes ok: "pt_ok m d" and p: "pde m d va AND PTE_P \<noteq> 0"
    and m'_def: "m' = store32 m (entry (table (pde m d va)) (PTX va)) v"
  shows "pde m' d va' = pde m d va'" and "pt_ok m' d" and "pt_pages m' d = pt_pages m d"
    and "lookup m' d va' = (if PGROUNDDOWN va' = PGROUNDDOWN va then v else lookup m d va')"
proof -
  have d: "pg_aligned d" "table (pde m d va) \<noteq> d" using ok p by (auto simp: pt_ok_def)
  show pde: "pde m' d va' = pde m d va'" for va'
  proof -
    have "load32 m' (entry d (PDX va')) = load32 m (entry d (PDX va'))" unfolding m'_def using d by (intro load_store_page) auto
    then show ?thesis by (simp only: pde_def)
  qed
  have "pt_ok m' d = pt_ok m d" by (simp only: pt_ok_def pde)
  with ok show "pt_ok m' d" by simp
  show "pt_pages m' d = pt_pages m d" by (simp only: pt_pages_def pde)
  show "lookup m' d va' = (if PGROUNDDOWN va' = PGROUNDDOWN va then v else lookup m d va')"
  proof (cases "PDX va' = PDX va")
    case True
    then have "pde m d va' = pde m d va" by (rule pde_cong)
    then show ?thesis using p True
      by (simp add: lookup_pde pde page_eq_parts) (simp add: m'_def load_store_entry)
  next
    case False
    then have "table (pde m d va') \<noteq> table (pde m d va)" if "pde m d va' AND PTE_P \<noteq> 0"
      using ok p that unfolding pt_ok_def by blast
    then show ?thesis using False
      by (simp add: lookup_pde pde page_eq_parts) (simp add: m'_def load_store_page)
  qed
qed

text \<open>A new, empty table.\<close>

lemma table_new: "pg_aligned pg \<Longrightarrow> table (V2P pg OR PTE_P OR PTE_W OR PTE_U) = pg"
proof -
  assume "pg_aligned pg"
  moreover have "pg_aligned KERNBASE" by (simp add: pg_aligned_def)
  ultimately have "pg_aligned (V2P pg)" unfolding V2P_def by (rule pg_aligned_diff)
  then have lo: "\<not> bit (V2P pg) n" if "n < 12" for n
    using that by (metis pg_aligned_take_bit bit_take_bit_iff bit_0_eq bot_apply bot_bool_def)
  have m7: "(7 :: u32) = mask 3" by (simp add: mask_eq_exp_minus_1)
  have hi: "\<not> bit (7 :: u32) n" if "12 \<le> n" for n unfolding m7 bit_mask_iff using that by simp
  have "PTE_ADDR (V2P pg OR 7) = V2P pg"
  proof (rule bit_word_eqI)
    fix n assume "n < LENGTH(32)"
    then show "bit (PTE_ADDR (V2P pg OR 7)) n = bit (V2P pg) n"
      using lo [of n] hi [of n] by (cases "n < 12") (simp_all add: PTE_ADDR_def mask12 bit_simps)
  qed
  then show ?thesis by (simp add: table_def or.assoc)
qed

lemma present_new: "(V2P pg OR PTE_P OR PTE_W OR PTE_U) AND PTE_P \<noteq> 0"
proof -
  have "bit ((V2P pg OR PTE_P OR PTE_W OR PTE_U) AND PTE_P) 0" by (simp add: bit_simps)
  then show ?thesis by (metis bit_0_eq bot_apply bot_bool_def)
qed

lemma new_table:
  assumes ok: "pt_ok m d" and p: "pde m d va AND PTE_P = 0" and pg: "pg_aligned pg" "pg \<notin> pt_pages m d" "pg \<noteq> 0"
    and m': "m' = store32 (memset pg 0 PGSIZE m) (entry d (PDX va)) (V2P pg OR PTE_P OR PTE_W OR PTE_U)"
  shows "pde m' d va' = (if PDX va' = PDX va then V2P pg OR PTE_P OR PTE_W OR PTE_U else pde m d va')"
    and "pt_ok m' d" and "pt_pages m' d = insert pg (pt_pages m d)" and "lookup m' d va' = lookup m d va'"
proof -
  let ?e = "V2P pg OR PTE_P OR PTE_W OR PTE_U" and ?m = "memset pg 0 PGSIZE m"
  have d: "pg_aligned d" "pg \<noteq> d" using ok pg(2) by (auto simp: pt_ok_def pt_pages_def)
  have te: "table ?e = pg" "?e AND PTE_P \<noteq> 0" using table_new [OF pg(1)] present_new by auto
  have other: "table (pde m d va') \<noteq> pg" if "pde m d va' AND PTE_P \<noteq> 0" for va' using pg(2) that by (auto simp: pt_pages_def)
  show pde: "pde m' d va' = (if PDX va' = PDX va then ?e else pde m d va')" for va'
  proof -
    have "load32 m' (entry d (PDX va')) = (if PDX va' = PDX va then ?e else load32 ?m (entry d (PDX va')))"
      unfolding m' by (rule load_store_entry) simp_all
    then show ?thesis using d pg(1) by (simp add: load_clear_page pde_def)
  qed
  have keep: "PDX va' \<noteq> PDX va" if "pde m d va' AND PTE_P \<noteq> 0" for va' using p that pde_cong by metis
  show "pt_ok m' d"
    unfolding pt_ok_def pde
  proof (intro conjI allI impI d(1))
    fix x assume x: "(if PDX x = PDX va then ?e else pde m d x) AND PTE_P \<noteq> 0"
    show "table (if PDX x = PDX va then ?e else pde m d x) \<noteq> d" "table (if PDX x = PDX va then ?e else pde m d x) \<noteq> 0"
      using x pt_okD(2) [OF ok, of x] te(1) d(2) pg(3) by (simp_all split: if_splits)
    fix y assume y: "(if PDX y = PDX va then ?e else pde m d y) AND PTE_P \<noteq> 0"
      and eq: "table (if PDX y = PDX va then ?e else pde m d y) = table (if PDX x = PDX va then ?e else pde m d x)"
    show "PDX y = PDX x"
      using x y eq te(1) other [of x] other [of y] pt_okD(3) [OF ok, of x y]
      by (cases "PDX x = PDX va"; cases "PDX y = PDX va") simp_all
  qed
  have "{table (pde m' d va') | va'. pde m' d va' AND PTE_P \<noteq> 0} =
      insert pg {table (pde m d va') | va'. pde m d va' AND PTE_P \<noteq> 0}"
    unfolding pde using te keep by (auto split: if_splits)
  then show "pt_pages m' d = insert pg (pt_pages m d)" by (simp add: pt_pages_def insert_commute)
  have lo: "load32 m' (entry q (PTX va')) = load32 ?m (entry q (PTX va'))" if "pg_aligned q" "q \<noteq> d" for q
    unfolding m' using that d by (intro load_store_page) simp_all
  show "lookup m' d va' = lookup m d va'"
  proof (cases "PDX va' = PDX va")
    case True
    then have "lookup m' d va' = load32 m' (entry pg (PTX va'))" using te by (simp add: lookup_pde pde)
    also have "\<dots> = 0" using lo [OF pg(1) d(2)] pg(1) by (simp add: load_clear_page)
    also have "0 = lookup m d va'" using p pde_cong [OF True] by (simp add: lookup_pde)
    finally show ?thesis .
  next
    case False
    show ?thesis
    proof (cases "pde m d va' AND PTE_P = 0")
      case present: False
      have "table (pde m d va') \<noteq> d" using ok present by (simp add: pt_ok_def)
      with other [OF present] lo [OF _ this] pg(1) show ?thesis using False by (simp add: lookup_pde pde load_clear_page)
    qed (use False in \<open>simp add: lookup_pde pde\<close>)
  qed
qed

section \<open>Walking and mapping\<close>

lemma free_path_cong: "(\<And>x. x \<in> set ps \<Longrightarrow> load32 m' x = load32 m x) \<Longrightarrow> free_path m' p ps = free_path m p ps"
  by (induction ps arbitrary: p) simp_all

lemma entry_0: "x = entry x 0" by (simp add: entry_def)

lemma entry_nonzero: "pg_aligned p \<Longrightarrow> p \<noteq> 0 \<Longrightarrow> unat i < 1024 \<Longrightarrow> entry p i \<noteq> 0"
  using entry_page [of p i 0] by (auto simp: PGROUNDDOWN_def)

text \<open>A page table next to a free list: \<open>ps\<close> are the free pages, none of them in the tree.\<close>

definition vm_ok :: "kernel \<Rightarrow> u32 \<Rightarrow> u32 list \<Rightarrow> bool" where
  "vm_ok s d ps \<longleftrightarrow> kmem_pages s ps \<and> pt_ok (mem s) d \<and> set ps \<inter> pt_pages (mem s) d = {}"

text \<open>How a step changes the tree: some pages of the free list may join it.\<close>

definition grown :: "kernel \<Rightarrow> u32 \<Rightarrow> u32 list \<Rightarrow> kernel \<Rightarrow> u32 list \<Rightarrow> bool" where
  "grown s d ps s' ps' \<longleftrightarrow> vm_ok s' d ps' \<and> (\<exists>qs. ps = qs @ ps' \<and> pt_pages (mem s') d = set qs \<union> pt_pages (mem s) d) \<and>
     (\<exists>m f. s' = s\<lparr>mem := m, freelist := f\<rparr>) \<and>
     (\<forall>x. PGROUNDDOWN x \<notin> pt_pages (mem s') d \<longrightarrow> mem s' x = mem s x)"

lemma walkpgdir_alloc:
  assumes ok: "vm_ok s d ps" and room: "pde (mem s) d va AND PTE_P \<noteq> 0 \<or> ps \<noteq> []"
  shows "\<exists>s' ps'. walkpgdir d va True s w = Done (entry (table (pde (mem s') d va)) (PTX va)) s' w \<and>
    pde (mem s') d va AND PTE_P \<noteq> 0 \<and> grown s d ps s' ps' \<and> length ps \<le> Suc (length ps') \<and>
    (\<forall>va'. lookup (mem s') d va' = lookup (mem s) d va')"
proof (cases "pde (mem s) d va AND PTE_P = 0")
  case False
  then have "walkpgdir d va True s w = Done (entry (table (pde (mem s) d va)) (PTX va)) s w"
    by (simp add: walkpgdir_def kload32_def pde_def pde_addr_def entry_def table_def)
  with ok False show ?thesis by (intro exI [of _ s] exI [of _ ps])
    (auto simp: grown_def intro!: exI [of _ "mem s"] exI [of _ "freelist s"])
next
  case True
  then obtain pg qs where ps: "ps = pg # qs" using room by (cases ps) auto
  have kp: "kmem_pages s (pg # qs)" and pt: "pt_ok (mem s) d" and new: "pg \<notin> pt_pages (mem s) d"
    and disj: "set qs \<inter> pt_pages (mem s) d = {}" using ok ps by (auto simp: vm_ok_def)
  then have pg: "freelist s = pg" "pg \<noteq> 0" "pg_aligned pg" "pg \<notin> set qs" and al: "\<forall>x \<in> set qs. pg_aligned x"
    by (auto simp: kmem_pages_def free_pages_def page_ok_def)
  define m' where "m' = store32 (memset pg 0 PGSIZE (mem s)) (entry d (PDX va)) (V2P pg OR PTE_P OR PTE_W OR PTE_U)"
  let ?s = "s\<lparr>mem := m', freelist := load32 (mem s) pg\<rparr>"
  note nt = new_table [OF pt True pg(3) new pg(2) m'_def]
  have "kalloc s w = Done pg (s\<lparr>freelist := load32 (mem s) pg\<rparr>) w"
    using kp pg by (simp add: kalloc_exec kmem_pages_def)
  then have "walkpgdir d va True s w = Done (entry pg (PTX va)) ?s w"
    using True pg(2) by (simp add: walkpgdir_def kload32_def kmemset_def kstore32_def pde_def pde_addr_def entry_def m'_def kernel_order)
  moreover have pde: "pde m' d va = V2P pg OR PTE_P OR PTE_W OR PTE_U" using nt(1) [of va] by simp
  moreover have "load32 m' x = load32 (mem s) x" if "x \<in> set qs" for x
  proof -
    have x: "pg_aligned x" "x \<noteq> d" "x \<noteq> pg" using that al disj pg(4) by (auto simp: pt_pages_def)
    have "load32 m' (entry x 0) = load32 (memset pg 0 PGSIZE (mem s)) (entry x 0)"
      unfolding m'_def using x pt_okD(1) [OF pt] by (intro load_store_page) simp_all
    also have "\<dots> = load32 (mem s) (entry x 0)" using x pg(3) by (simp add: load_clear_page)
    finally show ?thesis by (simp add: entry_def)
  qed
  then have "kmem_pages ?s qs"
    using kp pg(1) by (simp add: kmem_pages_def free_pages_def free_path_cong [of qs m' "mem s"] page_ok_def)
  then have "vm_ok ?s d qs" using nt(2,3) disj pg(4) by (simp add: vm_ok_def)
  moreover have "m' x = mem s x" if "PGROUNDDOWN x \<notin> insert pg (pt_pages (mem s) d)" for x
  proof -
    have "PGROUNDDOWN x \<noteq> d" "PGROUNDDOWN x \<noteq> pg" using that by (auto simp: pt_pages_def)
    then have "x \<noteq> entry d (PDX va) + of_nat k" if "k < 4" for k using entry_page [OF pt_okD(1) [OF pt] index_lt(1) that] by auto
    then have "m' x = memset pg 0 PGSIZE (mem s) x" unfolding m'_def store32_def by (intro write_bytes_apart) simp
    also have "\<dots> = mem s x" unfolding memset_bytes
    proof (rule write_bytes_apart)
      fix t assume "t < length (replicate (unat (PGSIZE)) (ucast (0 :: u32) :: u8))"
      then have "PGROUNDDOWN (pg + of_nat t) = pg" using pg(3) by (intro in_page_parts(4)) simp_all
      then show "x \<noteq> pg + of_nat t" using \<open>PGROUNDDOWN x \<noteq> pg\<close> by auto
    qed
    finally show ?thesis .
  qed
  ultimately show ?thesis using ps nt(3,4) table_new [OF pg(3)] present_new [of pg]
    by (intro exI [of _ ?s] exI [of _ qs]) (auto simp: grown_def intro!: exI [of _ "[pg]"])
qed

lemma walkpgdir_full:
  assumes "vm_ok s d []" and "pde (mem s) d va AND PTE_P = 0"
  shows "walkpgdir d va True s w = Done 0 s w"
proof -
  have "kalloc s w = Done 0 s w"
    using assms(1) by (simp add: vm_ok_def kmem_pages_def free_pages_def kalloc_exec)
  then show ?thesis using assms(2) by (simp add: walkpgdir_def kload32_def pde_def pde_addr_def entry_def)
qed

lemma grown_trans: "grown s d ps s1 ps1 \<Longrightarrow> grown s1 d ps1 s2 ps2 \<Longrightarrow> grown s d ps s2 ps2"
proof -
  assume a: "grown s d ps s1 ps1" and b: "grown s1 d ps1 s2 ps2"
  obtain m f m' f' where "s1 = s\<lparr>mem := m, freelist := f\<rparr>" "s2 = s1\<lparr>mem := m', freelist := f'\<rparr>"
    using a b unfolding grown_def by blast
  then have "s2 = s\<lparr>mem := m', freelist := f'\<rparr>" by (simp add: kernel_order)
  moreover obtain qs qs' where "ps = qs @ ps1" "ps1 = qs' @ ps2" "pt_pages (mem s1) d = set qs \<union> pt_pages (mem s) d"
    "pt_pages (mem s2) d = set qs' \<union> pt_pages (mem s1) d" using a b by (auto simp: grown_def)
  then have "ps = (qs @ qs') @ ps2 \<and> pt_pages (mem s2) d = set (qs @ qs') \<union> pt_pages (mem s) d"
    "pt_pages (mem s1) d \<subseteq> pt_pages (mem s2) d" by auto
  ultimately show ?thesis using a b unfolding grown_def by (intro conjI exI) (auto simp: subset_iff)
qed

lemma grown_set_pte:
  assumes ok: "vm_ok s d ps" and p: "pde (mem s) d va AND PTE_P \<noteq> 0"
    and s': "s' = s\<lparr>mem := store32 (mem s) (entry (table (pde (mem s) d va)) (PTX va)) v\<rparr>"
  shows "grown s d ps s' ps"
proof -
  let ?t = "table (pde (mem s) d va)"
  have pt: "pt_ok (mem s) d" and t: "?t \<in> pt_pages (mem s) d" using ok p by (auto simp: vm_ok_def pt_pages_def)
  note sp = set_pte [OF pt p refl, of v]
  let ?m = "store32 (mem s) (entry ?t (PTX va)) v"
  have "free_path ?m p ps = free_path (mem s) p ps" for p
  proof (rule free_path_cong)
    fix x assume "x \<in> set ps"
    then have "pg_aligned x" "x \<noteq> ?t" using ok t by (auto simp: vm_ok_def kmem_pages_def free_pages_def page_ok_def)
    then have "load32 ?m (entry x 0) = load32 (mem s) (entry x 0)" by (simp add: load_store_page)
    then show "load32 ?m x = load32 (mem s) x" by (simp add: entry_def)
  qed
  then have "kmem_pages s' ps"
    using ok by (simp add: vm_ok_def s' kmem_pages_def free_pages_def page_ok_def)
  moreover have "?m x = mem s x" if "PGROUNDDOWN x \<notin> pt_pages (mem s) d" for x
    unfolding store32_def using that t entry_page [of ?t "PTX va"] by (intro write_bytes_apart) auto
  ultimately show ?thesis using ok sp(2,3) t by (auto simp: grown_def vm_ok_def s' intro!: exI [of _ "freelist s"])
qed

text \<open>The view of an address space in which \<open>n\<close> pages from \<open>a\<close> on are mapped to the frames from \<open>pa\<close> on.\<close>

definition mapped :: "(u32 \<Rightarrow> u32) \<Rightarrow> u32 \<Rightarrow> nat \<Rightarrow> u32 \<Rightarrow> u32 \<Rightarrow> u32 \<Rightarrow> u32" where
  "mapped L a n pa perm va =
     (let off = PGROUNDDOWN va - a in if unat off < 4096 * n then (pa + off) OR perm OR PTE_P else L va)"

lemma mapped_Suc:
  assumes "pg_aligned a" and "n < 2 ^ 20"
  shows "mapped (mapped L a 1 pa perm) (a + PGSIZE) n (pa + PGSIZE) perm va = mapped L a (Suc n) pa perm va"
proof -
  define off off' where "off = PGROUNDDOWN va - a" and "off' = PGROUNDDOWN va - (a + PGSIZE)"
  have al: "pg_aligned off" unfolding off_def using assms(1) by (intro pg_aligned_diff) simp_all
  have off': "off' = off - PGSIZE" unfolding off_def off'_def by (simp only: diff_diff_eq)
  show ?thesis
  proof (cases "unat off < 4096")
    case True
    then have "off = 0" using al by (auto simp: pg_aligned_unat word_unat_eq_iff dest: nat_dvd_not_less)
    then show ?thesis using assms(2) off' unfolding mapped_def Let_def off_def [symmetric] off'_def [symmetric] by simp
  next
    case False
    then have "unat off' = unat off - 4096" unfolding off' by (simp add: unat_sub word_le_nat_alt)
    then show ?thesis using False off' unfolding mapped_def Let_def off_def [symmetric] off'_def [symmetric] by auto
  qed
qed

text \<open>
  What a run of the loop may end in, \<open>n\<close> pages being left: all of them are mapped, the first \<open>j\<close> are and
  the next one was mapped before, or the first \<open>j\<close> are and there is no page left for the table of the next.
\<close>

definition map_ends :: "kernel \<Rightarrow> world \<Rightarrow> u32 \<Rightarrow> u32 list \<Rightarrow> u32 \<Rightarrow> nat \<Rightarrow> u32 \<Rightarrow> u32 \<Rightarrow> nat \<Rightarrow> u32 outcome \<Rightarrow> bool" where
  "map_ends s w d ps a n pa perm j r \<longleftrightarrow>
     j \<le> n \<and> (\<forall>k < j. lookup (mem s) d (a + of_nat (4096 * k)) AND PTE_P = 0) \<and>
     (\<exists>s' ps'. grown s d ps s' ps' \<and> length ps \<le> j + length ps' \<and>
       lookup (mem s') d = mapped (lookup (mem s) d) a j pa perm \<and>
       (if j = n then r = Done 0 s' w
        else r = Panic ''remap'' \<and> lookup (mem s) d (a + of_nat (4096 * j)) AND PTE_P \<noteq> 0 \<or>
             r = Done minus1 s' w \<and> ps' = [] \<and> lookup (mem s) d (a + of_nat (4096 * j)) AND PTE_P = 0))"

lemma mapped_0: "mapped L a 0 pa perm = L" by (rule ext) (simp add: mapped_def Let_def)

lemma grown_refl: "vm_ok s d ps \<Longrightarrow> grown s d ps s ps"
  by (auto simp: grown_def intro!: exI [of _ "mem s"] exI [of _ "freelist s"])

lemma PGROUNDDOWN_aligned: "pg_aligned a \<Longrightarrow> PGROUNDDOWN a = a"
  using in_page_parts(4) [of a 0] by simp

text \<open>One round of the loop.\<close>

lemma map_step:
  assumes ok: "vm_ok s d ps" and a: "pg_aligned a"
  obtains (full) "ps = []" "lookup (mem s) d a AND PTE_P = 0" "mappages_loop (Suc n) d a l pa perm s w = Done minus1 s w"
  | (remap) "lookup (mem s) d a AND PTE_P \<noteq> 0" "mappages_loop (Suc n) d a l pa perm s w = Panic ''remap''"
  | (mapped) s' ps' where "lookup (mem s) d a AND PTE_P = 0" "grown s d ps s' ps'" "length ps \<le> Suc (length ps')"
      "lookup (mem s') d = mapped (lookup (mem s) d) a 1 pa perm"
      "mappages_loop (Suc n) d a l pa perm s w =
        (if a = l then Done 0 s' w else mappages_loop n d (a + PGSIZE) l (pa + PGSIZE) perm s' w)"
proof (cases "pde (mem s) d a AND PTE_P = 0 \<and> ps = []")
  case True
  then show ?thesis using walkpgdir_full [of s d a w] ok by (intro full) (simp_all add: lookup_pde)
next
  case False
  then obtain s1 ps1 where w: "walkpgdir d a True s w = Done (entry (table (pde (mem s1) d a)) (PTX a)) s1 w"
    and p: "pde (mem s1) d a AND PTE_P \<noteq> 0" and g: "grown s d ps s1 ps1" and l: "length ps \<le> Suc (length ps1)"
    and same: "lookup (mem s1) d = lookup (mem s) d"
    using walkpgdir_alloc [OF ok, of a w] by (auto simp: fun_eq_iff)
  let ?e = "entry (table (pde (mem s1) d a)) (PTX a)" and ?v = "pa OR perm OR PTE_P"
  have vm: "vm_ok s1 d ps1" and pt: "pt_ok (mem s1) d" using g by (auto simp: grown_def vm_ok_def)
  then have nz: "?e \<noteq> 0" using pt_okD(2) [OF pt p] by (intro entry_nonzero) simp_all
  have v: "load32 (mem s1) ?e = lookup (mem s) d a" unfolding same [symmetric] using p by (simp add: lookup_pde)
  show ?thesis
  proof (cases "lookup (mem s) d a AND PTE_P = 0")
    case True
    let ?s = "s1\<lparr>mem := store32 (mem s1) ?e ?v\<rparr>"
    have "grown s d ps ?s ps1" using g grown_set_pte [OF vm p refl] by (rule grown_trans)
    moreover have "lookup (mem ?s) d va = mapped (lookup (mem s) d) a 1 pa perm va" for va
    proof -
      have "PGROUNDDOWN va - a = 0 \<longleftrightarrow> PGROUNDDOWN va = a" by simp
      moreover have "unat (PGROUNDDOWN va - a) < 4096 \<longleftrightarrow> PGROUNDDOWN va - a = 0"
        using pg_aligned_diff [OF pg_aligned_PGROUNDDOWN a, of va]
        by (auto simp: pg_aligned_unat word_unat_eq_iff dest: nat_dvd_not_less)
      moreover have "PGROUNDDOWN a = a" using a by (rule PGROUNDDOWN_aligned)
      ultimately show ?thesis using set_pte(4) [OF pt p refl, of ?v va] same by (simp add: mapped_def Let_def)
    qed
    ultimately show ?thesis using True w nz v l
      by (intro mapped [of ?s ps1]) (simp_all add: kload32_def kstore32_def fun_eq_iff)
  qed (use w nz v in \<open>intro remap; simp add: kload32_def\<close>)
qed

lemma pages_off:
  assumes "n < 2 ^ 20"
  shows "unat (of_nat (4096 * n) :: u32) = 4096 * n" and "pg_aligned (of_nat (4096 * n))"
proof -
  show "unat (of_nat (4096 * n) :: u32) = 4096 * n"
    unfolding unat_of_nat using assms by (simp del: of_nat_mult)
  then show "pg_aligned (of_nat (4096 * n))" by (simp add: pg_aligned_unat del: of_nat_mult)
qed

lemma map_ends_full:
  "vm_ok s d [] \<Longrightarrow> lookup (mem s) d a AND PTE_P = 0 \<Longrightarrow> map_ends s w d [] a (Suc n) pa perm 0 (Done minus1 s w)"
  unfolding map_ends_def by (auto simp: mapped_0 intro: grown_refl)

lemma map_ends_remap:
  "vm_ok s d ps \<Longrightarrow> lookup (mem s) d a AND PTE_P \<noteq> 0 \<Longrightarrow> map_ends s w d ps a (Suc n) pa perm 0 (Panic ''remap'')"
  unfolding map_ends_def by (auto simp: mapped_0 intro: grown_refl)

lemma map_ends_last:
  "lookup (mem s) d a AND PTE_P = 0 \<Longrightarrow> grown s d ps s' ps' \<Longrightarrow> length ps \<le> Suc (length ps') \<Longrightarrow>
   lookup (mem s') d = mapped (lookup (mem s) d) a (Suc 0) pa perm \<Longrightarrow> map_ends s w d ps a (Suc 0) pa perm (Suc 0) (Done 0 s' w)"
  unfolding map_ends_def by auto

lemma map_ends_Suc:
  assumes a: "pg_aligned a" and n: "n < 2 ^ 20" and free: "lookup (mem s) d a AND PTE_P = 0"
    and g: "grown s d ps s1 ps1" "length ps \<le> Suc (length ps1)"
    and l: "lookup (mem s1) d = mapped (lookup (mem s) d) a 1 pa perm"
    and rest: "map_ends s1 w d ps1 (a + PGSIZE) n (pa + PGSIZE) perm j r"
  shows "map_ends s w d ps a (Suc n) pa perm (Suc j) r"
proof -
  have other: "lookup (mem s1) d (a + PGSIZE + of_nat (4096 * k)) = lookup (mem s) d (a + of_nat (4096 * Suc k))" if "Suc k < 2 ^ 20" for k
  proof -
    have "PGROUNDDOWN (a + of_nat (4096 * Suc k)) = a + of_nat (4096 * Suc k)"
      using a pages_off(2) [OF that] by (intro PGROUNDDOWN_aligned pg_aligned_add)
    then have "mapped (lookup (mem s) d) a 1 pa perm (a + of_nat (4096 * Suc k)) = lookup (mem s) d (a + of_nat (4096 * Suc k))"
      using pages_off(1) [OF that] by (simp add: mapped_def Let_def del: of_nat_mult of_nat_Suc)
    then show ?thesis unfolding l by (simp add: ac_simps)
  qed
  obtain s' ps' where j: "j \<le> n" and early: "\<forall>k < j. lookup (mem s1) d (a + PGSIZE + of_nat (4096 * k)) AND PTE_P = 0"
    and g': "grown s1 d ps1 s' ps'" "length ps1 \<le> j + length ps'"
    and l': "lookup (mem s') d = mapped (lookup (mem s1) d) (a + PGSIZE) j (pa + PGSIZE) perm"
    and r: "if j = n then r = Done 0 s' w
        else r = Panic ''remap'' \<and> lookup (mem s1) d (a + PGSIZE + of_nat (4096 * j)) AND PTE_P \<noteq> 0 \<or>
             r = Done minus1 s' w \<and> ps' = [] \<and> lookup (mem s1) d (a + PGSIZE + of_nat (4096 * j)) AND PTE_P = 0"
    using rest unfolding map_ends_def by blast
  have "lookup (mem s) d (a + of_nat (4096 * k)) AND PTE_P = 0" if "k < Suc j" for k
    using that free early other [of "k - 1"] n j by (cases k) auto
  moreover have "lookup (mem s') d = mapped (lookup (mem s) d) a (Suc j) pa perm"
    unfolding l' l using mapped_Suc [OF a, of j] n j by (auto simp: fun_eq_iff)
  moreover have "grown s d ps s' ps'" using g(1) g'(1) by (rule grown_trans)
  ultimately show ?thesis unfolding map_ends_def
    using j r g(2) g'(2) other [of j] n by (intro conjI exI [of _ s'] exI [of _ ps']) (auto split: if_splits)
qed

lemma mappages_loop_spec:
  assumes "vm_ok s d ps" and "pg_aligned a" and "l = a + of_nat (4096 * n)" and "n < 2 ^ 20"
  shows "\<exists>j. map_ends s w d ps a (Suc n) pa perm j (mappages_loop (Suc n) d a l pa perm s w)"
  using assms
proof (induction n arbitrary: s ps a pa)
  case 0
  from 0(1,2) show ?case
    by (cases rule: map_step [where n = 0 and l = l and pa = pa and perm = perm and w = w])
      (use 0(1,3) in \<open>auto simp del: mappages_loop.simps intro: map_ends_full map_ends_remap map_ends_last\<close>)
next
  case (Suc n)
  have nl: "a \<noteq> l" using pages_off(1) [OF Suc(5)] Suc(4) by (auto simp del: of_nat_mult of_nat_Suc)
  from Suc(2,3) show ?case
  proof (cases rule: map_step [where n = "Suc n" and l = l and pa = pa and perm = perm and w = w])
    case (mapped s' ps')
    have "\<exists>j. map_ends s' w d ps' (a + PGSIZE) (Suc n) (pa + PGSIZE) perm j
       (mappages_loop (Suc n) d (a + PGSIZE) l (pa + PGSIZE) perm s' w)"
      using Suc(3-5) mapped(2) by (intro Suc.IH pg_aligned_add) (simp_all add: grown_def algebra_simps)
    then obtain j where "map_ends s w d ps a (Suc (Suc n)) pa perm (Suc j)
        (mappages_loop (Suc n) d (a + PGSIZE) l (pa + PGSIZE) perm s' w)"
      using map_ends_Suc [OF Suc(3) _ mapped(1-4)] Suc(5) by blast
    then show ?thesis using mapped(5) nl by metis
  qed (use Suc(2) in \<open>auto simp del: mappages_loop.simps intro: map_ends_full map_ends_remap\<close>)
qed

lemma map_ends_success:
  assumes "map_ends s w d ps a n pa perm j r" and "n \<le> length ps"
    and "\<forall>k < n. lookup (mem s) d (a + of_nat (4096 * k)) AND PTE_P = 0"
  shows "\<exists>s' ps'. r = Done 0 s' w \<and> grown s d ps s' ps' \<and> lookup (mem s') d = mapped (lookup (mem s) d) a n pa perm"
  using assms unfolding map_ends_def by (cases "j = n") fastforce+

text \<open>C8. \<open>mappages\<close> on a well-formed page table, beside a free list whose pages it does not use. The run always ends,
  in one of three ways. It maps every page of the region, whatever the alignment of the address and the size; it
  panics at the first page of the region that is already mapped; or it returns -1 at a page whose table cannot be
  allocated, the pages before it being mapped. The region is mapped when it is free and the free list has a page for
  each of its pages. In every case the translation of addresses outside the region is what it was, the tables stay
  well formed, and no memory outside the page table is changed.
\<close>

theorem mappages_refines:
  assumes "vm_ok s d ps"
    and a: "a = PGROUNDDOWN va" and n: "n = Suc (unat (PGROUNDDOWN (va + sz - 1) - a) div 4096)"
  shows "(\<exists>j. map_ends s w d ps a n pa perm j (mappages d va sz pa perm s w)) \<and>
    (n \<le> length ps \<and> (\<forall>k < n. lookup (mem s) d (a + of_nat (4096 * k)) AND PTE_P = 0) \<longrightarrow>
      (\<exists>s' ps'. mappages d va sz pa perm s w = Done 0 s' w \<and> grown s d ps s' ps' \<and>
        lookup (mem s') d = mapped (lookup (mem s) d) a n pa perm))"
proof -
  define l where "l = PGROUNDDOWN (va + sz - 1)"
  define t where "t = unat (l - a) div 4096"
  have "pg_aligned (l - a)" unfolding a l_def by (intro pg_aligned_diff) simp_all
  then have "4096 * t = unat (l - a)" unfolding t_def by (simp add: pg_aligned_unat)
  then have "l = a + of_nat (4096 * t)" and "t < 2 ^ 20"
    using unat_lt_u32 [of "l - a"] by (simp_all del: of_nat_mult)
  then have "\<exists>j. map_ends s w d ps a n pa perm j (mappages_loop (Suc t) d a l pa perm s w)"
    unfolding n l_def [symmetric] t_def [symmetric] using assms(1) by (intro mappages_loop_spec) (simp_all add: a)
  moreover have "mappages d va sz pa perm = mappages_loop (Suc t) d a l pa perm"
    unfolding mappages_def Let_def a [symmetric] l_def [symmetric] t_def [symmetric] by (rule refl)
  ultimately show ?thesis using map_ends_success by metis
qed

lemma load_write_page:
  assumes "pg_aligned p" and "pg_aligned q" and "p \<noteq> q" and "length bs \<le> 4096" and "unat i < 1024"
  shows "load32 (write_bytes m q bs) (entry p i) = load32 m (entry p i)"
proof (intro load32_cong write_bytes_apart)
  fix k t assume "k < (4 :: nat)" and "t < length bs"
  then have "PGROUNDDOWN (q + of_nat t) = q" using assms(2,4) by (intro in_page_parts(4)) simp_all
  then show "entry p i + of_nat k \<noteq> q + of_nat t" using entry_page [OF assms(1,5) \<open>k < 4\<close>] assms(3) by metis
qed

lemma vm_ok_kernel_2pages:
  "vm_ok kernel_2pages 0x80300000 [0x80401000, 0x80400000]" "lookup (mem kernel_2pages) 0x80300000 va = 0"
proof -
  have al: "pg_aligned 0x80300000" "pg_aligned 0x80400000" "pg_aligned 0x80401000" by (simp_all add: pg_aligned_def)
  have "pde (mem kernel_2pages) 0x80300000 va = 0" for va
  proof -
    have "pde (mem kernel_2pages) 0x80300000 va = load32 (mem kernel0) (entry 0x80300000 (PDX va))"
      using al by (simp add: pde_def kernel_2pages_def Let_def load_write_page)
    then show ?thesis by (simp add: load32_def read_bytes_def of_le32_def upt_rec kernel0_def)
  qed
  then show "vm_ok kernel_2pages 0x80300000 [0x80401000, 0x80400000]" "lookup (mem kernel_2pages) 0x80300000 va = 0"
    using kmem_pages_kernel_2pages al by (simp_all add: vm_ok_def pt_ok_def pt_pages_def lookup_pde)
qed

theorem mappages_refines_witness:
  "\<exists>s' ps'. mappages 0x80300000 0x1010 0x1000 0x5000 (PTE_W OR PTE_U) kernel_2pages [] = Done 0 s' [] \<and>
     lookup (mem s') 0x80300000 0x2FFF = 0x6007 \<and> lookup (mem s') 0x80300000 0x3000 = 0 \<and>
     grown kernel_2pages 0x80300000 [0x80401000, 0x80400000] s' ps'"
proof -
  have "\<exists>s' ps'. mappages 0x80300000 0x1010 0x1000 0x5000 (PTE_W OR PTE_U) kernel_2pages [] = Done 0 s' [] \<and>
    grown kernel_2pages 0x80300000 [0x80401000, 0x80400000] s' ps' \<and>
    lookup (mem s') 0x80300000 = mapped (lookup (mem kernel_2pages) 0x80300000) 0x1000 2 0x5000 (PTE_W OR PTE_U)"
    using mappages_refines [OF vm_ok_kernel_2pages(1), of "0x1000" "0x1010" 2 "0x1000" "[]" "0x5000" "PTE_W OR PTE_U"]
    by (simp add: PGROUNDDOWN_def vm_ok_kernel_2pages(2))
  then show ?thesis by (auto simp: mapped_def Let_def PGROUNDDOWN_def vm_ok_kernel_2pages(2))
qed

end
