(* ===== verification/Pipe_Props.thy ===== *)
theory Pipe_Props
  imports Pipe Sched_Props Signals
begin

text \<open>
  A pipe is a queue of bytes: the ring buffer of \<^verbatim>\<open>pipe.c\<close> with its wrapping counters refines a
  list, and \<open>pipewrite\<close> and \<open>piperead\<close> move bytes between user memory and that list.
\<close>

section \<open>Bounded queues\<close>

text \<open>What a ring buffer promises: \<open>content\<close> is the list it stands for.\<close>

locale bounded_queue =
  fixes ok :: "'q \<Rightarrow> bool" and content :: "'q \<Rightarrow> 'a list" and cap :: nat
    and full :: "'q \<Rightarrow> bool" and empty :: "'q \<Rightarrow> bool"
    and put :: "'a \<Rightarrow> 'q \<Rightarrow> 'q" and front :: "'q \<Rightarrow> 'a" and skip :: "'q \<Rightarrow> 'q"
  assumes len: "ok q \<Longrightarrow> length (content q) \<le> cap"
    and full_iff: "ok q \<Longrightarrow> full q \<longleftrightarrow> length (content q) = cap"
    and empty_iff: "ok q \<Longrightarrow> empty q \<longleftrightarrow> content q = []"
    and put_ok: "ok q \<Longrightarrow> \<not> full q \<Longrightarrow> ok (put b q) \<and> content (put b q) = content q @ [b]"
    and skip_ok: "ok q \<Longrightarrow> \<not> empty q \<Longrightarrow> ok (skip q) \<and> front q # content (skip q) = content q"
begin

lemma put_all:
  "ok q \<Longrightarrow> length (content q) + length bs \<le> cap \<Longrightarrow>
   ok (fold put bs q) \<and> content (fold put bs q) = content q @ bs"
proof (induction bs arbitrary: q)
  case (Cons b bs)
  then have "\<not> full q" using full_iff by auto
  with Cons show ?case using put_ok [of q b] by auto
qed simp

lemma put_all_room:
  "ok q \<Longrightarrow> length (content q) + length bs \<le> cap \<Longrightarrow> i < length bs \<Longrightarrow> \<not> full (fold put (take i bs) q)"
  using put_all [of q "take i bs"] full_iff by auto

lemma skip_many:
  "ok q \<Longrightarrow> k \<le> length (content q) \<Longrightarrow>
   ok ((skip ^^ k) q) \<and> content ((skip ^^ k) q) = drop k (content q)"
proof (induction k)
  case (Suc k)
  let ?r = "(skip ^^ k) q"
  have r: "ok ?r" "content ?r = drop k (content q)" using Suc by auto
  then have "\<not> empty ?r" using Suc.prems empty_iff by auto
  then have "ok (skip ?r)" "front ?r # content (skip ?r) = drop k (content q)"
    using skip_ok [of ?r] r by auto
  then show ?case by (metis drop_Suc funpow.simps(2) list.sel(3) o_apply tl_drop)
qed simp

lemma front_many: "ok q \<Longrightarrow> k < length (content q) \<Longrightarrow> \<not> empty ((skip ^^ k) q) \<and> front ((skip ^^ k) q) = content q ! k"
proof -
  assume q: "ok q" "k < length (content q)"
  let ?r = "(skip ^^ k) q"
  have r: "ok ?r" "content ?r = drop k (content q)" using skip_many [of q k] q by auto
  then have e: "\<not> empty ?r" using q(2) empty_iff by auto
  then have "front ?r = hd (drop k (content q))" using skip_ok [of ?r] r by (metis list.sel(1))
  then show ?thesis using e q(2) by (simp add: hd_drop_conv_nth)
qed

end

section \<open>The ring buffer\<close>

definition pipe_len :: "pipe \<Rightarrow> nat" where
  "pipe_len q = unat (pi_nwrite q - pi_nread q)"

definition pipe_ok :: "pipe \<Rightarrow> bool" where
  "pipe_ok q \<longleftrightarrow> pipe_len q \<le> PIPESIZE"

definition pipe_content :: "pipe \<Rightarrow> u8 list" where
  "pipe_content q = map (\<lambda>i. pi_data q ((unat (pi_nread q) + i) mod PIPESIZE)) [0..<pipe_len q]"

text \<open>The counters wrap at a multiple of the buffer's size, so the slot of a counter value is its
  value modulo 512 also across the wrap.\<close>

lemma slot_wrap: "unat ((x + of_nat i :: u32) mod of_nat PIPESIZE) = (unat x + i) mod PIPESIZE"
proof -
  have "unat (x + of_nat i) = (unat x + i) mod 2 ^ 32"
    by (simp add: unat_word_ariths unat_of_nat mod_add_right_eq)
  then have "unat ((x + of_nat i) mod of_nat PIPESIZE) = (unat x + i) mod 2 ^ 32 mod PIPESIZE"
    by (simp add: unat_mod)
  also have "\<dots> = (unat x + i) mod PIPESIZE" by (simp add: mod_mod_cancel)
  finally show ?thesis .
qed

lemma unat_Suc_u32: "unat (x :: u32) < n \<Longrightarrow> n < 2 ^ 32 \<Longrightarrow> unat (x + 1) = Suc (unat x)"
  by (simp add: unat_word_ariths)


lemma length_pipe_content [simp]: "length (pipe_content q) = pipe_len q"
  by (simp add: pipe_content_def)

lemma slot_nread: "unat (pi_nread q mod of_nat PIPESIZE) = unat (pi_nread q) mod PIPESIZE"
  using slot_wrap [of "pi_nread q" 0] by simp

lemma slot_nwrite: "unat (pi_nwrite q mod of_nat PIPESIZE) = (unat (pi_nread q) + pipe_len q) mod PIPESIZE"
  using slot_wrap [of "pi_nread q" "pipe_len q"] by (simp add: pipe_len_def)

lemma pipe_full_iff: "pipe_ok q \<Longrightarrow> pipe_full q \<longleftrightarrow> pipe_len q = PIPESIZE"
proof
  assume "pipe_full q"
  then show "pipe_len q = PIPESIZE" by (simp add: pipe_full_def pipe_len_def)
next
  assume "pipe_len q = PIPESIZE"
  then have "of_nat (unat (pi_nwrite q - pi_nread q)) = (of_nat PIPESIZE :: u32)" by (simp add: pipe_len_def)
  then show "pipe_full q" by (simp add: pipe_full_def algebra_simps)
qed

lemma pipe_put_spec:
  assumes "pipe_ok q" and "\<not> pipe_full q"
  shows "pipe_ok (pipe_put b q) \<and> pipe_content (pipe_put b q) = pipe_content q @ [b]"
proof -
  let ?n = "pipe_len q" and ?a = "unat (pi_nread q)"
  have n: "?n < PIPESIZE" using assms pipe_full_iff by (auto simp: pipe_ok_def)
  have len: "pipe_len (pipe_put b q) = Suc ?n"
    using n unat_Suc_u32 [of "pi_nwrite q - pi_nread q" PIPESIZE] by (simp add: pipe_len_def pipe_put_def diff_add_eq)
  have "pi_data (pipe_put b q) ((?a + i) mod PIPESIZE) =
      (if i = ?n then b else pi_data q ((?a + i) mod PIPESIZE))" if "i \<le> ?n" for i
    using ring_slot_inj [OF that n, of ?a] slot_nwrite [of q] by (simp add: pipe_put_def)
  moreover have "pi_nread (pipe_put b q) = pi_nread q" by (simp add: pipe_put_def)
  ultimately have "pipe_content (pipe_put b q) = pipe_content q @ [b]"
    unfolding pipe_content_def len by simp
  then show ?thesis using len n by (simp add: pipe_ok_def)
qed

lemma pipe_skip_spec:
  assumes "pipe_ok q" and "\<not> pipe_empty q"
  shows "pipe_ok (pipe_skip q) \<and> pipe_head q # pipe_content (pipe_skip q) = pipe_content q"
proof -
  let ?d = "pi_nwrite q - pi_nread q"
  have d: "?d \<noteq> 0" using assms(2) by (auto simp: pipe_empty_def)
  have e: "pi_nwrite (pipe_skip q) - pi_nread (pipe_skip q) = ?d - 1" by (simp add: pipe_skip_def)
  have "0 < unat ?d" using d by (simp add: unat_gt_0)
  then have len: "pipe_len q = Suc (pipe_len (pipe_skip q))"
    using unat_minus_one [OF d] unfolding pipe_len_def e by linarith
  have nr: "unat (pi_nread q + 1 :: u32) mod PIPESIZE = (unat (pi_nread q) + 1) mod PIPESIZE"
    using slot_wrap [of "pi_nread q" 1] by (simp add: unat_mod)
  have "(unat (pi_nread (pipe_skip q)) + i) mod PIPESIZE = (unat (pi_nread q) + Suc i) mod PIPESIZE" for i
    using nr by (simp add: pipe_skip_def) (metis mod_add_left_eq add_Suc_shift Suc_eq_plus1 add.assoc)
  moreover have "pi_data (pipe_skip q) = pi_data q" by (simp add: pipe_skip_def)
  ultimately have "pipe_head q # pipe_content (pipe_skip q) = pipe_content q"
    unfolding pipe_content_def len upt_conv_Cons [OF zero_less_Suc] map_Suc_upt [symmetric]
    by (simp add: pipe_head_def slot_nread [simplified])
  then show ?thesis using len assms(1) by (simp add: pipe_ok_def)
qed

interpretation pq: bounded_queue pipe_ok pipe_content PIPESIZE pipe_full pipe_empty pipe_put pipe_head pipe_skip
proof
  show "pipe_ok q \<Longrightarrow> length (pipe_content q) \<le> PIPESIZE" for q by (simp add: pipe_ok_def)
  show "pipe_ok q \<Longrightarrow> pipe_full q \<longleftrightarrow> length (pipe_content q) = PIPESIZE" for q by (simp add: pipe_full_iff)
  show "pipe_ok q \<Longrightarrow> pipe_empty q \<longleftrightarrow> pipe_content q = []" for q
    by (auto simp: pipe_empty_def pipe_content_def pipe_len_def unat_eq_0)
qed (simp_all add: pipe_put_spec pipe_skip_spec)


section \<open>Inside the critical section\<close>

lemma cur_pgdir_with_lock [simp]: "cpu_index s = Some c \<Longrightarrow> cur_pgdir (with_lock c L s) = cur_pgdir s"
  by (simp add: cur_pgdir_def) (simp add: with_lock_def)

lemma with_lock_sel [simp]:
  "mem (with_lock c L s) = mem s" "pipes (with_lock c L s) = pipes s" "ptable (with_lock c L s) = ptable s"
  by (simp_all add: with_lock_def)

lemma upd_pipe_app [simp]: "upd_pipe a f s w = Done () (s\<lparr>pipes := (pipes s)(a := f (pipes s a))\<rparr>) w"
  by (simp add: upd_pipe_def)

lemma pipe_wait_room_ok: "\<not> pipe_full (pipes s a) \<Longrightarrow> pipe_wait_room a s w = Done False s w"
  by (simp add: pipe_wait_room_def)

text \<open>One byte of \<open>pipewrite\<close>, and all of them.\<close>

lemma pipewrite_byte_exec:
  assumes "filled (mem t) (cur_pgdir t) addr n bs" and "i < n" and "\<not> pipe_full (pipes t a)"
  shows "pipewrite_byte a addr i t w = Done None (t\<lparr>pipes := (pipes t)(a := pipe_put (bs ! i) (pipes t a))\<rparr>) w"
proof -
  have "length bs = n" using assms(1) by (rule filled_length)
  then have "hd (slice i 1 bs) = bs ! i" using assms(2) by (simp add: slice_def hd_drop_conv_nth)
  moreover have "vread (addr + of_nat i) 1 t w = Done (slice i 1 bs) t w"
    using assms(2) by (intro vread_filled [OF assms(1)]) simp_all
  ultimately show ?thesis by (simp add: pipewrite_byte_def pipe_wait_room_ok [OF assms(3)])
qed

lemma pipewrite_loop:
  assumes buf: "filled (mem t) (cur_pgdir t) addr n bs" and q: "pipe_ok q" "pipe_len q + n \<le> PIPESIZE"
  shows "i + k = n \<Longrightarrow> kfind k i (pipewrite_byte a addr) (t\<lparr>pipes := (pipes t)(a := fold pipe_put (take i bs) q)\<rparr>) w =
    Done None (t\<lparr>pipes := (pipes t)(a := fold pipe_put bs q)\<rparr>) w"
proof (induction k arbitrary: i)
  case 0
  then show ?case using filled_length [OF buf] by simp
next
  case (Suc k)
  let ?t = "t\<lparr>pipes := (pipes t)(a := fold pipe_put (take i bs) q)\<rparr>"
  have len: "length bs = n" using buf by (rule filled_length)
  have i: "i < length bs" using Suc.prems len by simp
  have "\<not> pipe_full (fold pipe_put (take i bs) q)" using pq.put_all_room [of q bs i] q i len by simp
  then have "pipewrite_byte a addr i ?t w =
      Done None (?t\<lparr>pipes := (pipes ?t)(a := pipe_put (bs ! i) (pipes ?t a))\<rparr>) w"
    using buf i len by (intro pipewrite_byte_exec [of ?t addr n bs]) simp_all
  then have "pipewrite_byte a addr i ?t w = Done None (t\<lparr>pipes := (pipes t)(a := fold pipe_put (take (Suc i) bs) q)\<rparr>) w"
    using i by (simp add: take_Suc_conv_app_nth)
  moreover have "kfind k (Suc i) (pipewrite_byte a addr) (t\<lparr>pipes := (pipes t)(a := fold pipe_put (take (Suc i) bs) q)\<rparr>) w =
      Done None (t\<lparr>pipes := (pipes t)(a := fold pipe_put bs q)\<rparr>) w"
    using Suc.prems by (intro Suc.IH) simp
  ultimately show ?case by (simp only: kfind.simps kbind_app outcome.case option.case)
qed

text \<open>The end of both operations: wake the other side and leave the critical section.\<close>

lemma wakeup_release:
  assumes "cli_ok c s" and "lock_free L s" and "no_drowsy ch s"
    and t: "t = (with_lock c L s)\<lparr>mem := m, pipes := ps\<rparr>"
  shows "kseq (wakeup ch) (kseq (release L) (kret r)) t w =
    Done r (s\<lparr>ptable := upd_range 0 NPROC (woken (Some ch)) (ptable s), mem := m, pipes := ps\<rparr>) w"
proof -
  let ?u = "t\<lparr>ptable := upd_range 0 NPROC (woken (Some ch)) (ptable s)\<rparr>"
  have "wakeup ch t w = Done () ?u w"
    using assms(1,3) wakeup_exec [of c t ch w] by (simp add: t no_drowsy_def)
  moreover have "release L ?u w = Done () (?u\<lparr>locks := locks s, eflags_if := eflags_if s, cpus := cpus s\<rparr>) w"
    using assms(1,2) by (intro release_ok) (simp_all add: t cli_okD)
  moreover have "?u\<lparr>locks := locks s, eflags_if := eflags_if s, cpus := cpus s\<rparr> =
      s\<lparr>ptable := upd_range 0 NPROC (woken (Some ch)) (ptable s), mem := m, pipes := ps\<rparr>"
    by (simp add: t with_lock_def kernel_order)
  ultimately show ?thesis by simp
qed


lemma nat_sint_small: "unat (n :: u32) < 2 ^ 31 \<Longrightarrow> nat (sint n) = unat n"
  using sint_neg_u32 [of n] nat_abs_sint_pos [of n] by simp

lemma pipewrite_exec:
  assumes s: "cli_ok c s" "lock_free (L_pipe a) s" "no_drowsy (Ch_nread a) s"
    and buf: "filled (mem s) (cur_pgdir s) addr (unat n) bs"
    and q: "pipe_ok (pipes s a)" "pipe_len (pipes s a) + unat n \<le> PIPESIZE"
  shows "pipewrite a addr n s w = Done n (s\<lparr>ptable := upd_range 0 NPROC (woken (Some (Ch_nread a))) (ptable s),
      pipes := (pipes s)(a := fold pipe_put bs (pipes s a))\<rparr>) w"
proof -
  let ?t = "with_lock c (L_pipe a) s" and ?ps = "(pipes s)(a := fold pipe_put bs (pipes s a))"
  have c: "cpu_index s = Some c" using s(1) by (rule cli_okD)
  have "kfind (unat n) 0 (pipewrite_byte a addr) (?t\<lparr>pipes := (pipes ?t)(a := fold pipe_put (take 0 bs) (pipes s a))\<rparr>) w =
      Done None (?t\<lparr>pipes := (pipes ?t)(a := fold pipe_put bs (pipes s a))\<rparr>) w"
    using buf q c by (intro pipewrite_loop) simp_all
  then have loop: "kfind (unat n) 0 (pipewrite_byte a addr) ?t w = Done None (?t\<lparr>mem := mem s, pipes := ?ps\<rparr>) w"
    by (simp add: with_lock_def)
  have "nat (sint n) = unat n" using q(2) by (intro nat_sint_small) simp
  then have "pipewrite a addr n s w =
      kseq (wakeup (Ch_nread a)) (kseq (release (L_pipe a)) (kret n)) (?t\<lparr>mem := mem s, pipes := ?ps\<rparr>) w"
    using acquire_ok [OF s(1,2), of w] loop by (simp add: pipewrite_def)
  also have "\<dots> = Done n (s\<lparr>ptable := upd_range 0 NPROC (woken (Some (Ch_nread a))) (ptable s),
      mem := mem s, pipes := ?ps\<rparr>) w"
    using s by (intro wakeup_release) simp_all
  finally show ?thesis by simp
qed

text \<open>The loop of \<open>piperead\<close> moves \<open>k\<close> bytes into the buffer at \<open>addr\<close>.\<close>

lemma piperead_loop_exec:
  assumes "i + k = n" and "filled (mem t) (cur_pgdir t) addr n xs" and "pipe_ok (pipes t a)"
    and "j = min k (pipe_len (pipes t a))"
  shows "\<exists>m'. piperead_loop k i a addr t w =
      Done (of_nat (i + j)) (t\<lparr>mem := m', pipes := (pipes t)(a := (pipe_skip ^^ j) (pipes t a))\<rparr>) w \<and>
    filled m' (cur_pgdir t) addr n (splice i (take j (pipe_content (pipes t a))) xs) \<and>
    wrote (mem t) (cur_pgdir t) addr n m'"
  using assms
proof (induction k arbitrary: i t xs j)
  case 0
  then show ?case by (intro exI [of _ "mem t"]) (simp add: splice_def)
next
  case (Suc k)
  show ?case
  proof (cases "pipe_empty (pipes t a)")
    case True
    then have "pipe_len (pipes t a) = 0" using pq.empty_iff [OF Suc.prems(3)] by (metis length_0_conv length_pipe_content)
    with True Suc.prems show ?thesis by (intro exI [of _ "mem t"]) (simp add: splice_def)
  next
    case False
    let ?q = "pipes t a"
    let ?b = "pipe_head ?q"
    have sk: "pipe_ok (pipe_skip ?q)" "?b # pipe_content (pipe_skip ?q) = pipe_content ?q"
      using pipe_skip_spec [OF Suc.prems(3) False] by auto
    have len: "pipe_len ?q = Suc (pipe_len (pipe_skip ?q))"
      using arg_cong [OF sk(2), of length] by simp
    obtain m1 where m1: "vwrite_list (cur_pgdir t) (addr + of_nat i) [?b] (mem t) = Some m1"
        "filled m1 (cur_pgdir t) addr n (splice i [?b] xs)" "wrote (mem t) (cur_pgdir t) addr n m1"
      using vwrite_filled [OF Suc.prems(2), of "addr + of_nat i" i "[?b]"] Suc.prems(1) by auto
    let ?t = "t\<lparr>mem := m1, pipes := (pipes t)(a := pipe_skip ?q)\<rparr>"
    define j' where "j' = min k (pipe_len (pipe_skip ?q))"
    have j: "j = Suc j'" using Suc.prems(4) len by (simp add: j'_def)
    have ih: "Suc i + k = n" "filled (mem ?t) (cur_pgdir ?t) addr n (splice i [?b] xs)"
        "pipe_ok (pipes ?t a)" "j' = min k (pipe_len (pipes ?t a))"
      using m1(2) sk(1) Suc.prems(1) by (simp_all add: j'_def)
    obtain m' where m': "piperead_loop k (Suc i) a addr ?t w =
        Done (of_nat (Suc i + j')) (?t\<lparr>mem := m', pipes := (pipes ?t)(a := (pipe_skip ^^ j') (pipes ?t a))\<rparr>) w"
        "filled m' (cur_pgdir ?t) addr n (splice (Suc i) (take j' (pipe_content (pipes ?t a))) (splice i [?b] xs))"
        "wrote (mem ?t) (cur_pgdir ?t) addr n m'"
      using Suc.IH [OF ih] by blast
    have "piperead_loop (Suc k) i a addr t w = piperead_loop k (Suc i) a addr ?t w"
      using False m1(1) by (simp add: kernel_order)
    moreover have "splice (Suc i) (take j' (pipe_content (pipe_skip ?q))) (splice i [?b] xs) =
        splice i (take j (pipe_content ?q)) xs"
    proof -
      have "take j (pipe_content ?q) = ?b # take j' (pipe_content (pipe_skip ?q))"
        unfolding j sk(2) [symmetric] by simp
      moreover have "length xs = n" using Suc.prems(2) by (rule filled_length)
      ultimately show ?thesis
        using Suc.prems(1) splice_Cons [of i "take j' (pipe_content (pipe_skip ?q))" xs ?b]
        by (simp add: j'_def splice_def upd_conv_take_nth_drop)
    qed
    ultimately show ?thesis
      using m' wrote_trans [OF m1(3)] unfolding j
      by (intro exI [of _ m']) (simp add: funpow_swap1, simp add: fun_upd_def)
  qed
qed


lemma piperead_exec:
  assumes s: "cli_ok c s" "lock_free (L_pipe a) s" "no_drowsy (Ch_nwrite a) s"
    and buf: "filled (mem s) (cur_pgdir s) addr (unat n) xs" and n: "unat n < 2 ^ 31"
    and q: "pipe_ok (pipes s a)" "\<not> (pipe_empty (pipes s a) \<and> pi_writeopen (pipes s a))"
    and k: "k = min (unat n) (pipe_len (pipes s a))"
  shows "\<exists>m'. piperead a addr n s w = Done (of_nat k) (s\<lparr>ptable := upd_range 0 NPROC (woken (Some (Ch_nwrite a))) (ptable s),
        mem := m', pipes := (pipes s)(a := (pipe_skip ^^ k) (pipes s a))\<rparr>) w \<and>
    filled m' (cur_pgdir s) addr (unat n) (splice 0 (take k (pipe_content (pipes s a))) xs) \<and>
    wrote (mem s) (cur_pgdir s) addr (unat n) m'"
proof -
  let ?t = "with_lock c (L_pipe a) s" and ?ps = "(pipes s)(a := (pipe_skip ^^ k) (pipes s a))"
  have c: "cpu_index s = Some c" using s(1) by (rule cli_okD)
  have t: "0 + unat n = unat n" "filled (mem ?t) (cur_pgdir ?t) addr (unat n) xs" "pipe_ok (pipes ?t a)"
      "k = min (unat n) (pipe_len (pipes ?t a))"
    using buf c q k by simp_all
  obtain m' where m': "piperead_loop (unat n) 0 a addr ?t w = Done (of_nat k) (?t\<lparr>mem := m', pipes := ?ps\<rparr>) w"
      "filled m' (cur_pgdir s) addr (unat n) (splice 0 (take k (pipe_content (pipes s a))) xs)"
      "wrote (mem s) (cur_pgdir s) addr (unat n) m'"
    using piperead_loop_exec [OF t, of w] c by auto
  have "pipe_wait_data a ?t w = Done False ?t w" using q(2) by (auto simp: pipe_wait_data_def)
  then have "piperead a addr n s w =
      kseq (wakeup (Ch_nwrite a)) (kseq (release (L_pipe a)) (kret (of_nat k))) (?t\<lparr>mem := m', pipes := ?ps\<rparr>) w"
    using acquire_ok [OF s(1,2), of w] m'(1) nat_sint_small [OF n] by (simp add: piperead_def)
  also have "\<dots> = Done (of_nat k) (s\<lparr>ptable := upd_range 0 NPROC (woken (Some (Ch_nwrite a))) (ptable s),
      mem := m', pipes := ?ps\<rparr>) w"
    using s by (intro wakeup_release) simp_all
  finally show ?thesis using m'(2,3) by blast
qed

text \<open>Giving up: the lock is released and nothing else has changed.\<close>

lemma release_back:
  assumes "cli_ok c s" and "lock_free L s"
  shows "kseq (release L) (kret r) (with_lock c L s) w = Done r s w"
proof -
  have "release L (with_lock c L s) w =
      Done () ((with_lock c L s)\<lparr>locks := locks s, eflags_if := eflags_if s, cpus := cpus s\<rparr>) w"
    using assms by (intro release_ok) (simp_all add: cli_okD)
  moreover have "(with_lock c L s)\<lparr>locks := locks s, eflags_if := eflags_if s, cpus := cpus s\<rparr> = s"
    by (simp add: with_lock_def kernel_order)
  ultimately show ?thesis by simp
qed

lemma cur_killed_with_lock: "cur_killed (with_lock c L s) = cur_killed s"
proof -
  have "c_proc (cpus (with_lock c L s) i) = c_proc (cpus s i)" for i by (simp add: with_lock_def)
  moreover have "ptable (with_lock c L s) = ptable s" by (simp add: with_lock_def)
  ultimately show ?thesis by (cases "cpu_index s") (auto simp: cur_killed_def split: option.split)
qed

lemma pipewrite_gives_up:
  assumes s: "cli_ok c s" "lock_free (L_pipe a) s"
    and q: "pipe_full (pipes s a)" "\<not> pi_readopen (pipes s a) \<or> cur_killed s" and n: "0 < unat n" "unat n < 2 ^ 31"
  shows "pipewrite a addr n s w = Done minus1 s w"
proof -
  let ?t = "with_lock c (L_pipe a) s"
  obtain k where k: "nat (sint n) = Suc k" using n nat_sint_small by (metis gr0_conv_Suc)
  have "pipe_wait_room a ?t w = Done True ?t w"
    using q by (auto simp: pipe_wait_room_def cur_killed_with_lock)
  then have "kfind (Suc k) 0 (pipewrite_byte a addr) ?t w = Done (Some minus1) s w"
    using release_back [OF s, of "Some minus1" w] by (simp add: pipewrite_byte_def)
  then show ?thesis using acquire_ok [OF s, of w] unfolding pipewrite_def k by simp
qed

lemma piperead_gives_up:
  assumes s: "cli_ok c s" "lock_free (L_pipe a) s"
    and q: "pipe_empty (pipes s a)" "pi_writeopen (pipes s a)" "cur_killed s"
  shows "piperead a addr n s w = Done minus1 s w"
proof -
  let ?t = "with_lock c (L_pipe a) s"
  have "pipe_wait_data a ?t w = Done True ?t w"
    using q by (auto simp: pipe_wait_data_def cur_killed_with_lock)
  then show ?thesis using acquire_ok [OF s, of w] release_back [OF s, of minus1 w] unfolding piperead_def by simp
qed

section \<open>Properties\<close>

text \<open>C7. The ring buffer of a pipe, with its two wrapping 32-bit counters, refines a bounded queue of
  bytes: as long as the counters are at most 512 apart, \<open>pipe_content\<close> is the list of the bytes
  written and not yet read. The test for a full and for an empty buffer are exact, storing a byte
  appends it, reading takes the oldest and keeps the rest, and both keep the distance; so writing
  \<open>bs\<close> into room enough and then reading as many bytes as the pipe holds gives back what was
  there followed by \<open>bs\<close>, in order, also when the counters wrap in between.\<close>

theorem pipe_refines_queue:
  assumes "pipe_ok q"
  shows "(pipe_full q \<longleftrightarrow> length (pipe_content q) = PIPESIZE) \<and> (pipe_empty q \<longleftrightarrow> pipe_content q = []) \<and>
    (\<not> pipe_full q \<longrightarrow> pipe_ok (pipe_put b q) \<and> pipe_content (pipe_put b q) = pipe_content q @ [b]) \<and>
    (\<not> pipe_empty q \<longrightarrow> pipe_ok (pipe_skip q) \<and> pipe_content q = pipe_head q # pipe_content (pipe_skip q)) \<and>
    (length (pipe_content q) + length bs \<le> PIPESIZE \<longrightarrow>
      map (\<lambda>i. pipe_head ((pipe_skip ^^ i) (fold pipe_put bs q))) [0..<length (pipe_content q) + length bs] =
      pipe_content q @ bs)"
proof (intro conjI impI)
  assume room: "length (pipe_content q) + length bs \<le> PIPESIZE"
  let ?r = "fold pipe_put bs q"
  have r: "pipe_ok ?r" "pipe_content ?r = pipe_content q @ bs" using pq.put_all [OF assms room] by auto
  have "pipe_head ((pipe_skip ^^ i) ?r) = (pipe_content q @ bs) ! i" if "i < length (pipe_content q @ bs)" for i
    using pq.front_many [OF r(1), of i] r(2) that by simp
  then show "map (\<lambda>i. pipe_head ((pipe_skip ^^ i) ?r)) [0..<length (pipe_content q) + length bs] = pipe_content q @ bs"
    by (intro nth_equalityI) simp_all
qed (use assms pq.full_iff pq.empty_iff pipe_put_spec pipe_skip_spec in auto)

text \<open>A pipe about to wrap: both counters at \<open>2^32 - 1\<close>.\<close>

definition wrap_pipe :: pipe where
  "wrap_pipe = pipe0\<lparr>pi_nread := - 1, pi_nwrite := - 1\<rparr>"

theorem pipe_refines_queue_witness:
  "pipe_empty wrap_pipe \<and> map (\<lambda>i. pipe_head ((pipe_skip ^^ i) (fold pipe_put [10, 20, 30] wrap_pipe))) [0..<3] = [10, 20, 30]"
proof -
  have ok: "pipe_ok wrap_pipe" by (simp add: pipe_ok_def pipe_len_def wrap_pipe_def)
  have "pipe_content wrap_pipe = []" by (simp add: pipe_content_def pipe_len_def wrap_pipe_def)
  then show ?thesis using pipe_refines_queue [OF ok, of 0 "[10, 20, 30]"]
    by (simp add: numeral_3_eq_3 upt_rec)
qed



lemma ukernel_filled: "n \<le> 4096 \<Longrightarrow> filled umem 0x80200000 0 n (wview umem 0x80200000 0 n)"
  using umem_window(1) [of 0 n] by (simp add: filled_def)

lemma ukernel_pipe: "pipe_ok (pipes ukernel a)" "pipe_content (pipes ukernel a) = []" "pipe_len (pipes ukernel a) = 0"
    "\<not> pi_writeopen (pipes ukernel a)" "no_drowsy ch ukernel"
  by (simp_all add: ukernel_def pipe_ok_def pipe_content_def pipe_len_def pipe0_def no_drowsy_def proc0_def)


text \<open>C19. \<open>piperead\<close> on a pipe that has data, or whose writer is gone, never sleeps: it moves the
  oldest \<open>min n (length content)\<close> bytes in order to the front of the user buffer, leaves the rest
  of the buffer and of memory alone, keeps the other bytes queued and returns the number moved (0
  at end of file). On an empty pipe with a writer, a killed reader gets -1 and nothing changes.\<close>

theorem piperead_spec:
  assumes s: "cli_ok c s" "lock_free (L_pipe a) s" "no_drowsy (Ch_nwrite a) s"
    and buf: "filled (mem s) (cur_pgdir s) addr (unat n) xs" and n: "unat n < 2 ^ 31"
    and q: "pipe_ok (pipes s a)" and k: "k = min (unat n) (pipe_len (pipes s a))"
  shows "(\<not> (pipe_empty (pipes s a) \<and> pi_writeopen (pipes s a)) \<longrightarrow>
      (\<exists>m' q'. piperead a addr n s w = Done (of_nat k) (s\<lparr>ptable := upd_range 0 NPROC (woken (Some (Ch_nwrite a))) (ptable s),
          mem := m', pipes := (pipes s)(a := q')\<rparr>) w \<and>
        filled m' (cur_pgdir s) addr (unat n) (take k (pipe_content (pipes s a)) @ drop k xs) \<and>
        same_outside (mem s) (cur_pgdir s) addr (unat n) m' \<and>
        pipe_ok q' \<and> pipe_content q' = drop k (pipe_content (pipes s a)))) \<and>
    (pipe_empty (pipes s a) \<and> pi_writeopen (pipes s a) \<and> cur_killed s \<longrightarrow>
      piperead a addr n s w = Done minus1 s w)"
proof (intro conjI impI)
  assume data: "\<not> (pipe_empty (pipes s a) \<and> pi_writeopen (pipes s a))"
  have "splice 0 (take k (pipe_content (pipes s a))) xs = take k (pipe_content (pipes s a)) @ drop k xs"
    using k by (simp add: splice_def)
  moreover have "pipe_ok ((pipe_skip ^^ k) (pipes s a)) \<and>
      pipe_content ((pipe_skip ^^ k) (pipes s a)) = drop k (pipe_content (pipes s a))"
    using k by (intro pq.skip_many [OF q]) simp
  ultimately show "\<exists>m' q'. piperead a addr n s w = Done (of_nat k) (s\<lparr>ptable := upd_range 0 NPROC (woken (Some (Ch_nwrite a))) (ptable s),
          mem := m', pipes := (pipes s)(a := q')\<rparr>) w \<and>
        filled m' (cur_pgdir s) addr (unat n) (take k (pipe_content (pipes s a)) @ drop k xs) \<and>
        same_outside (mem s) (cur_pgdir s) addr (unat n) m' \<and>
        pipe_ok q' \<and> pipe_content q' = drop k (pipe_content (pipes s a))"
    using piperead_exec [OF s buf n q data k, of w] unfolding wrote_def by metis
qed (use piperead_gives_up [OF s(1,2)] in blast)

text \<open>Two bytes queued in a pipe whose writer is gone, read with room for five.\<close>

definition pipe_kernel :: kernel where
  "pipe_kernel = ukernel\<lparr>pipes := (\<lambda>_. pipe0)(0 := fold pipe_put [7, 9] pipe0)\<rparr>"

theorem piperead_spec_witness:
  "\<exists>t. piperead 0 0 5 pipe_kernel [] = Done 2 t [] \<and> pipe_content (pipes t 0) = [] \<and>
     take 2 (wview (mem t) 0x80200000 0 5) = [7, 9]"
proof -
  have c: "cli_ok 0 pipe_kernel" "lock_free (L_pipe 0) pipe_kernel" "no_drowsy (Ch_nwrite 0) pipe_kernel"
      "mem pipe_kernel = umem" "cur_pgdir pipe_kernel = 0x80200000" "pipes pipe_kernel 0 = fold pipe_put [7, 9] pipe0"
      "\<not> pi_writeopen (pipes pipe_kernel 0)"
    using ukernel_pipe(5)
    by (simp_all add: pipe_kernel_def no_drowsy_def cur_pgdir_def P2V_def cpu_index_def ukernel_def pipe0_def pipe_put_def
        cli_ok_def lock_free_def cpu0_def spinlock0_def)
  have "pipe_ok pipe0" "pipe_content pipe0 = []" by (simp_all add: pipe_ok_def pipe_content_def pipe_len_def pipe0_def)
  then have q: "pipe_ok (pipes pipe_kernel 0)" "pipe_content (pipes pipe_kernel 0) = [7, 9]"
    using pq.put_all [of pipe0 "[7, 9]"] c(6) by auto
  then have len: "pipe_len (pipes pipe_kernel 0) = 2" using length_pipe_content [of "pipes pipe_kernel 0"] by simp
  have buf: "filled (mem pipe_kernel) (cur_pgdir pipe_kernel) 0 (unat (5 :: u32)) (wview umem 0x80200000 0 5)"
    using ukernel_filled [of 5] c by simp
  show ?thesis using piperead_spec [OF c(1-3) buf _ q(1) refl, of "[]"] q c len by (auto simp: filled_def)
qed

end
