(* ===== verification/Ulib.thy ===== *)
theory Ulib
  imports Memory "HOL-Library.Char_ord"
begin

text \<open>
  \<^verbatim>\<open>ulib.c\<close>: the string routines of the user programs. A NUL-terminated C string is the list of the
  characters before its NUL; the value of \<open>*s\<close> is the head of the list, or NUL when it is empty.
\<close>

abbreviation NUL :: char where
  "NUL \<equiv> CHR 0x00"

definition deref :: "string \<Rightarrow> char" where
  "deref s = (case s of [] \<Rightarrow> NUL | c # _ \<Rightarrow> c)"

definition is_cstring :: "string \<Rightarrow> bool" where
  "is_cstring s \<longleftrightarrow> NUL \<notin> set s"

section \<open>The code\<close>

text \<open>\<open>strcpy\<close> writes the characters of \<open>t\<close> and a NUL over the front of the buffer \<open>s\<close>.\<close>

primrec strcpy :: "string \<Rightarrow> string \<Rightarrow> string" where
  "strcpy [] s = NUL # drop 1 s"
| "strcpy (c # t) s = c # strcpy t (drop 1 s)"

fun strcmp :: "string \<Rightarrow> string \<Rightarrow> int" where
  "strcmp (a # p) (b # q) = (if a = b then strcmp p q else of_char a - of_char b)"
| "strcmp p q = of_char (deref p) - of_char (deref q)"

text \<open>The string from the first occurrence of \<open>c\<close> on.\<close>

primrec strchr :: "string \<Rightarrow> char \<Rightarrow> string option" where
  "strchr [] c = None"
| "strchr (a # s) c = (if a = c then Some (a # s) else strchr s c)"

primrec atoi_loop :: "u32 \<Rightarrow> string \<Rightarrow> u32" where
  "atoi_loop n [] = n"
| "atoi_loop n (a # s) =
     (if CHR ''0'' \<le> a \<and> a \<le> CHR ''9'' then atoi_loop (n * 10 + of_char a - of_char CHR ''0'') s else n)"

definition atoi :: "string \<Rightarrow> u32" where
  "atoi s = atoi_loop 0 s"

text \<open>\<open>gets\<close> reads one byte at a time; \<open>rd\<close> is what the reads return, in order, until one fails.\<close>

fun gets_loop :: "nat \<Rightarrow> string \<Rightarrow> string \<times> string" where
  "gets_loop 0 rd = ([], rd)"
| "gets_loop (Suc k) [] = ([], [])"
| "gets_loop (Suc k) (c # rd) =
     (if c = CHR 0x0A \<or> c = CHR 0x0D then ([c], rd)
      else let (b, rd') = gets_loop k rd in (c # b, rd'))"

definition gets :: "nat \<Rightarrow> string \<Rightarrow> string \<times> string" where
  "gets lim rd = gets_loop (lim - 1) rd"

text \<open>\<open>memmove\<close> of the user library copies forward only.\<close>

primrec ulib_memmove :: "nat \<Rightarrow> u32 \<Rightarrow> u32 \<Rightarrow> memory \<Rightarrow> memory" where
  "ulib_memmove 0 dst src m = m"
| "ulib_memmove (Suc n) dst src m = ulib_memmove n (dst + 1) (src + 1) (m(dst := m src))"

section \<open>What the routines compute\<close>

lemma strcpy_spec: "strcpy t s = t @ NUL # drop (length t + 1) s"
  by (induction t arbitrary: s) (simp_all add: drop_Suc)

lemma of_char_inj: "(of_char a :: int) = of_char b \<longleftrightarrow> a = b"
  by simp

lemma of_char_NUL: "(of_char c :: int) = 0 \<longleftrightarrow> c = NUL"
  using of_char_inj [of c NUL] by simp

lemma strcmp_eq: "is_cstring p \<Longrightarrow> is_cstring q \<Longrightarrow> strcmp p q = 0 \<longleftrightarrow> p = q"
  by (induction p q rule: strcmp.induct) (auto simp: is_cstring_def deref_def of_char_NUL split: list.splits)

lemma strchr_append: "c \<notin> set a \<Longrightarrow> strchr (a @ c # b) c = Some (c # b)"
  by (induction a) auto

lemma strchr_None: "strchr s c = None \<longleftrightarrow> c \<notin> set s"
  by (induction s) auto

lemma strchr_Some: "strchr s c = Some r \<Longrightarrow> \<exists>a. s = a @ r \<and> c \<notin> set a \<and> r \<noteq> [] \<and> hd r = c"
proof (induction s)
  case (Cons x s)
  then show ?case by (cases "x = c") (auto intro: exI [of _ "x # _"] exI [of _ "[]"])
qed simp

text \<open>A line that fits is read whole, with its line end; one that does not is cut at \<open>lim - 1\<close>.\<close>

definition line_end :: "char \<Rightarrow> bool" where
  "line_end c \<longleftrightarrow> c = CHR 0x0A \<or> c = CHR 0x0D"

lemma gets_line:
  assumes "\<forall>c \<in> set l. \<not> line_end c" and "line_end e" and "length l + 1 < lim"
  shows "gets lim (l @ e # rest) = (l @ [e], rest)"
proof -
  have "gets_loop k (l @ e # rest) = (l @ [e], rest)" if "length l < k" for k
    using that assms(1,2)
  proof (induction l arbitrary: k)
    case Nil
    then obtain j where "k = Suc j" by (cases k) auto
    with Nil show ?case by (auto simp: line_end_def)
  next
    case (Cons c l)
    then obtain j where "k = Suc j" "length l < j" by (cases k) auto
    with Cons show ?case by (auto simp: line_end_def)
  qed
  with assms(3) show ?thesis by (simp add: gets_def)
qed

lemma gets_loop_cut: "\<forall>c \<in> set l. \<not> line_end c \<Longrightarrow> gets_loop (length l) (l @ rest) = (l, rest)"
  by (induction l) (auto simp: line_end_def)

lemma gets_cut: "\<forall>c \<in> set l. \<not> line_end c \<Longrightarrow> lim = length l + 1 \<Longrightarrow> gets lim (l @ rest) = (l, rest)"
  by (simp add: gets_def gets_loop_cut)

end
