(* ===== verification/Grep.thy ===== *)
theory Grep
  imports Ulib
begin

text \<open>
  \<^verbatim>\<open>grep.c\<close>: the regular expression matcher and the loop that feeds it lines from a buffer of 1024
  bytes. The matcher decides exactly the language its patterns denote, and on a regular file with
  lines that fit the buffer \<open>grep\<close> prints exactly the matching lines.
\<close>

section \<open>The code\<close>

function (sequential) matchhere :: "string \<Rightarrow> string \<Rightarrow> bool"
  and matchstar :: "char \<Rightarrow> string \<Rightarrow> string \<Rightarrow> bool" where
  "matchhere [] tx = True"
| "matchhere (c # re) tx =
     (if deref re = CHR ''*'' then matchstar c (tl re) tx
      else if c = CHR ''$'' \<and> re = [] then tx = []
      else case tx of [] \<Rightarrow> False
           | t # ts \<Rightarrow> if c = CHR ''.'' \<or> c = t then matchhere re ts else False)"
| "matchstar c re tx =
     (if matchhere re tx then True
      else case tx of [] \<Rightarrow> False
           | t # ts \<Rightarrow> if t = c \<or> c = CHR ''.'' then matchstar c re ts else False)"
  by pat_completeness auto
termination
  by (relation "measures [\<lambda>x. case x of Inl (re, tx) \<Rightarrow> length re | Inr (c, re, tx) \<Rightarrow> length re,
        \<lambda>x. case x of Inl (re, tx) \<Rightarrow> length tx | Inr (c, re, tx) \<Rightarrow> length tx,
        \<lambda>x. case x of Inl _ \<Rightarrow> 0 | Inr _ \<Rightarrow> 1]") (auto simp: deref_def split: list.splits)

declare matchstar.simps [simp del]

primrec match_at :: "string \<Rightarrow> string \<Rightarrow> bool" where
  "match_at re [] = matchhere re []"
| "match_at re (t # ts) = (if matchhere re (t # ts) then True else match_at re ts)"

definition match :: "string \<Rightarrow> string \<Rightarrow> bool" where
  "match re tx = (if deref re = CHR ''^'' then matchhere (tl re) tx else match_at re tx)"

text \<open>The inner loop over the complete lines from \<open>p\<close> on: what is written, and \<open>p\<close> at the end. The
  buffer is a C string, so a line end behind a NUL is not found.\<close>

definition find_eol :: "string \<Rightarrow> nat option" where
  "find_eol p = (let s = takeWhile (\<lambda>c. c \<noteq> NUL) p in
     case strchr s (CHR 0x0A) of None \<Rightarrow> None | Some q \<Rightarrow> Some (length s - length q))"

function grep_scan :: "string \<Rightarrow> string \<Rightarrow> string \<Rightarrow> string \<times> string" where
  "grep_scan pat p out = (case find_eol p of
     None \<Rightarrow> (out, p)
   | Some i \<Rightarrow> grep_scan pat (drop (i + 1) p) (if match pat (take i p) then out @ take i p @ [CHR 0x0A] else out))"
  by pat_completeness auto
termination
  by (relation "measure (\<lambda>(pat, p, out). length p)")
    (auto simp: find_eol_def Let_def split: option.splits dest!: strchr_Some
      intro!: diff_less length_greater_0_conv [THEN iffD2])

declare grep_scan.simps [simp del]

text \<open>The outer loop: \<open>b\<close> is the front of the buffer up to \<open>m\<close>, \<open>rd\<close> the system call \<open>read\<close> on the
  state \<open>f\<close> of the open file. It ends when a read returns no byte.\<close>

partial_function (option) grep_loop ::
    "('f \<Rightarrow> nat \<Rightarrow> string \<times> 'f) \<Rightarrow> string \<Rightarrow> string \<Rightarrow> 'f \<Rightarrow> string \<Rightarrow> string option" where
  "grep_loop rd pat b f out =
     (let (chunk, f') = rd f (1024 - length b - 1) in
      if chunk = [] then Some out
      else let (out', p) = grep_scan pat (b @ chunk) out in
        grep_loop rd pat (if length p = length (b @ chunk) then [] else p) f' out')"

definition grep :: "('f \<Rightarrow> nat \<Rightarrow> string \<times> 'f) \<Rightarrow> string \<Rightarrow> 'f \<Rightarrow> string option" where
  "grep rd pat f = grep_loop rd pat [] f []"

text \<open>\<open>read\<close> on a regular file returns as many bytes as there are; on a pipe it returns what one
  write has left there, here one chunk at a time.\<close>

definition read_regular :: "string \<Rightarrow> nat \<Rightarrow> string \<times> string" where
  "read_regular f n = (take n f, drop n f)"

fun read_chunks :: "string list \<Rightarrow> nat \<Rightarrow> string \<times> string list" where
  "read_chunks [] n = ([], [])"
| "read_chunks (c # cs) n = (take n c, if length c \<le> n then cs else drop n c # cs)"

section \<open>The language of a pattern\<close>

definition accepts :: "char \<Rightarrow> char \<Rightarrow> bool" where
  "accepts c t \<longleftrightarrow> c = CHR ''.'' \<or> c = t"

datatype item = One char | Many char

text \<open>The items of a pattern and whether it ends in the anchor \<open>$\<close>.\<close>

function parse_re :: "string \<Rightarrow> item list \<times> bool" where
  "parse_re [] = ([], False)"
| "parse_re (c # re) =
     (if deref re = CHR ''*'' then apfst ((#) (Many c)) (parse_re (tl re))
      else if c = CHR ''$'' \<and> re = [] then ([], True)
      else apfst ((#) (One c)) (parse_re re))"
  by pat_completeness auto
termination
  by (relation "measure length") auto

primrec item_lang :: "item \<Rightarrow> string set" where
  "item_lang (One c) = {[t] | t. accepts c t}"
| "item_lang (Many c) = {ts. \<forall>t \<in> set ts. accepts c t}"

primrec items_lang :: "item list \<Rightarrow> string set" where
  "items_lang [] = {[]}"
| "items_lang (i # is) = {u @ v | u v. u \<in> item_lang i \<and> v \<in> items_lang is}"

text \<open>\<open>u\<close>, followed by \<open>v\<close>, is an occurrence of \<open>re\<close>.\<close>

definition occurs :: "string \<Rightarrow> string \<Rightarrow> string \<Rightarrow> bool" where
  "occurs re u v \<longleftrightarrow> u \<in> items_lang (fst (parse_re re)) \<and> (snd (parse_re re) \<longrightarrow> v = [])"

lemma items_lang_One: "u \<in> items_lang (One c # is) \<longleftrightarrow> (\<exists>t u'. u = t # u' \<and> accepts c t \<and> u' \<in> items_lang is)"
proof
  assume "\<exists>t u'. u = t # u' \<and> accepts c t \<and> u' \<in> items_lang is"
  then obtain t u' where "u = [t] @ u'" "accepts c t" "u' \<in> items_lang is" by auto
  then show "u \<in> items_lang (One c # is)" unfolding items_lang.simps item_lang.simps by blast
qed auto

lemma occurs_Nil: "occurs [] u v \<longleftrightarrow> u = []"
  by (simp add: occurs_def)

lemma occurs_star:
  "deref re = CHR ''*'' \<Longrightarrow>
   occurs (c # re) u v \<longleftrightarrow> (\<exists>ts u'. u = ts @ u' \<and> (\<forall>t \<in> set ts. accepts c t) \<and> occurs (tl re) u' v)"
  by (auto simp: occurs_def)

lemma occurs_end: "occurs [CHR ''$''] u v \<longleftrightarrow> u = [] \<and> v = []"
  by (auto simp: occurs_def deref_def)

lemma occurs_one:
  "deref re \<noteq> CHR ''*'' \<Longrightarrow> \<not> (c = CHR ''$'' \<and> re = []) \<Longrightarrow>
   occurs (c # re) u v \<longleftrightarrow> (\<exists>t u'. u = t # u' \<and> accepts c t \<and> occurs re u' v)"
  by (auto simp: occurs_def items_lang_One simp del: items_lang.simps)

lemma star_step:
  "(\<exists>ts u v. t # tx = ts @ u @ v \<and> (\<forall>x \<in> set ts. accepts c x) \<and> P u v) \<longleftrightarrow>
   (\<exists>u v. t # tx = u @ v \<and> P u v) \<or>
   accepts c t \<and> (\<exists>ts u v. tx = ts @ u @ v \<and> (\<forall>x \<in> set ts. accepts c x) \<and> P u v)" (is "?L \<longleftrightarrow> ?A \<or> ?B")
proof
  assume ?L
  then obtain ts u v where *: "t # tx = ts @ u @ v" "\<forall>x \<in> set ts. accepts c x" "P u v" by blast
  show "?A \<or> ?B"
  proof (cases ts)
    case Nil
    with * show ?thesis by auto
  next
    case (Cons x xs)
    with * have "accepts c t" "tx = xs @ u @ v" "\<forall>x \<in> set xs. accepts c x" by auto
    with *(3) show ?thesis by blast
  qed
next
  assume "?A \<or> ?B"
  then show ?L
  proof
    assume ?A
    then show ?L by (metis append_Nil empty_iff empty_set)
  next
    assume ?B
    then obtain ts u v where "accepts c t" "tx = ts @ u @ v" "\<forall>x \<in> set ts. accepts c x" "P u v" by blast
    then show ?L by (intro exI [of _ "t # ts"] exI [of _ u] exI [of _ v]) auto
  qed
qed

lemma one_step:
  "(\<exists>u v. t # ts = u @ v \<and> (\<exists>x u'. u = x # u' \<and> Q x \<and> P u' v)) \<longleftrightarrow> Q t \<and> (\<exists>u v. ts = u @ v \<and> P u v)" (is "?L \<longleftrightarrow> ?R")
proof
  assume ?R
  then obtain u v where "t # ts = (t # u) @ v" "Q t" "P u v" by auto
  then show ?L by blast
next
  assume ?L
  then obtain u v where "ts = u @ v" "Q t" "P u v" by auto
  then show ?R by blast
qed

lemma matchhere_matchstar:
  "matchhere re tx \<longleftrightarrow> (\<exists>u v. tx = u @ v \<and> occurs re u v)"
  "matchstar c re tx \<longleftrightarrow> (\<exists>ts u v. tx = ts @ u @ v \<and> (\<forall>t \<in> set ts. accepts c t) \<and> occurs re u v)"
proof (induction re tx and c re tx rule: matchhere_matchstar.induct)
  case (1 tx)
  then show ?case by (simp add: occurs_Nil)
next
  case (2 c re tx)
  consider (star) "deref re = CHR ''*''" | (dollar) "deref re \<noteq> CHR ''*''" "c = CHR ''$'' \<and> re = []"
    | (one) "deref re \<noteq> CHR ''*''" "\<not> (c = CHR ''$'' \<and> re = [])" by blast
  then show ?case
  proof cases
    case star
    then have "matchhere (c # re) tx \<longleftrightarrow> (\<exists>ts u v. tx = ts @ u @ v \<and> (\<forall>t \<in> set ts. accepts c t) \<and> occurs (tl re) u v)"
      using 2(1) by simp
    also have "\<dots> \<longleftrightarrow> (\<exists>u v. tx = u @ v \<and> occurs (c # re) u v)"
      unfolding occurs_star [OF star] by (auto simp flip: append_assoc)
    finally show ?thesis .
  next
    case dollar
    then show ?thesis by (simp add: occurs_end)
  next
    case one
    show ?thesis
    proof (cases tx)
      case Nil
      then show ?thesis using one by (simp add: occurs_one)
    next
      case (Cons t ts)
      then show ?thesis using 2(2) [OF one Cons] one
        unfolding occurs_one [OF one] Cons one_step by (auto simp: accepts_def)
    qed
  qed
next
  case (3 c re tx)
  show ?case
  proof (cases tx)
    case Nil
    then show ?thesis using 3(1) by (simp add: matchstar.simps [of c re "[]"])
  next
    case (Cons t ts)
    have star: "matchstar c re (t # ts) \<longleftrightarrow> matchhere re (t # ts) \<or> accepts c t \<and> matchstar c re ts"
      by (auto simp: matchstar.simps [of c re "t # ts"] accepts_def)
    show ?thesis
    proof (cases "matchhere re (t # ts)")
      case True
      then show ?thesis using 3(1) unfolding Cons star_step star by simp
    next
      case False
      moreover have "accepts c t \<Longrightarrow> matchstar c re ts \<longleftrightarrow>
          (\<exists>tsa u v. ts = tsa @ u @ v \<and> (\<forall>t \<in> set tsa. accepts c t) \<and> occurs re u v)"
        using 3(2) [OF _ Cons] False Cons by (auto simp: accepts_def)
      ultimately show ?thesis using 3(1) unfolding Cons star_step star by blast
    qed
  qed
qed

lemma match_at_iff: "match_at re tx \<longleftrightarrow> (\<exists>pre u v. tx = pre @ u @ v \<and> occurs re u v)"
proof (induction tx)
  case (Cons t ts)
  have "(\<exists>pre u v. t # ts = pre @ u @ v \<and> occurs re u v) \<longleftrightarrow>
      (\<exists>u v. t # ts = u @ v \<and> occurs re u v) \<or> (\<exists>pre u v. ts = pre @ u @ v \<and> occurs re u v)"
    by (auto simp: Cons_eq_append_conv) blast+
  then show ?case using matchhere_matchstar(1) [of re "t # ts"] Cons by auto
qed (simp add: matchhere_matchstar(1))

section \<open>Lines\<close>

text \<open>The complete lines of a text, without their line ends, and what follows the last one.\<close>

primrec lines_of :: "string \<Rightarrow> string list \<times> string" where
  "lines_of [] = ([], [])"
| "lines_of (c # s) = (case lines_of s of (ls, r) \<Rightarrow>
     if c = CHR 0x0A then ([] # ls, r)
     else case ls of [] \<Rightarrow> ([], c # r) | l # ls' \<Rightarrow> ((c # l) # ls', r))"

definition show_lines :: "string list \<Rightarrow> string" where
  "show_lines ls = concat (map (\<lambda>l. l @ [CHR 0x0A]) ls)"

lemma show_lines_simps [simp]:
  "show_lines [] = []" "show_lines (l # ls) = l @ CHR 0x0A # show_lines ls"
  "show_lines (ls @ ms) = show_lines ls @ show_lines ms"
  by (simp_all add: show_lines_def)

lemma lines_of_no_eol: "CHR 0x0A \<notin> set s \<Longrightarrow> lines_of s = ([], s)"
  by (induction s) auto

lemma lines_of_eol: "CHR 0x0A \<notin> set l \<Longrightarrow> lines_of (l @ CHR 0x0A # s) = (l # fst (lines_of s), snd (lines_of s))"
  by (induction l) (auto split: prod.splits)

lemma split_eol:
  obtains "CHR 0x0A \<notin> set s" | l r where "s = l @ CHR 0x0A # r" "CHR 0x0A \<notin> set l"
  using split_list_first [of "CHR 0x0A" s] by blast

text \<open>Lines can be split off in pieces.\<close>

lemma lines_of_append:
  "lines_of (s @ t) = (fst (lines_of s) @ fst (lines_of (snd (lines_of s) @ t)), snd (lines_of (snd (lines_of s) @ t)))"
proof (induction s rule: measure_induct_rule [where f = length])
  case (less s)
  show ?case
  proof (cases rule: split_eol [of s])
    case 1
    then show ?thesis by (simp add: lines_of_no_eol)
  next
    case (2 l r)
    then show ?thesis using less.IH [of r] lines_of_eol [of l "r @ t"] lines_of_eol [of l r] by simp
  qed
qed

lemma lines_of_rest: "CHR 0x0A \<notin> set (snd (lines_of s))" "length (snd (lines_of s)) \<le> length s"
  by (induction s) (auto split: prod.splits list.splits)

lemma lines_of_join: "show_lines (fst (lines_of s)) @ snd (lines_of s) = s"
  by (induction s) (auto split: prod.splits list.splits)

lemma lines_of_some: "fst (lines_of s) = [] \<Longrightarrow> CHR 0x0A \<notin> set s \<and> snd (lines_of s) = s"
proof (cases rule: split_eol [of s])
  case (2 l r)
  assume "fst (lines_of s) = []"
  with 2 show ?thesis by (simp add: lines_of_eol)
qed (simp add: lines_of_no_eol)

lemma find_eol_none: "is_cstring s \<Longrightarrow> CHR 0x0A \<notin> set s \<Longrightarrow> find_eol s = None"
  by (auto simp: find_eol_def Let_def is_cstring_def strchr_None [THEN iffD2] dest!: set_takeWhileD
      split: option.splits) (metis option.distinct(1) set_takeWhileD strchr_None)

lemma takeWhile_cstring: "is_cstring s \<Longrightarrow> takeWhile (\<lambda>c. c \<noteq> NUL) s = s"
  by (auto simp: is_cstring_def takeWhile_eq_all_conv)

lemma find_eol_some: "is_cstring (l @ CHR 0x0A # r) \<Longrightarrow> CHR 0x0A \<notin> set l \<Longrightarrow> find_eol (l @ CHR 0x0A # r) = Some (length l)"
  by (simp add: find_eol_def takeWhile_cstring strchr_append)

lemma is_cstring_append [simp]: "is_cstring (a @ b) \<longleftrightarrow> is_cstring a \<and> is_cstring b"
  by (auto simp: is_cstring_def)

lemma grep_scan_spec:
  "is_cstring p \<Longrightarrow> grep_scan pat p out =
     (out @ show_lines (filter (match pat) (fst (lines_of p))), snd (lines_of p))"
proof (induction p arbitrary: out rule: measure_induct_rule [where f = length])
  case (less p)
  show ?case
  proof (cases rule: split_eol [of p])
    case 1
    then show ?thesis using less.prems find_eol_none [of p] by (simp add: lines_of_no_eol grep_scan.simps [of pat p])
  next
    case (2 l r)
    then have "is_cstring r" using less.prems by (simp add: is_cstring_def)
    moreover have "find_eol p = Some (length l)" using 2 less.prems find_eol_some by simp
    ultimately show ?thesis using less.IH [of r] 2 lines_of_eol [of l r]
      by (simp add: grep_scan.simps [of pat "l @ CHR 0x0A # r"])
  qed
qed

section \<open>Properties\<close>

text \<open>C31. The matcher terminates on every pattern and text, and answers yes exactly when the text
  contains an occurrence of the pattern: a factor in the language of the pattern's items (a
  character, \<open>.\<close> for any character, either of them starred), at the start of the text if the pattern
  begins with \<open>^\<close> and at its end if it ends in \<open>$\<close>.\<close>

theorem match_correct:
  "match re tx \<longleftrightarrow>
     (if deref re = CHR ''^'' then \<exists>u v. tx = u @ v \<and> occurs (tl re) u v
      else \<exists>pre u v. tx = pre @ u @ v \<and> occurs re u v)"
  by (simp add: match_def matchhere_matchstar(1) match_at_iff)

text \<open>The loop on a regular file. The buffer holds the unfinished line.\<close>

definition fits :: "string \<Rightarrow> bool" where
  "fits s \<longleftrightarrow> (\<forall>l \<in> set (fst (lines_of s)). length l \<le> 1022) \<and> length (snd (lines_of s)) \<le> 1022"

lemma fits_append:
  assumes "fits (s @ t)"
  shows "fits (snd (lines_of s) @ t)" and "t \<noteq> [] \<Longrightarrow> length (snd (lines_of s)) \<le> 1022"
proof -
  let ?r = "snd (lines_of s)"
  show *: "fits (?r @ t)" using assms lines_of_append [of s t] by (simp add: fits_def)
  assume "t \<noteq> []"
  show "length ?r \<le> 1022"
  proof (cases rule: split_eol [of t])
    case 1
    then have "lines_of (?r @ t) = ([], ?r @ t)" using lines_of_rest(1) by (intro lines_of_no_eol) simp
    with * show ?thesis by (simp add: fits_def)
  next
    case (2 l r)
    then have "lines_of ((?r @ l) @ CHR 0x0A # r) = ((?r @ l) # fst (lines_of r), snd (lines_of r))"
      using lines_of_rest(1) by (intro lines_of_eol) simp
    with * 2 show ?thesis by (simp add: fits_def)
  qed
qed

lemma grep_loop_eof: "grep_loop read_regular pat b [] out = Some out"
  by (subst grep_loop.simps) (simp add: read_regular_def)

lemma grep_loop_spec:
  assumes "is_cstring (b @ f)" and "fits (b @ f)" and "CHR 0x0A \<notin> set b"
  shows "grep_loop read_regular pat b f out =
    Some (out @ show_lines (filter (match pat) (fst (lines_of (b @ f)))))"
  using assms
proof (induction f arbitrary: b out rule: measure_induct_rule [where f = length])
  case (less f)
  show ?case
  proof (cases "f = []")
    case True
    then show ?thesis using less.prems(3) by (simp add: grep_loop_eof lines_of_no_eol)
  next
    case False
    let ?n = "1024 - length b - 1"
    let ?c = "take ?n f" and ?f = "drop ?n f"
    have "lines_of b = ([], b)" using less.prems(3) by (rule lines_of_no_eol)
    then have b: "length b \<le> 1022" using fits_append(2) [of b f] less.prems(2) False by simp
    then have n: "0 < ?n" by simp
    have "0 < length f" using False by simp
    with n have c: "length ?f < length f" by (simp only: length_drop diff_less)
    have c0: "?c \<noteq> []" using n False by auto
    have all: "b @ f = (b @ ?c) @ ?f" by simp
    let ?r = "snd (lines_of (b @ ?c))" and ?ls = "fst (lines_of (b @ ?c))"
    have scan: "grep_scan pat (b @ ?c) out = (out @ show_lines (filter (match pat) ?ls), ?r)"
      using less.prems(1) all by (intro grep_scan_spec) (metis is_cstring_append)
    have ls: "fst (lines_of (b @ f)) = ?ls @ fst (lines_of (?r @ ?f))"
      using lines_of_append [of "b @ ?c" ?f] by (metis all fst_conv)
    have step: "grep_loop read_regular pat b f out =
        grep_loop read_regular pat (if length ?r = length (b @ ?c) then [] else ?r) ?f
          (out @ show_lines (filter (match pat) ?ls))"
      using c0 scan by (simp add: grep_loop.simps [of _ pat b] read_regular_def del: take_eq_Nil)
    have r: "is_cstring (?r @ ?f)" "fits (?r @ ?f)" "CHR 0x0A \<notin> set ?r"
      using less.prems(1,2) lines_of_join [of "b @ ?c"] lines_of_rest(1) [of "b @ ?c"] fits_append(1) [of "b @ ?c" ?f]
      by (metis all is_cstring_append)+
    show ?thesis
    proof (cases "length ?r = length (b @ ?c)")
      case True
      then have "show_lines ?ls = []" using lines_of_join [of "b @ ?c"] by (metis append_same_eq append_eq_append_conv append_Nil)
      then have ls0: "?ls = []" by (cases ?ls) auto
      have "?f = []"
      proof (rule ccontr)
        assume "?f \<noteq> []"
        have "fits ((b @ ?c) @ ?f)" using less.prems(2) by simp
        from fits_append(2) [OF this \<open>?f \<noteq> []\<close>] have "length ?r \<le> 1022" .
        moreover have "?n < length f" using \<open>?f \<noteq> []\<close> by (metis drop_all not_le)
        then have "length (b @ ?c) = length b + ?n" by simp
        ultimately show False using True b by linarith
      qed
      then have "grep_loop read_regular pat b f out = Some (out @ show_lines (filter (match pat) ?ls))"
        unfolding step if_P [OF True] by (simp only: grep_loop_eof)
      moreover have "fst (lines_of (b @ f)) = ?ls"
        unfolding ls \<open>?f = []\<close> append_Nil2 lines_of_no_eol [OF r(3)] by simp
      ultimately show ?thesis by simp
    next
      case False
      then show ?thesis unfolding step if_not_P [OF False] ls less.IH [OF c r] by simp
    qed
  qed
qed


text \<open>C32. On a regular file without NUL bytes whose lines are at most 1022 characters long, \<open>grep\<close>
  terminates and prints exactly the complete lines that match, in order, however the lines fall
  across the refills of the 1024-byte buffer.\<close>

theorem grep_regular:
  assumes "is_cstring f" and "fits f"
  shows "grep read_regular pat f = Some (show_lines (filter (match pat) (fst (lines_of f))))"
  using grep_loop_spec [of "[]" f pat "[]"] assms by (simp add: grep_def)

theorem grep_regular_witness:
  "grep read_regular ''a*b'' (''xaab'' @ [CHR 0x0A] @ ''c'' @ [CHR 0x0A] @ ''b'' @ [CHR 0x0A]) =
     Some (''xaab'' @ [CHR 0x0A] @ ''b'' @ [CHR 0x0A])"
proof -
  have "is_cstring (''xaab'' @ [CHR 0x0A] @ ''c'' @ [CHR 0x0A] @ ''b'' @ [CHR 0x0A])"
    "fits (''xaab'' @ [CHR 0x0A] @ ''c'' @ [CHR 0x0A] @ ''b'' @ [CHR 0x0A])"
    by code_simp+
  moreover have "show_lines (filter (match ''a*b'')
      (fst (lines_of (''xaab'' @ [CHR 0x0A] @ ''c'' @ [CHR 0x0A] @ ''b'' @ [CHR 0x0A])))) =
      ''xaab'' @ [CHR 0x0A] @ ''b'' @ [CHR 0x0A]"
    by code_simp
  ultimately show ?thesis using grep_regular by metis
qed

text \<open>When a line arrives in two pieces and the first holds no line end, that piece is thrown away
  (\<open>p == buf\<close> resets \<open>m\<close>): the line is not found.\<close>

lemma grep_loses_piece:
  "match ''hello'' ''hello'' \<and> grep read_chunks ''hello'' [''hel'', ''lo'' @ [CHR 0x0A]] = Some []"
proof
  show "match ''hello'' ''hello''" by code_simp
  have "grep_scan ''hello'' ''hel'' [] = ([], ''hel'')" by code_simp
  moreover have "grep_scan ''hello'' (''lo'' @ [CHR 0x0A]) [] = ([], [])" by code_simp
  ultimately show "grep read_chunks ''hello'' [''hel'', ''lo'' @ [CHR 0x0A]] = Some []"
    unfolding grep_def
    by (subst grep_loop.simps, simp, subst grep_loop.simps, simp, subst grep_loop.simps, simp)
qed

end
