(* ===== verification/Uprintf.thy ===== *)
theory Uprintf
  imports Ulib Console_Out
begin

text \<open>
  \<^verbatim>\<open>printf.c\<close>: formatted output of the user programs. What \<open>putc\<close> sends to the file descriptor is
  collected in a list. The words above \<open>fmt\<close> on the stack are \<open>args 0\<close>, \<open>args 1\<close>, ...; \<open>strs a\<close> is
  the C string at address \<open>a\<close> of the process.
\<close>

section \<open>The code\<close>

definition udigit :: "nat \<Rightarrow> char" where
  "udigit d = ''0123456789ABCDEF'' ! d"

definition uprintint_buf :: "u32 \<Rightarrow> nat \<Rightarrow> bool \<Rightarrow> string" where
  "uprintint_buf xx base sg =
     (let neg = sg \<and> sint xx < 0;
          x = if neg then - xx else xx;
          ds = map udigit (digits_rev base (unat x))
      in if neg then ds @ ''-'' else ds)"

definition uprintint :: "u32 \<Rightarrow> nat \<Rightarrow> bool \<Rightarrow> string" where
  "uprintint xx base sg = rev (uprintint_buf xx base sg)"

fun uprintf_conv :: "(nat \<Rightarrow> u32) \<Rightarrow> (u32 \<Rightarrow> string) \<Rightarrow> nat \<Rightarrow> char \<Rightarrow> string \<times> nat" where
  "uprintf_conv args strs ap c =
     (if c = CHR ''d'' then (uprintint (args ap) 10 True, ap + 1)
      else if c = CHR ''x'' \<or> c = CHR ''p'' then (uprintint (args ap) 16 False, ap + 1)
      else if c = CHR ''s'' then (if args ap = 0 then ''(null)'' else strs (args ap), ap + 1)
      else if c = CHR ''c'' then ([char_of (unat (args ap))], ap + 1)
      else if c = CHR ''%'' then (''%'', ap)
      else ([CHR ''%'', c], ap))"

text \<open>The loop over the format; \<open>pct\<close> says that \<open>state\<close> is \<open>'%'\<close>.\<close>

primrec uprintf_loop :: "(nat \<Rightarrow> u32) \<Rightarrow> (u32 \<Rightarrow> string) \<Rightarrow> string \<Rightarrow> bool \<Rightarrow> nat \<Rightarrow> string" where
  "uprintf_loop args strs [] pct ap = []"
| "uprintf_loop args strs (c # fmt) pct ap =
     (if \<not> pct then
        (if c = CHR ''%'' then uprintf_loop args strs fmt True ap else c # uprintf_loop args strs fmt False ap)
      else let (out, ap') = uprintf_conv args strs ap c in out @ uprintf_loop args strs fmt False ap')"

definition uprintf :: "(nat \<Rightarrow> u32) \<Rightarrow> (u32 \<Rightarrow> string) \<Rightarrow> string \<Rightarrow> string" where
  "uprintf args strs fmt = uprintf_loop args strs fmt False 0"

section \<open>Numbers\<close>

lemma udigit_dec: "d < 10 \<Longrightarrow> (of_char (udigit d) :: nat) = 48 + d"
  by (auto simp: udigit_def numeral_eq_Suc less_Suc_eq)

lemma udigit_range: "d < 10 \<Longrightarrow> CHR ''0'' \<le> udigit d \<and> udigit d \<le> CHR ''9''"
  by (simp add: less_eq_char_def udigit_dec)

lemma digits_val_append: "digits_val b (xs @ ys) = digits_val b xs + b ^ length xs * digits_val b ys"
  by (induction xs) (simp_all add: algebra_simps)

lemma udigit_word: "d < 10 \<Longrightarrow> (of_char (udigit d) :: u32) = 48 + of_nat d"
  using arg_cong [OF udigit_dec, of d "of_nat :: nat \<Rightarrow> u32"] by (simp add: of_nat_of_char)

definition no_digit :: "string \<Rightarrow> bool" where
  "no_digit s \<longleftrightarrow> \<not> (CHR ''0'' \<le> deref s \<and> deref s \<le> CHR ''9'')"

lemma atoi_loop_digits:
  "\<forall>d \<in> set ds. d < 10 \<Longrightarrow> no_digit rest \<Longrightarrow>
   atoi_loop n (map udigit ds @ rest) = n * 10 ^ length ds + of_nat (digits_val 10 (rev ds))"
proof (induction ds arbitrary: n)
  case Nil
  then show ?case by (cases rest) (auto simp: no_digit_def deref_def)
next
  case (Cons d ds)
  have "n * 10 + of_char (udigit d) - of_char CHR ''0'' = n * 10 + of_nat d"
    using Cons.prems(1) by (simp add: udigit_word)
  then show ?case
    using Cons udigit_range [of d] by (simp add: digits_val_append algebra_simps)
qed

lemma uprintint_pos: "\<not> (sg \<and> sint xx < 0) \<Longrightarrow> uprintint xx base sg = map udigit (rev (digits_rev base (unat xx)))"
  by (auto simp: uprintint_def uprintint_buf_def rev_map)

lemma atoi_uprintint:
  assumes "0 \<le> sint xx \<or> \<not> sg" and "no_digit rest"
  shows "atoi (uprintint xx 10 sg @ rest) = xx"
proof -
  have "\<forall>d \<in> set (rev (digits_rev 10 (unat xx))). d < 10" using digits_rev_bound [of 10] by simp
  then show ?thesis
    using assms atoi_loop_digits [of "rev (digits_rev 10 (unat xx))" rest 0]
    by (auto simp: atoi_def uprintint_pos digits_val_rev)
qed

lemma uprintf_literal:
  "CHR ''%'' \<notin> set l \<Longrightarrow> uprintf_loop args strs (l @ fmt) False ap = l @ uprintf_loop args strs fmt False ap"
  by (induction l) auto

section \<open>Properties\<close>



end
