(* ===== verification/Sh.thy ===== *)
theory Sh
  imports Ulib
begin

text \<open>
  \<^verbatim>\<open>sh.c\<close>: the shell. A command line is a C string \<open>b\<close>; pointers into it are offsets, and the pointer
  \<open>es\<close> to its end is \<open>length b\<close>. The tree of \<open>struct cmd\<close> is a datatype whose strings are pairs of
  offsets, start and end. The parser is shown to decide the grammar of command lines, and the
  descriptors of the programs that \<open>runcmd\<close> starts are shown to be those the command asks for.
\<close>

section \<open>Commands\<close>

definition MAXARGS :: nat where
  "MAXARGS = 10"

definition O_RDONLY :: nat where "O_RDONLY = 0x000"
definition O_WRONLY :: nat where "O_WRONLY = 0x001"
definition O_CREATE :: nat where "O_CREATE = 0x200"

datatype cmd =
    EXEC "(nat \<times> nat) list"
  | REDIR cmd nat nat nat nat \<comment> \<open>\<open>cmd\<close>, \<open>file\<close>, \<open>efile\<close>, \<open>mode\<close>, \<open>fd\<close>\<close>
  | PIPE cmd cmd
  | LIST cmd cmd
  | BACK cmd

text \<open>\<open>parseexec\<close> keeps a pointer to the \<open>execcmd\<close> it has made while \<open>parseredirs\<close> wraps it: an argument
  is stored in the innermost command.\<close>

primrec add_arg :: "nat \<Rightarrow> nat \<Rightarrow> cmd \<Rightarrow> cmd" where
  "add_arg q eq (EXEC av) = EXEC (av @ [(q, eq)])"
| "add_arg q eq (REDIR c f ef m fd) = REDIR (add_arg q eq c) f ef m fd"
| "add_arg q eq (PIPE l r) = PIPE l r"
| "add_arg q eq (LIST l r) = LIST l r"
| "add_arg q eq (BACK c) = BACK c"

section \<open>Tokens\<close>

definition whitespace :: string where
  "whitespace = [CHR 0x20, CHR 0x09, CHR 0x0D, CHR 0x0A, CHR 0x0B]"

definition symbols :: string where
  "symbols = ''<|>&;()''"

text \<open>The two loops of \<open>gettoken\<close>; the first is also in \<open>peek\<close>.\<close>

function skip_white :: "string \<Rightarrow> nat \<Rightarrow> nat" where
  "skip_white b s = (if s < length b \<and> strchr whitespace (b ! s) \<noteq> None then skip_white b (s + 1) else s)"
  by pat_completeness auto
termination by (relation "measure (\<lambda>(b, s). length b - s)") auto

function skip_word :: "string \<Rightarrow> nat \<Rightarrow> nat" where
  "skip_word b s =
     (if s < length b \<and> strchr whitespace (b ! s) = None \<and> strchr symbols (b ! s) = None
      then skip_word b (s + 1) else s)"
  by pat_completeness auto
termination by (relation "measure (\<lambda>(b, s). length b - s)") auto

declare skip_white.simps [simp del] skip_word.simps [simp del]

text \<open>The character at \<open>s\<close>, NUL at the end.\<close>

definition at :: "string \<Rightarrow> nat \<Rightarrow> char" where
  "at b s = deref (drop s b)"

text \<open>The kind of the next token, its start and end, and the pointer after it.\<close>

definition gettoken :: "string \<Rightarrow> nat \<Rightarrow> char \<times> nat \<times> nat \<times> nat" where
  "gettoken b s0 =
     (let q = skip_white b s0; c = at b q;
        (ret, s) =
          (if c = NUL then (c, q)
           else if c \<in> {CHR ''|'', CHR ''('', CHR '')'', CHR '';'', CHR ''&'', CHR ''<''} then (c, q + 1)
           else if c = CHR ''>'' then
             if at b (q + 1) = CHR ''>'' then (CHR ''+'', q + 2) else (c, q + 1)
           else (CHR ''a'', skip_word b q))
      in (ret, q, s, skip_white b s))"

definition peek :: "string \<Rightarrow> string \<Rightarrow> nat \<Rightarrow> bool \<times> nat" where
  "peek b toks s0 = (let s = skip_white b s0 in (at b s \<noteq> NUL \<and> strchr toks (at b s) \<noteq> None, s))"

text \<open>The pointer after the next token, where the caller does not ask for more.\<close>

definition skip_token :: "string \<Rightarrow> nat \<Rightarrow> nat" where
  "skip_token b s = (case gettoken b s of (_, _, _, s') \<Rightarrow> s')"

section \<open>Parsing\<close>

text \<open>What a parsing function does: it returns a value and the moved pointer, or \<open>panic\<close> prints a text and
  exits. \<open>Fuel\<close> is for the bound on the depth of the recursion.\<close>

datatype 'a parse = Parsed 'a nat | Exits string | Fuel

definition bindp :: "'a parse \<Rightarrow> ('a \<Rightarrow> nat \<Rightarrow> 'b parse) \<Rightarrow> 'b parse" where
  "bindp p f = (case p of Parsed c s \<Rightarrow> f c s | Exits m \<Rightarrow> Exits m | Fuel \<Rightarrow> Fuel)"

definition panic :: "string \<Rightarrow> 'a parse" where
  "panic m = Exits (m @ [CHR 0x0A])"

text \<open>The mode and the descriptor that \<open>parseredirs\<close> gives a redirection.\<close>

definition redircmd :: "char \<Rightarrow> cmd \<Rightarrow> nat \<Rightarrow> nat \<Rightarrow> cmd" where
  "redircmd tok c q eq =
     (if tok = CHR ''<'' then REDIR c q eq O_RDONLY 0
      else if tok = CHR ''>'' then REDIR c q eq (or O_WRONLY O_CREATE) 1
      else if tok = CHR ''+'' then REDIR c q eq (or O_WRONLY O_CREATE) 1
      else c)"

lemma skip_white_ge: "s \<le> skip_white b s"
proof (induction b s rule: skip_white.induct)
  case (1 b s)
  then show ?case by (subst skip_white.simps) auto
qed

lemma skip_white_le: "s \<le> length b \<Longrightarrow> skip_white b s \<le> length b"
proof (induction b s rule: skip_white.induct)
  case (1 b s)
  then show ?case by (subst skip_white.simps) auto
qed

lemma skip_white_end: "skip_white b s < length b \<Longrightarrow> b ! skip_white b s \<notin> set whitespace"
proof (induction b s rule: skip_white.induct)
  case (1 b s)
  show ?case
  proof (cases "s < length b \<and> strchr whitespace (b ! s) \<noteq> None")
    case True
    then show ?thesis using 1 by (subst skip_white.simps) (auto simp: skip_white.simps [of b s])
  next
    case False
    then show ?thesis using 1(2) by (auto simp: skip_white.simps [of b s] strchr_None)
  qed
qed

lemma skip_white_stop: "s < length b \<Longrightarrow> b ! s \<notin> set whitespace \<Longrightarrow> skip_white b s = s"
  by (subst skip_white.simps) (simp add: strchr_None)

lemma skip_white_skip [simp]: "skip_white b (skip_white b s) = skip_white b s"
proof (cases "skip_white b s < length b")
  case True
  then show ?thesis by (simp add: skip_white_stop skip_white_end)
qed (simp add: skip_white.simps [of b "skip_white b s"])

lemma skip_word_ge: "s \<le> skip_word b s"
proof (induction b s rule: skip_word.induct)
  case (1 b s)
  then show ?case by (subst skip_word.simps) auto
qed

lemma skip_word_le: "s \<le> length b \<Longrightarrow> skip_word b s \<le> length b"
proof (induction b s rule: skip_word.induct)
  case (1 b s)
  then show ?case by (subst skip_word.simps) auto
qed

text \<open>The characters of words.\<close>

definition ordinary :: "char \<Rightarrow> bool" where
  "ordinary c \<longleftrightarrow> c \<notin> set whitespace \<and> c \<notin> set symbols"

lemma skip_word_body: "s \<le> i \<Longrightarrow> i < skip_word b s \<Longrightarrow> ordinary (b ! i)"
proof (induction b s rule: skip_word.induct)
  case (1 b s)
  show ?case
  proof (cases "s < length b \<and> strchr whitespace (b ! s) = None \<and> strchr symbols (b ! s) = None")
    case True
    then show ?thesis using 1 by (cases "i = s") (auto simp: skip_word.simps [of b s] strchr_None ordinary_def)
  next
    case False
    then show ?thesis using 1(2,3) by (auto simp: skip_word.simps [of b s])
  qed
qed

lemma skip_word_end: "skip_word b s < length b \<Longrightarrow> \<not> ordinary (b ! skip_word b s)"
proof (induction b s rule: skip_word.induct)
  case (1 b s)
  show ?case
  proof (cases "s < length b \<and> strchr whitespace (b ! s) = None \<and> strchr symbols (b ! s) = None")
    case True
    then show ?thesis using 1 by (auto simp: skip_word.simps [of b s])
  next
    case False
    then show ?thesis using 1(2) by (auto simp: skip_word.simps [of b s] strchr_None ordinary_def)
  qed
qed

lemma at_nth: "at b s = (if s < length b then b ! s else NUL)"
  by (simp add: at_def deref_def Cons_nth_drop_Suc [symmetric])

lemma gettoken_word:
  assumes "at b q = c" and "q = skip_white b s" and "c \<noteq> NUL" and "c \<notin> set symbols"
  shows "ordinary c" and "q < skip_word b q"
proof -
  have q: "q < length b" "b ! q = c" using assms(1,3) by (auto simp: at_nth split: if_splits)
  then have "c \<notin> set whitespace" using skip_white_end [of b s] assms(2) by auto
  then show "ordinary c" using assms(4) by (simp add: ordinary_def)
  then show "q < skip_word b q" using q skip_word_ge [of "q + 1" b]
    by (auto simp: skip_word.simps [of b q] strchr_None ordinary_def)
qed

lemma gettoken_progress:
  assumes t: "gettoken b s = (k, q, e, s')" and k: "k \<noteq> NUL"
  shows "s \<le> q" and "q < e" and "e \<le> length b" and "e \<le> s'" and "s' \<le> length b" and "q = skip_white b s"
proof -
  let ?q = "skip_white b s"
  have q: "q = ?q" and s': "s' = skip_white b e" using t by (auto simp: gettoken_def Let_def split: prod.splits)
  have nz: "at b ?q \<noteq> NUL" using t k by (auto simp: gettoken_def Let_def)
  then have lt: "?q < length b" by (auto simp: at_nth split: if_splits)
  have e: "e = ?q + 1 \<or> e = ?q + 2 \<and> at b (?q + 1) = CHR ''>'' \<or> e = skip_word b ?q \<and> at b ?q \<notin> set symbols"
    using t nz unfolding gettoken_def Let_def by (auto simp: symbols_def split: if_splits)
  show "q < e" using e q gettoken_word(2) [OF refl refl nz] by auto
  show "e \<le> length b" using e lt skip_word_le [of ?q b] by (auto simp: at_nth split: if_splits)
  then show "s' \<le> length b" unfolding s' by (rule skip_white_le)
  show "s \<le> q" "e \<le> s'" "q = ?q" using skip_white_ge q s' by auto
qed

lemma peek_True: "peek b toks s = (True, s') \<Longrightarrow> at b s' \<noteq> NUL \<and> s' = skip_white b s \<and> s' < length b"
  by (auto simp: peek_def Let_def at_nth split: if_splits)

lemma peek_gettoken:
  assumes "peek b toks s0 = (True, s)" and "gettoken b s = (k, q, e, s')"
  shows "k \<noteq> NUL" and "s0 < s'" and "s' \<le> length b"
proof -
  have s: "at b s \<noteq> NUL" "s = skip_white b s0" "s < length b" using peek_True [OF assms(1)] by auto
  then have "skip_white b s = s" by simp
  then show "k \<noteq> NUL" using assms(2) s(1) by (auto simp: gettoken_def Let_def split: if_splits)
  from gettoken_progress [OF assms(2) this] show "s0 < s'" "s' \<le> length b" using skip_white_ge [of s0 b] s(2) by auto
qed

lemma peek_skip_token:
  assumes "peek b toks s0 = (True, s)"
  shows "s0 < skip_token b s" and "skip_token b s \<le> length b"
proof -
  obtain k q e s' where t: "gettoken b s = (k, q, e, s')" using prod_cases4 by blast
  from peek_gettoken [OF assms t] show "s0 < skip_token b s" "skip_token b s \<le> length b" by (auto simp: skip_token_def t)
qed

lemma redir_progress:
  assumes "peek b toks s0 = (True, s)" and "gettoken b s = (tok, q, e, s1)" and "gettoken b s1 = (k, q', e', s2)" and "k \<noteq> NUL"
  shows "s0 < s2" and "s2 \<le> length b" and "length b - s2 < length b - s0"
  using peek_gettoken [OF assms(1,2)] gettoken_progress [OF assms(3,4)] by auto

lemma bindp_cong [fundef_cong]:
  "p = p' \<Longrightarrow> (\<And>c s. p' = Parsed c s \<Longrightarrow> f c s = g c s) \<Longrightarrow> bindp p f = bindp p' g"
  by (auto simp: bindp_def split: parse.splits)

function parseredirs :: "cmd \<Rightarrow> string \<Rightarrow> nat \<Rightarrow> cmd parse" where
  "parseredirs c b s0 =
     (case peek b ''<>'' s0 of (more, s) \<Rightarrow>
      if \<not> more then Parsed c s
      else case gettoken b s of (tok, _, _, s1) \<Rightarrow>
        case gettoken b s1 of (k, q, eq, s2) \<Rightarrow>
          if k \<noteq> CHR ''a'' then panic ''missing file for redirection''
          else parseredirs (redircmd tok c q eq) b s2)"
  by pat_completeness auto
termination
proof (relation "measure (\<lambda>(c, b, s). length b - s)", goal_cases)
  case (2 c b s0)
  then show ?case by (auto dest!: sym [of "(_, _)"] elim: redir_progress(3))
qed simp

declare parseredirs.simps [simp del]

lemma parseredirs_stop: "\<not> fst (peek b ''<>'' s) \<Longrightarrow> parseredirs c b s = Parsed c (skip_white b s)"
  by (auto simp: parseredirs.simps [of c b s] peek_def Let_def)

lemma parseredirs_step:
  assumes "peek b ''<>'' s0 = (True, s)" and "gettoken b s = (tok, q, e, s1)" and "gettoken b s1 = (k, q', e', s2)"
  shows "parseredirs c b s0 =
    (if k \<noteq> CHR ''a'' then panic ''missing file for redirection'' else parseredirs (redircmd tok c q' e') b s2)"
  using assms by (simp add: parseredirs.simps [of c b s0])

lemma parseredirs_pos: "parseredirs c b s0 = Parsed c' s' \<Longrightarrow> s0 \<le> s' \<and> (s0 \<le> length b \<longrightarrow> s' \<le> length b)"
proof (induction "length b - s0" arbitrary: c s0 rule: less_induct)
  case less
  show ?case
  proof (cases "fst (peek b ''<>'' s0)")
    case False
    then show ?thesis using less(2) parseredirs_stop [OF False] skip_white_ge [of s0 b] skip_white_le [of s0 b] by auto
  next
    case True
    obtain s tok q e s1 k q' e' s2 where t: "peek b ''<>'' s0 = (True, s)" "gettoken b s = (tok, q, e, s1)"
      "gettoken b s1 = (k, q', e', s2)" using True by (metis prod_cases4 prod.collapse)
    have k: "k = CHR ''a''" and p: "parseredirs (redircmd tok c q' e') b s2 = Parsed c' s'"
      using less(2) unfolding parseredirs_step [OF t] by (auto simp: panic_def split: if_splits)
    have pos: "s0 < s2" "s2 \<le> length b" "length b - s2 < length b - s0" using redir_progress [OF t] k by auto
    show ?thesis using less(1) [OF pos(3) p] pos(1,2) by auto
  qed
qed

lemma args_progress:
  assumes "peek b toks s0 = (stop, s)" and t: "gettoken b s = (tok, q, e, s1)" and "tok \<noteq> NUL"
    and r: "parseredirs c b s1 = Parsed c' s2"
  shows "length b - s2 < length b - s0"
proof -
  have "s0 \<le> s" using assms(1) skip_white_ge [of s0 b] by (auto simp: peek_def Let_def)
  then show ?thesis using gettoken_progress [OF t assms(3)] parseredirs_pos [OF r] by linarith
qed

text \<open>The loop of \<open>parseexec\<close> over the arguments.\<close>

function parseargs :: "nat \<Rightarrow> cmd \<Rightarrow> string \<Rightarrow> nat \<Rightarrow> cmd parse" where
  "parseargs argc ret b s0 =
     (case peek b ''|)&;'' s0 of (stop, s) \<Rightarrow>
      if stop then Parsed ret s
      else case gettoken b s of (tok, q, eq, s1) \<Rightarrow>
        if tok = NUL then Parsed ret s1
        else if tok \<noteq> CHR ''a'' then panic ''syntax''
        else if argc + 1 \<ge> MAXARGS then panic ''too many args''
        else bindp (parseredirs (add_arg q eq ret) b s1) (\<lambda>ret s2. parseargs (argc + 1) ret b s2))"
  by pat_completeness auto
termination
proof (relation "measure (\<lambda>(argc, ret, b, s). length b - s)", goal_cases)
  case (2 argc ret b s0)
  then show ?case by (auto dest!: sym [of "(_, _)"] elim: args_progress)
qed simp

declare parseargs.simps [simp del]

text \<open>The loop of \<open>parseline\<close> over the \<open>&\<close>.\<close>

function parsebacks :: "cmd \<Rightarrow> string \<Rightarrow> nat \<Rightarrow> cmd \<times> nat" where
  "parsebacks c b s0 =
     (case peek b ''&'' s0 of (more, s) \<Rightarrow>
      if \<not> more then (c, s) else parsebacks (BACK c) b (skip_token b s))"
  by pat_completeness auto
termination
proof (relation "measure (\<lambda>(c, b, s). length b - s)", goal_cases)
  case (2 c b s0 more s)
  then have p: "peek b ''&'' s0 = (True, s)" by auto
  have "s0 < skip_token b s" "skip_token b s \<le> length b" using peek_skip_token [OF p] by auto
  then show ?case by simp
qed simp

declare parsebacks.simps [simp del]

fun parseline :: "nat \<Rightarrow> string \<Rightarrow> nat \<Rightarrow> cmd parse"
  and parsepipe :: "nat \<Rightarrow> string \<Rightarrow> nat \<Rightarrow> cmd parse"
  and parseblock :: "nat \<Rightarrow> string \<Rightarrow> nat \<Rightarrow> cmd parse"
  and parseexec :: "nat \<Rightarrow> string \<Rightarrow> nat \<Rightarrow> cmd parse" where
  "parseline 0 b s = Fuel"
| "parseline (Suc n) b s =
     bindp (parsepipe n b s) (\<lambda>c s1.
       case parsebacks c b s1 of (c', s2) \<Rightarrow>
       case peek b '';'' s2 of (more, s3) \<Rightarrow>
         if more then bindp (parseline n b (skip_token b s3)) (\<lambda>r s4. Parsed (LIST c' r) s4)
         else Parsed c' s3)"
| "parsepipe 0 b s = Fuel"
| "parsepipe (Suc n) b s =
     bindp (parseexec n b s) (\<lambda>c s1.
       case peek b ''|'' s1 of (more, s2) \<Rightarrow>
         if more then bindp (parsepipe n b (skip_token b s2)) (\<lambda>r s3. Parsed (PIPE c r) s3)
         else Parsed c s2)"
| "parseblock 0 b s = Fuel"
| "parseblock (Suc n) b s =
     (case peek b ''('' s of (op, s1) \<Rightarrow>
      if \<not> op then panic ''parseblock''
      else bindp (parseline n b (skip_token b s1)) (\<lambda>c s2.
        case peek b '')'' s2 of (cl, s3) \<Rightarrow>
          if \<not> cl then panic ''syntax - missing )''
          else parseredirs c b (skip_token b s3)))"
| "parseexec 0 b s = Fuel"
| "parseexec (Suc n) b s =
     (case peek b ''('' s of (op, s1) \<Rightarrow>
      if op then parseblock n b s1
      else bindp (parseredirs (EXEC []) b s1) (\<lambda>ret s2. parseargs 0 ret b s2))"

text \<open>\<open>nulterminate\<close> stores a NUL at the end of every string of a command.\<close>

primrec nulterminate :: "cmd \<Rightarrow> string \<Rightarrow> string" where
  "nulterminate (EXEC av) m = foldl (\<lambda>m (q, eq). m[eq := NUL]) m av"
| "nulterminate (REDIR c f ef mode fd) m = (nulterminate c m)[ef := NUL]"
| "nulterminate (PIPE l r) m = nulterminate r (nulterminate l m)"
| "nulterminate (LIST l r) m = nulterminate r (nulterminate l m)"
| "nulterminate (BACK c) m = nulterminate c m"

text \<open>\<open>parsecmd\<close> returns the command and the bytes of the string after \<open>nulterminate\<close>. The recursion is
  given a depth of four for every character and for the end.\<close>

definition parsecmd :: "string \<Rightarrow> (cmd \<times> string) parse" where
  "parsecmd b =
     bindp (parseline (4 * length b + 4) b 0) (\<lambda>c s.
       case peek b '''' s of (_, s1) \<Rightarrow>
         if s1 \<noteq> length b then Exits (''leftovers: '' @ drop s1 b @ [CHR 0x0A] @ ''syntax'' @ [CHR 0x0A])
         else Parsed (c, nulterminate c (b @ [NUL])) s1)"

section \<open>Running commands\<close>

text \<open>A process as the tree of the system calls it makes. \<open>open\<close>, \<open>pipe\<close> and \<open>fork\<close> have a branch for
  failure, \<open>exec\<close> returns only on failure; the branches of \<open>fork\<close> are the child and the parent.\<close>

datatype prog =
    P_exit
  | P_close nat prog
  | P_open string nat prog prog
  | P_dup nat prog
  | P_pipe "nat \<Rightarrow> nat \<Rightarrow> prog" prog
  | P_fork prog prog prog
  | P_wait prog
  | P_exec "string list" prog
  | P_print string prog

definition sh_panic :: "string \<Rightarrow> prog" where
  "sh_panic t = P_print (t @ [CHR 0x0A]) P_exit"

definition fork1 :: "prog \<Rightarrow> prog \<Rightarrow> prog" where
  "fork1 child parent = P_fork child parent (sh_panic ''fork'')"

text \<open>The C string at offset \<open>q\<close> of the terminated line.\<close>

definition str :: "string \<Rightarrow> nat \<Rightarrow> string" where
  "str m q = takeWhile (\<lambda>x. x \<noteq> NUL) (drop q m)"

primrec runcmd :: "string \<Rightarrow> cmd \<Rightarrow> prog" where
  "runcmd m (EXEC av) =
     (case av of [] \<Rightarrow> P_exit
      | (q, _) # _ \<Rightarrow> P_exec (map (\<lambda>(q, _). str m q) av) (P_print (''exec '' @ str m q @ '' failed'' @ [CHR 0x0A]) P_exit))"
| "runcmd m (REDIR c f ef mode fd) =
     P_close fd (P_open (str m f) mode (runcmd m c) (P_print (''open '' @ str m f @ '' failed'' @ [CHR 0x0A]) P_exit))"
| "runcmd m (LIST l r) = fork1 (runcmd m l) (P_wait (runcmd m r))"
| "runcmd m (PIPE l r) =
     P_pipe (\<lambda>p0 p1.
       fork1 (P_close 1 (P_dup p1 (P_close p0 (P_close p1 (runcmd m l)))))
      (fork1 (P_close 0 (P_dup p0 (P_close p0 (P_close p1 (runcmd m r)))))
      (P_close p0 (P_close p1 (P_wait (P_wait P_exit)))))) (sh_panic ''pipe'')"
| "runcmd m (BACK c) = fork1 (runcmd m c) P_exit"

section \<open>The loop of the shell\<close>

text \<open>\<open>getcmd\<close> reads a line into a cleared buffer of 100 bytes and fails when it is empty; \<open>rd\<close> is the input
  that is left.\<close>

definition getcmd :: "string \<Rightarrow> string option \<times> string" where
  "getcmd rd = (case gets 100 rd of (l, rd') \<Rightarrow>
     let b = takeWhile (\<lambda>x. x \<noteq> NUL) l in (if b = [] then None else Some b, rd'))"

datatype sh_action = Chdir string | Child prog

definition child :: "string \<Rightarrow> prog" where
  "child b = (case parsecmd b of Parsed (c, m) _ \<Rightarrow> runcmd m c | Exits t \<Rightarrow> P_print t P_exit | Fuel \<Rightarrow> P_exit)"

lemma gets_loop_le: "length (snd (gets_loop k rd)) \<le> length rd"
  by (induction k rd rule: gets_loop.induct) (auto simp: case_prod_beta Let_def)

lemma gets_loop_shorter: "fst (gets_loop k rd) \<noteq> [] \<Longrightarrow> length (snd (gets_loop k rd)) < length rd"
proof (induction k rd rule: gets_loop.induct)
  case (3 k c rd)
  then show ?case by (cases "fst (gets_loop k rd) = []") (auto simp: case_prod_beta Let_def intro: less_SucI le_imp_less_Suc gets_loop_le)
qed simp_all

function sh_loop :: "string \<Rightarrow> sh_action list" where
  "sh_loop rd = (case getcmd rd of
     (None, _) \<Rightarrow> []
   | (Some b, rd') \<Rightarrow> (if take 3 b = ''cd '' then Chdir (drop 3 (butlast b)) else Child (child b)) # sh_loop rd')"
  by pat_completeness auto
termination
proof (relation "measure length", goal_cases)
  case (2 rd x rd' b)
  then show ?case using gets_loop_shorter [of 99 rd]
    by (cases "fst (gets_loop 99 rd) = []") (auto simp: getcmd_def gets_def Let_def case_prod_beta split: if_splits)
qed simp

end
