(* ===== verification/Sh_Props.thy ===== *)
theory Sh_Props
  imports Sh
begin

text \<open>
  The parser of the shell against a grammar. \<open>tokens\<close> is the sequence of tokens \<open>gettoken\<close> finds; the
  grammar is a set of inductive definitions over token sequences; the parser terminates and accepts
  exactly the lines the grammar derives, with the command of the derivation.
\<close>

section \<open>Tokens\<close>

type_synonym token = "char \<times> nat \<times> nat"

lemma gettoken_skip: "gettoken b (skip_white b s) = gettoken b s"
  by (simp add: gettoken_def)

function tokens :: "string \<Rightarrow> nat \<Rightarrow> token list" where
  "tokens b s = (case gettoken b s of (k, q, e, s') \<Rightarrow> if k = NUL then [] else (k, q, e) # tokens b s')"
  by pat_completeness auto
termination
proof (relation "measure (\<lambda>(b, s). length b - s)", goal_cases)
  case (2 b s k y q z e s')
  then have "gettoken b s = (k, q, e, s')" by auto
  from gettoken_progress [OF this 2(4)] show ?case by auto
qed simp

declare tokens.simps [simp del]

lemma tokens_gettoken: "gettoken b s = (k, q, e, s') \<Longrightarrow> tokens b s = (if k = NUL then [] else (k, q, e) # tokens b s')"
  by (simp add: tokens.simps [of b s])

lemma tokens_skip_white: "tokens b (skip_white b s) = tokens b s"
  by (simp add: tokens.simps [of b s] tokens.simps [of b "skip_white b s"] gettoken_skip)

lemma tokens_Cons:
  assumes "tokens b s = (k, q, e) # ts"
  obtains s' where "gettoken b s = (k, q, e, s')" and "tokens b s' = ts" and "k \<noteq> NUL" and "skip_token b s = s'"
proof -
  obtain k' q' e' s' where t: "gettoken b s = (k', q', e', s')" using prod_cases4 by blast
  with assms that show thesis by (auto simp: tokens_gettoken [OF t] skip_token_def split: if_splits)
qed

lemma tokens_Nil: "tokens b s = [] \<longleftrightarrow> at b (skip_white b s) = NUL"
  by (auto simp: tokens.simps [of b s] gettoken_def Let_def split: if_splits)

lemma length_tokens: "length (tokens b s) \<le> length b - s"
proof (induction b s rule: tokens.induct)
  case (1 b s)
  obtain k q e s' where t: "gettoken b s = (k, q, e, s')" using prod_cases4 by blast
  show ?case
  proof (cases "k = NUL")
    case False
    then show ?thesis using 1 [OF t [symmetric] refl refl] gettoken_progress [OF t] by (auto simp: tokens_gettoken [OF t])
  qed (simp add: tokens_gettoken [OF t])
qed

text \<open>The character \<open>peek\<close> looks at.\<close>

definition next_sym :: "token list \<Rightarrow> char" where
  "next_sym ts = (case ts of [] \<Rightarrow> NUL | (k, _, _) # _ \<Rightarrow> if k = CHR ''+'' then CHR ''>'' else k)"

lemma set_symbols: "set symbols = {CHR ''<'', CHR ''|'', CHR ''>'', CHR ''&'', CHR '';'', CHR ''('', CHR '')''}"
  by (simp add: symbols_def)

lemma peek_tokens:
  assumes toks: "set toks \<subseteq> set symbols" and p: "peek b toks s = (m, s')"
  shows "tokens b s' = tokens b s" and "m \<longleftrightarrow> next_sym (tokens b s) \<in> set toks" and "s' = skip_white b s"
proof -
  let ?q = "skip_white b s" and ?c = "at b (skip_white b s)"
  show s': "s' = ?q" using p by (simp add: peek_def Let_def)
  show "tokens b s' = tokens b s" by (simp add: s' tokens_skip_white)
  have m: "m \<longleftrightarrow> ?c \<noteq> NUL \<and> ?c \<in> set toks" using p by (auto simp: peek_def Let_def strchr_None)
  obtain k q e r where t: "gettoken b s = (k, q, e, r)" using prod_cases4 by blast
  have "next_sym (tokens b s) = (if ?c \<in> set symbols \<or> ?c = NUL then ?c else CHR ''a'')"
    using t unfolding tokens_gettoken [OF t] gettoken_def Let_def
    by (auto simp: next_sym_def set_symbols split: if_splits)
  then show "m \<longleftrightarrow> next_sym (tokens b s) \<in> set toks" using m toks by (auto simp: set_symbols split: if_splits)
qed

lemma next_sym_NUL: "next_sym (tokens b s) = NUL \<longleftrightarrow> tokens b s = []"
proof (cases "tokens b s")
  case (Cons t ts)
  then obtain k q e where "tokens b s = (k, q, e) # ts" by (cases t) auto
  moreover from this have "k \<noteq> NUL" by (rule tokens_Cons)
  ultimately show ?thesis by (simp add: next_sym_def)
qed (simp add: next_sym_def)

lemma token_kinds:
  assumes "tokens b s = (k, q, e) # ts"
  shows "k \<in> insert (CHR ''a'') (insert (CHR ''+'') (set symbols))"
proof -
  obtain s' where "gettoken b s = (k, q, e, s')" "k \<noteq> NUL" using tokens_Cons [OF assms] by blast
  then show ?thesis by (auto simp: gettoken_def Let_def set_symbols split: if_splits)
qed

section \<open>The grammar\<close>

definition redir_sym :: "char \<Rightarrow> bool" where
  "redir_sym k \<longleftrightarrow> k = CHR ''<'' \<or> k = CHR ''>'' \<or> k = CHR ''+''"

text \<open>Words and redirections in any order: the tokens, the words, and the redirections with their files.\<close>

inductive simple_g :: "token list \<Rightarrow> (nat \<times> nat) list \<Rightarrow> token list \<Rightarrow> bool" where
  simple_nil: "simple_g [] [] []"
| simple_word: "simple_g ts ws rs \<Longrightarrow> simple_g ((CHR ''a'', q, e) # ts) ((q, e) # ws) rs"
| simple_redir: "simple_g ts ws rs \<Longrightarrow> redir_sym k \<Longrightarrow>
    simple_g ((k, x, y) # (CHR ''a'', q, e) # ts) ws ((k, q, e) # rs)"

definition wrap :: "token list \<Rightarrow> cmd \<Rightarrow> cmd" where
  "wrap rs c = foldl (\<lambda>c (k, q, e). redircmd k c q e) c rs"

text \<open>Commands: a command line is pipelines with \<open>&\<close> behind them, separated by semicolons; a block is a
  line in parentheses with redirections; a simple command has fewer than ten words.\<close>

inductive line_g :: "token list \<Rightarrow> cmd \<Rightarrow> bool"
  and pipe_g :: "token list \<Rightarrow> cmd \<Rightarrow> bool"
  and exec_g :: "token list \<Rightarrow> cmd \<Rightarrow> bool" where
  line_pipe: "pipe_g ts c \<Longrightarrow> \<forall>a \<in> set amps. fst a = CHR ''&'' \<Longrightarrow>
    line_g (ts @ amps) ((BACK ^^ length amps) c)"
| line_list: "pipe_g ts c \<Longrightarrow> \<forall>a \<in> set amps. fst a = CHR ''&'' \<Longrightarrow> line_g us d \<Longrightarrow>
    line_g (ts @ amps @ (CHR '';'', x, y) # us) (LIST ((BACK ^^ length amps) c) d)"
| pipe_exec: "exec_g ts c \<Longrightarrow> pipe_g ts c"
| pipe_pipe: "exec_g ts c \<Longrightarrow> pipe_g us d \<Longrightarrow> pipe_g (ts @ (CHR ''|'', x, y) # us) (PIPE c d)"
| exec_simple: "simple_g ts ws rs \<Longrightarrow> length ws < MAXARGS \<Longrightarrow> exec_g ts (wrap rs (EXEC ws))"
| exec_block: "line_g ts c \<Longrightarrow> simple_g us [] rs \<Longrightarrow>
    exec_g ((CHR ''('', x, y) # ts @ (CHR '')'', v, w) # us) (wrap rs c)"

section \<open>Simple commands\<close>

text \<open>Redirections, then arguments: the body of \<open>parseexec\<close>, and of its loop.\<close>

abbreviation items :: "nat \<Rightarrow> cmd \<Rightarrow> string \<Rightarrow> nat \<Rightarrow> cmd parse" where
  "items n c b s \<equiv> bindp (parseredirs c b s) (\<lambda>r s'. parseargs n r b s')"

lemma bindp_simps [simp]: "bindp (Parsed c s) f = f c s" "bindp (Exits m) f = Exits m" "bindp Fuel f = Fuel"
  by (simp_all add: bindp_def)

lemma redirs_stop:
  assumes "next_sym (tokens b s) \<notin> {CHR ''<'', CHR ''>''}"
  shows "parseredirs c b s = Parsed c (skip_white b s)"
proof -
  obtain m s' where p: "peek b ''<>'' s = (m, s')" by fastforce
  then have "\<not> m" using peek_tokens(2) [OF _ p] assms by (auto simp: set_symbols)
  with p show ?thesis by (intro parseredirs_stop) simp
qed

lemma redirs_step:
  assumes "tokens b s = (k, x, y) # ts" and "redir_sym k"
  obtains (word) q e us s' where "ts = (CHR ''a'', q, e) # us" "tokens b s' = us" "parseredirs c b s = parseredirs (redircmd k c q e) b s'"
  | (no_word) "\<forall>q e us. ts \<noteq> (CHR ''a'', q, e) # us" "\<exists>m. parseredirs c b s = Exits m"
proof -
  obtain m s0 where p: "peek b ''<>'' s = (m, s0)" by fastforce
  have m: "m" and t0: "tokens b s0 = (k, x, y) # ts"
    using peek_tokens [OF _ p] assms by (auto simp: set_symbols next_sym_def redir_sym_def)
  obtain s1 where g: "gettoken b s0 = (k, x, y, s1)" and t1: "tokens b s1 = ts" using tokens_Cons [OF t0] by blast
  obtain k' q e s2 where h: "gettoken b s1 = (k', q, e, s2)" using prod_cases4 by blast
  note step = parseredirs_step [OF p [unfolded m [THEN eqTrueI]] g h]
  show thesis
  proof (cases "k' = CHR ''a''")
    case True
    then have "ts = (CHR ''a'', q, e) # tokens b s2" using tokens_gettoken [OF h] t1 by simp
    then show ?thesis using True step by (intro word) simp_all
  next
    case False
    then have "\<forall>q e us. ts \<noteq> (CHR ''a'', q, e) # us" using tokens_gettoken [OF h] t1 by (auto split: if_splits)
    then show ?thesis using False step by (intro no_word) (auto simp: panic_def)
  qed
qed

lemma items_stop:
  assumes "next_sym (tokens b s) \<in> {NUL, CHR ''|'', CHR '')'', CHR ''&'', CHR '';''}"
  shows "\<exists>s'. items n c b s = Parsed c s' \<and> tokens b s' = tokens b s"
proof -
  let ?s = "skip_white b s"
  have r: "parseredirs c b s = Parsed c ?s" using assms by (intro redirs_stop) auto
  obtain m s1 where p: "peek b ''|)&;'' ?s = (m, s1)" by fastforce
  have t: "tokens b s1 = tokens b s" "m \<longleftrightarrow> next_sym (tokens b s) \<in> set ''|)&;''"
    using peek_tokens [OF _ p] by (simp_all add: set_symbols tokens_skip_white)
  show ?thesis
  proof (cases m)
    case True
    with p r t show ?thesis by (simp add: parseargs.simps)
  next
    case False
    then have "tokens b s1 = []" using t assms next_sym_NUL [of b s] by auto
    moreover obtain k q e s2 where g: "gettoken b s1 = (k, q, e, s2)" using prod_cases4 by blast
    ultimately have k: "k = NUL" using tokens_gettoken [OF g] by (auto split: if_splits)
    have "s2 = skip_white b (skip_white b s1)" using g k by (auto simp: gettoken_def Let_def split: if_splits)
    with p r t g k False show ?thesis by (simp add: parseargs.simps tokens_skip_white)
  qed
qed

lemma items_word:
  assumes "tokens b s = (CHR ''a'', q, e) # ts"
  shows "\<exists>s'. tokens b s' = ts \<and> items n c b s =
    (if n + 1 \<ge> MAXARGS then panic ''too many args'' else items (n + 1) (add_arg q e c) b s')"
proof -
  let ?s = "skip_white b s"
  have r: "parseredirs c b s = Parsed c ?s" using assms by (intro redirs_stop) (auto simp: next_sym_def)
  obtain m s1 where p: "peek b ''|)&;'' ?s = (m, s1)" by fastforce
  have t: "tokens b s1 = (CHR ''a'', q, e) # ts" "\<not> m"
    using peek_tokens [OF _ p] assms by (auto simp: set_symbols tokens_skip_white next_sym_def)
  obtain s2 where "gettoken b s1 = (CHR ''a'', q, e, s2)" "tokens b s2 = ts" using tokens_Cons [OF t(1)] by blast
  then show ?thesis using p r t(2) by (intro exI [of _ s2]) (simp add: parseargs.simps)
qed

lemma items_paren:
  assumes "tokens b s = (k, q, e) # ts" and "k = CHR ''(''"
  shows "\<exists>m. items n c b s = Exits m"
proof -
  let ?s = "skip_white b s"
  have r: "parseredirs c b s = Parsed c ?s" using assms by (intro redirs_stop) (auto simp: next_sym_def)
  obtain m s1 where p: "peek b ''|)&;'' ?s = (m, s1)" by fastforce
  have t: "tokens b s1 = (CHR ''('', q, e) # ts" "\<not> m"
    using peek_tokens [OF _ p] assms by (auto simp: set_symbols tokens_skip_white next_sym_def)
  obtain s2 where "gettoken b s1 = (CHR ''('', q, e, s2)" using tokens_Cons [OF t(1)] by blast
  then show ?thesis using p r t(2) by (simp add: parseargs.simps panic_def)
qed

lemma add_arg_redircmd: "add_arg q e (redircmd k c f g) = redircmd k (add_arg q e c) f g"
  by (simp add: redircmd_def)

definition add_args :: "(nat \<times> nat) list \<Rightarrow> cmd \<Rightarrow> cmd" where
  "add_args ws c = foldl (\<lambda>c (q, e). add_arg q e c) c ws"

lemma add_args_simps [simp]: "add_args [] c = c" "add_args ((q, e) # ws) c = add_args ws (add_arg q e c)"
  by (simp_all add: add_args_def)

lemma add_args_EXEC: "add_args ws (EXEC av) = EXEC (av @ ws)"
  by (induction ws arbitrary: av) (simp_all add: split_paired_all)

lemma wrap_simps [simp]: "wrap [] c = c" "wrap ((k, q, e) # rs) c = wrap rs (redircmd k c q e)"
  by (simp_all add: wrap_def)

lemma add_args_redircmd: "add_args ws (redircmd k c f g) = redircmd k (add_args ws c) f g"
  by (induction ws arbitrary: c) (simp_all add: split_paired_all add_arg_redircmd)

lemma items_complete:
  assumes "simple_g ts ws rs" and "tokens b s = ts @ rest" and "n + length ws < MAXARGS"
    and "next_sym rest \<in> {NUL, CHR ''|'', CHR '')'', CHR ''&'', CHR '';''}"
  shows "\<exists>s'. items n c b s = Parsed (wrap rs (add_args ws c)) s' \<and> tokens b s' = rest"
  using assms
proof (induction arbitrary: n c s)
  case simple_nil
  then show ?case using items_stop [of b s c n] by simp
next
  case (simple_word ts ws rs q e)
  obtain s' where "tokens b s' = ts @ rest" "items n c b s =
    (if n + 1 \<ge> MAXARGS then panic ''too many args'' else items (n + 1) (add_arg q e c) b s')"
    using items_word [of b s q e "ts @ rest" c n] simple_word.prems(1) by auto
  with simple_word show ?case by auto
next
  case (simple_redir ts ws rs k x y q e)
  from redirs_step [of b s k x y "(CHR ''a'', q, e) # ts @ rest" c] simple_redir.prems(1) simple_redir.hyps(2)
  obtain s' where "tokens b s' = ts @ rest" "parseredirs c b s = parseredirs (redircmd k c q e) b s'" by auto
  with simple_redir.IH [of s' n "redircmd k c q e"] simple_redir.prems show ?case by (simp add: add_args_redircmd)
qed

lemma items_sound:
  "items n c b s = Parsed c' s' \<Longrightarrow>
   \<exists>ts ws rs. tokens b s = ts @ tokens b s' \<and> simple_g ts ws rs \<and> c' = wrap rs (add_args ws c) \<and>
     (ws \<noteq> [] \<longrightarrow> n + length ws < MAXARGS)"
proof (induction "length (tokens b s)" arbitrary: n c s rule: less_induct)
  case less
  show ?case
  proof (cases "tokens b s")
    case Nil
    with items_stop [of b s c n] less(2) show ?thesis
      by (intro exI [of _ "[]"]) (auto simp: next_sym_def intro: simple_nil)
  next
    case (Cons t us)
    then obtain k q e where t: "tokens b s = (k, q, e) # us" by (cases t) auto
    consider "k = CHR ''a''" | "redir_sym k" | "k = CHR ''(''" | "k \<in> {CHR ''|'', CHR '')'', CHR ''&'', CHR '';''}"
      using token_kinds [OF t] by (auto simp: set_symbols redir_sym_def)
    then show ?thesis
    proof cases
      case 1
      with items_word [of b s q e us c n] t obtain s1 where s1: "tokens b s1 = us"
        "items (n + 1) (add_arg q e c) b s1 = Parsed c' s'" "n + 1 < MAXARGS"
        using less(2) by (auto simp: panic_def split: if_splits)
      from less(1) [OF _ s1(2)] s1(1) t obtain ts ws rs where "us = ts @ tokens b s'" "simple_g ts ws rs"
        "c' = wrap rs (add_args ws (add_arg q e c))" "ws \<noteq> [] \<longrightarrow> n + 1 + length ws < MAXARGS" by auto
      then show ?thesis using t 1 s1(3)
        by (intro exI [of _ "(CHR ''a'', q, e) # ts"] exI [of _ "(q, e) # ws"] exI [of _ rs]) (auto intro: simple_word)
    next
      case 2
      from t 2 show ?thesis
      proof (cases rule: redirs_step [where c = c])
        case (word f g vs s1)
        then have "items n (redircmd k c f g) b s1 = Parsed c' s'" using less(2) by simp
        from less(1) [OF _ this] word(1,2) t obtain ts ws rs where "vs = ts @ tokens b s'" "simple_g ts ws rs"
          "c' = wrap rs (add_args ws (redircmd k c f g))" "ws \<noteq> [] \<longrightarrow> n + length ws < MAXARGS" by auto
        then show ?thesis using t word(1) 2
          by (intro exI [of _ "(k, q, e) # (CHR ''a'', f, g) # ts"] exI [of _ ws] exI [of _ "(k, f, g) # rs"])
            (auto intro: simple_redir simp: add_args_redircmd)
      next
        case no_word
        with less(2) show ?thesis by auto
      qed
    next
      case 3
      with items_paren [OF t] less(2) show ?thesis by (metis parse.distinct(1))
    next
      case 4
      then have "next_sym (tokens b s) = k" using t by (auto simp: next_sym_def)
      with items_stop [of b s c n] 4 less(2) show ?thesis by (intro exI [of _ "[]"]) (auto intro: simple_nil)
    qed
  qed
qed

section \<open>Soundness and completeness\<close>

lemma redirs_complete:
  assumes "simple_g ts ws rs" and "ws = []" and "tokens b s = ts @ rest" and "next_sym rest \<notin> {CHR ''<'', CHR ''>''}"
  shows "\<exists>s'. parseredirs c b s = Parsed (wrap rs c) s' \<and> tokens b s' = rest"
  using assms
proof (induction arbitrary: c s)
  case simple_nil
  then show ?case using redirs_stop [of b s c] by (simp add: tokens_skip_white)
next
  case (simple_redir ts ws rs k x y q e)
  from redirs_step [of b s k x y "(CHR ''a'', q, e) # ts @ rest" c] simple_redir.prems(2) simple_redir.hyps(2)
  obtain s' where "tokens b s' = ts @ rest" "parseredirs c b s = parseredirs (redircmd k c q e) b s'" by auto
  with simple_redir.IH [of s' "redircmd k c q e"] simple_redir.prems show ?case by simp
qed simp

lemma redirs_sound:
  "parseredirs c b s = Parsed c' s' \<Longrightarrow>
   \<exists>ts rs. tokens b s = ts @ tokens b s' \<and> simple_g ts [] rs \<and> c' = wrap rs c"
proof (induction "length (tokens b s)" arbitrary: c s rule: less_induct)
  case less
  show ?case
  proof (cases "next_sym (tokens b s) \<in> {CHR ''<'', CHR ''>''}")
    case False
    with redirs_stop [of b s c] less(2) show ?thesis
      by (intro exI [of _ "[]"]) (auto simp: tokens_skip_white intro: simple_nil)
  next
    case True
    then obtain k q e us where t: "tokens b s = (k, q, e) # us" and k: "redir_sym k"
      by (auto simp: next_sym_def redir_sym_def split: list.splits if_splits)
    then show ?thesis
    proof (cases rule: redirs_step [where c = c])
      case (word f g vs s1)
      then have "parseredirs (redircmd k c f g) b s1 = Parsed c' s'" using less(2) by simp
      from less(1) [OF _ this] word(1,2) t obtain ts rs where "vs = ts @ tokens b s'" "simple_g ts [] rs"
        "c' = wrap rs (redircmd k c f g)" by auto
      then show ?thesis using t word(1) k
        by (intro exI [of _ "(k, q, e) # (CHR ''a'', f, g) # ts"] exI [of _ "(k, f, g) # rs"]) (auto intro: simple_redir)
    next
      case no_word
      with less(2) show ?thesis by auto
    qed
  qed
qed

text \<open>The \<open>&\<close> of a line.\<close>

lemma backs_spec:
  "\<exists>s' amps. parsebacks c b s = ((BACK ^^ length amps) c, s') \<and> tokens b s = amps @ tokens b s' \<and>
     (\<forall>a \<in> set amps. fst a = CHR ''&'') \<and> next_sym (tokens b s') \<noteq> CHR ''&''"
proof (induction "length (tokens b s)" arbitrary: c s rule: less_induct)
  case less
  obtain m s0 where p: "peek b ''&'' s = (m, s0)" by fastforce
  have t: "tokens b s0 = tokens b s" "m \<longleftrightarrow> next_sym (tokens b s) = CHR ''&''"
    using peek_tokens [OF _ p] by (simp_all add: set_symbols)
  show ?case
  proof (cases m)
    case False
    with p t show ?thesis by (intro exI [of _ s0] exI [of _ "[]"]) (simp add: parsebacks.simps [of c b s])
  next
    case True
    then obtain q e us where u: "tokens b s0 = (CHR ''&'', q, e) # us" using t
      by (auto simp: next_sym_def split: list.splits if_splits)
    then have s1: "tokens b (skip_token b s0) = us" by (rule tokens_Cons) simp
    with less [of "skip_token b s0" "BACK c"] u t(1) obtain s' amps where
      "parsebacks (BACK c) b (skip_token b s0) = ((BACK ^^ length amps) (BACK c), s')" "us = amps @ tokens b s'"
      "\<forall>a \<in> set amps. fst a = CHR ''&''" "next_sym (tokens b s') \<noteq> CHR ''&''" by auto
    then show ?thesis using p u t(1) True
      by (intro exI [of _ s'] exI [of _ "(CHR ''&'', q, e) # amps"]) (simp add: parsebacks.simps [of c b s] funpow_swap1)
  qed
qed

text \<open>Reading one symbol that \<open>peek\<close> has seen.\<close>

lemma peek_sym:
  assumes "k \<in> set symbols" and "k \<noteq> CHR ''>''" and "peek b [k] s = (m, s')"
  shows "m \<Longrightarrow> \<exists>x y. tokens b s = (k, x, y) # tokens b (skip_token b s')"
    and "\<not> m \<Longrightarrow> next_sym (tokens b s) \<noteq> k" and "tokens b s' = tokens b s"
proof -
  have toks: "set [k] \<subseteq> set symbols" using assms(1) by simp
  note p = peek_tokens [OF toks assms(3)]
  show "tokens b s' = tokens b s" by (rule p)
  show "\<not> m \<Longrightarrow> next_sym (tokens b s) \<noteq> k" using p(2) by simp
  assume m
  then have "next_sym (tokens b s') = k" using p by simp
  then obtain x y ts where u: "tokens b s' = (k, x, y) # ts" using assms(1,2)
    by (auto simp: next_sym_def set_symbols split: list.splits if_splits)
  then have "tokens b (skip_token b s') = ts" by (rule tokens_Cons) simp
  with u p(1) show "\<exists>x y. tokens b s = (k, x, y) # tokens b (skip_token b s')" by auto
qed

lemma peek_symD:
  assumes "k \<in> set symbols" and "k \<noteq> CHR ''>''" and "tokens b s = (k, x, y) # ts"
  shows "\<exists>s'. peek b [k] s = (True, s') \<and> tokens b (skip_token b s') = ts \<and> tokens b s' = tokens b s"
proof -
  obtain m s' where p: "peek b [k] s = (m, s')" by fastforce
  have "next_sym (tokens b s) = k" using assms by (auto simp: next_sym_def set_symbols)
  with peek_sym [OF assms(1,2) p] p assms(3) show ?thesis by auto
qed

lemma bindp_Parsed: "bindp p f = Parsed c s \<longleftrightarrow> (\<exists>c' s'. p = Parsed c' s' \<and> f c' s' = Parsed c s)"
  by (cases p) simp_all

text \<open>A parsing function returns only commands that the grammar derives from what it reads.\<close>

definition yields :: "(token list \<Rightarrow> cmd \<Rightarrow> bool) \<Rightarrow> (string \<Rightarrow> nat \<Rightarrow> cmd parse) \<Rightarrow> string \<Rightarrow> bool" where
  "yields G f b \<longleftrightarrow> (\<forall>s c s'. f b s = Parsed c s' \<longrightarrow> (\<exists>ts. tokens b s = ts @ tokens b s' \<and> G ts c))"

lemma yieldsD: "yields G f b \<Longrightarrow> f b s = Parsed c s' \<Longrightarrow> \<exists>ts. tokens b s = ts @ tokens b s' \<and> G ts c"
  unfolding yields_def by blast

lemma yieldsI: "(\<And>s c s'. f b s = Parsed c s' \<Longrightarrow> \<exists>ts. tokens b s = ts @ tokens b s' \<and> G ts c) \<Longrightarrow> yields G f b"
  unfolding yields_def by blast

lemma line_sound:
  assumes IHp: "yields pipe_g (parsepipe n) b" and IHl: "yields line_g (parseline n) b"
  shows "yields line_g (parseline (Suc n)) b"
proof (rule yieldsI)
  fix s c s'
  assume P: "parseline (Suc n) b s = Parsed c s'"
  show "\<exists>ts. tokens b s = ts @ tokens b s' \<and> line_g ts c"
  proof -
    obtain d s1 where d: "parsepipe n b s = Parsed d s1" and
      f: "(case parsebacks d b s1 of (c', s2) \<Rightarrow> case peek b '';'' s2 of (more, s3) \<Rightarrow>
         if more then bindp (parseline n b (skip_token b s3)) (\<lambda>r s4. Parsed (LIST c' r) s4)
         else Parsed c' s3) = Parsed c s'" using P by (auto simp: bindp_Parsed)
    obtain ts where ts: "tokens b s = ts @ tokens b s1" "pipe_g ts d" using yieldsD [OF IHp d] by blast
    obtain s2 amps where bk: "parsebacks d b s1 = ((BACK ^^ length amps) d, s2)" "tokens b s1 = amps @ tokens b s2"
      "\<forall>a \<in> set amps. fst a = CHR ''&''" using backs_spec [of d b s1] by blast
    obtain m s3 where p: "peek b '';'' s2 = (m, s3)" by fastforce
    note ps = peek_sym [OF _ _ p, unfolded set_symbols, simplified]
    show ?thesis
    proof (cases m)
      case False
      then have "c = (BACK ^^ length amps) d" "s' = s3" using f bk(1) p by simp_all
      then show ?thesis using ts bk(2,3) ps(3) by (intro exI [of _ "ts @ amps"]) (simp add: line_pipe)
    next
      case True
      then obtain r s4 where r: "parseline n b (skip_token b s3) = Parsed r s4" "c = LIST ((BACK ^^ length amps) d) r" "s' = s4"
        using f bk(1) p by (auto simp: bindp_Parsed)
      obtain x y where x: "tokens b s2 = (CHR '';'', x, y) # tokens b (skip_token b s3)" using ps(1) [OF True] by blast
      obtain us where "tokens b (skip_token b s3) = us @ tokens b s4" "line_g us r" using yieldsD [OF IHl r(1)] by blast
      then show ?thesis using ts bk(2,3) x r(2,3)
        by (intro exI [of _ "ts @ amps @ (CHR '';'', x, y) # us"]) (simp add: line_list)
    qed
  qed
qed

lemma pipe_sound:
  assumes IHe: "yields exec_g (parseexec n) b" and IHp: "yields pipe_g (parsepipe n) b"
  shows "yields pipe_g (parsepipe (Suc n)) b"
proof (rule yieldsI)
  fix s c s'
  assume P: "parsepipe (Suc n) b s = Parsed c s'"
  show "\<exists>ts. tokens b s = ts @ tokens b s' \<and> pipe_g ts c"
  proof -
    obtain d s1 where d: "parseexec n b s = Parsed d s1" and
      f: "(case peek b ''|'' s1 of (more, s2) \<Rightarrow>
         if more then bindp (parsepipe n b (skip_token b s2)) (\<lambda>r s3. Parsed (PIPE d r) s3)
         else Parsed d s2) = Parsed c s'" using P by (auto simp: bindp_Parsed)
    obtain ts where ts: "tokens b s = ts @ tokens b s1" "exec_g ts d" using yieldsD [OF IHe d] by blast
    obtain m s2 where p: "peek b ''|'' s1 = (m, s2)" by fastforce
    note ps = peek_sym [OF _ _ p, unfolded set_symbols, simplified]
    show ?thesis
    proof (cases m)
      case False
      then show ?thesis using ts ps(3) f p by (intro exI [of _ ts]) (auto intro: pipe_exec)
    next
      case True
      then obtain r s3 where r: "parsepipe n b (skip_token b s2) = Parsed r s3" "c = PIPE d r" "s' = s3"
        using f p by (auto simp: bindp_Parsed)
      obtain x y where x: "tokens b s1 = (CHR ''|'', x, y) # tokens b (skip_token b s2)" using ps(1) [OF True] by blast
      obtain us where "tokens b (skip_token b s2) = us @ tokens b s3" "pipe_g us r" using yieldsD [OF IHp r(1)] by blast
      then show ?thesis using ts x r(2,3) by (intro exI [of _ "ts @ (CHR ''|'', x, y) # us"]) (simp add: pipe_pipe)
    qed
  qed
qed

lemma block_sound:
  assumes IHl: "yields line_g (parseline n) b"
  shows "yields exec_g (parseblock (Suc n)) b"
proof (rule yieldsI)
  fix s c s'
  assume P: "parseblock (Suc n) b s = Parsed c s'"
  show "\<exists>ts. tokens b s = ts @ tokens b s' \<and> exec_g ts c"
  proof -
    obtain m s1 where p: "peek b ''('' s = (m, s1)" by fastforce
    then have m: m using P by (auto simp: panic_def split: if_splits)
    then obtain d s2 where d: "parseline n b (skip_token b s1) = Parsed d s2" and
      f: "(case peek b '')'' s2 of (cl, s3) \<Rightarrow> if \<not> cl then panic ''syntax - missing )''
          else parseredirs d b (skip_token b s3)) = Parsed c s'" using P p by (auto simp: bindp_Parsed)
    obtain x y where x: "tokens b s = (CHR ''('', x, y) # tokens b (skip_token b s1)"
      using peek_sym(1) [OF _ _ p m] by (auto simp: set_symbols)
    obtain cl s3 where q: "peek b '')'' s2 = (cl, s3)" by fastforce
    then have cl: cl using f by (auto simp: panic_def split: if_splits)
    obtain v w where v: "tokens b s2 = (CHR '')'', v, w) # tokens b (skip_token b s3)"
      using peek_sym(1) [OF _ _ q cl] by (auto simp: set_symbols)
    have "parseredirs d b (skip_token b s3) = Parsed c s'" using f q cl by simp
    then obtain us rs where us: "tokens b (skip_token b s3) = us @ tokens b s'" "simple_g us [] rs" "c = wrap rs d"
      using redirs_sound by blast
    obtain ts where "tokens b (skip_token b s1) = ts @ tokens b s2" "line_g ts d" using yieldsD [OF IHl d] by blast
    then show ?thesis using x v us by (intro exI [of _ "(CHR ''('', x, y) # ts @ (CHR '')'', v, w) # us"]) (simp add: exec_block)
  qed
qed

lemma exec_sound:
  assumes IHb: "yields exec_g (parseblock n) b"
  shows "yields exec_g (parseexec (Suc n)) b"
proof (rule yieldsI)
  fix s c s'
  assume P: "parseexec (Suc n) b s = Parsed c s'"
  show "\<exists>ts. tokens b s = ts @ tokens b s' \<and> exec_g ts c"
  proof -
    obtain m s1 where p: "peek b ''('' s = (m, s1)" by fastforce
    have t: "tokens b s1 = tokens b s" using peek_sym(3) [OF _ _ p] by (simp add: set_symbols)
    show ?thesis
    proof (cases m)
      case True
      then show ?thesis using yieldsD [OF IHb, of s1 c s'] P p t by simp
    next
      case False
      then have "items 0 (EXEC []) b s1 = Parsed c s'" using P p by simp
      from items_sound [OF this] obtain ts ws rs where r: "tokens b s1 = ts @ tokens b s'" "simple_g ts ws rs"
        "c = wrap rs (add_args ws (EXEC []))" "ws \<noteq> [] \<longrightarrow> length ws < MAXARGS" by auto
      moreover have "length ws < MAXARGS" using r(4) by (cases ws) (auto simp: MAXARGS_def)
      ultimately have "exec_g ts c" by (simp add: add_args_EXEC exec_simple)
      then show ?thesis using r(1) t by auto
    qed
  qed
qed

lemma parse_sound:
  "yields line_g (parseline n) b \<and> yields pipe_g (parsepipe n) b \<and>
   yields exec_g (parseblock n) b \<and> yields exec_g (parseexec n) b"
proof (induction n)
  case 0
  show ?case by (simp add: yields_def)
next
  case (Suc n)
  then show ?case by (blast intro: line_sound pipe_sound block_sound exec_sound)
qed

text \<open>With enough depth a parsing function follows every derivation, up to a symbol that can follow it.\<close>

lemma follow_sym: "ts @ rest = (k, x, y) # us \<Longrightarrow> ts = [] \<Longrightarrow> k \<noteq> CHR ''+'' \<Longrightarrow> next_sym rest = k"
  by (simp add: next_sym_def)

lemma not_peeked:
  assumes "k \<in> set symbols" and "next_sym (tokens b s) \<noteq> k"
  shows "peek b [k] s = (False, skip_white b s)"
proof -
  obtain m s' where p: "peek b [k] s = (m, s')" by fastforce
  have toks: "set [k] \<subseteq> set symbols" using assms(1) by simp
  from peek_tokens [OF toks p] assms(2) show ?thesis by (simp add: p)
qed

lemma simple_starts:
  assumes "simple_g ts ws rs" and "next_sym rest \<noteq> CHR ''(''"
  shows "next_sym (ts @ rest) \<noteq> CHR ''(''"
  using assms by cases (auto simp: next_sym_def redir_sym_def)

lemma backs_complete:
  assumes "tokens b s = amps @ rest" and "\<forall>a \<in> set amps. fst a = CHR ''&''" and "next_sym rest \<noteq> CHR ''&''"
  shows "\<exists>s'. parsebacks c b s = ((BACK ^^ length amps) c, s') \<and> tokens b s' = rest"
proof -
  let ?P = "\<lambda>a :: token. fst a = CHR ''&''"
  have front: "takeWhile ?P (as @ us) = as" if "\<forall>a \<in> set as. ?P a" "next_sym us \<noteq> CHR ''&''" for as us
    using that by (cases us) (auto simp: next_sym_def takeWhile_append2)
  obtain s' as where s': "parsebacks c b s = ((BACK ^^ length as) c, s')" "tokens b s = as @ tokens b s'"
    "\<forall>a \<in> set as. ?P a" "next_sym (tokens b s') \<noteq> CHR ''&''" using backs_spec [of c b s] by blast
  have "as = amps" using front [OF s'(3,4)] front [OF assms(2,3)] s'(2) assms(1) by simp
  with s' assms(1) show ?thesis by auto
qed

definition accepts ::
  "char set \<Rightarrow> nat \<Rightarrow> (nat \<Rightarrow> string \<Rightarrow> nat \<Rightarrow> cmd parse) \<Rightarrow> string \<Rightarrow> token list \<Rightarrow> cmd \<Rightarrow> bool" where
  "accepts F k f b ts c \<longleftrightarrow> (\<forall>s rest n. tokens b s = ts @ rest \<longrightarrow> next_sym rest \<in> F \<longrightarrow> 4 * length ts + k \<le> n \<longrightarrow>
     (\<exists>s'. f n b s = Parsed c s' \<and> tokens b s' = rest))"

lemma acceptsD:
  assumes "accepts F k f b ts c" and "tokens b s = ts @ rest" and "next_sym rest \<in> F" and "4 * length ts + k \<le> n"
  shows "\<exists>s'. f n b s = Parsed c s' \<and> tokens b s' = rest"
  using assms unfolding accepts_def by blast

lemma acceptsI:
  assumes "\<And>s rest n. tokens b s = ts @ rest \<Longrightarrow> next_sym rest \<in> F \<Longrightarrow> 4 * length ts + k \<le> Suc n \<Longrightarrow>
    \<exists>s'. f (Suc n) b s = Parsed c s' \<and> tokens b s' = rest" and "0 < k"
  shows "accepts F k f b ts c"
  unfolding accepts_def
proof (intro allI impI)
  fix s rest n
  assume *: "tokens b s = ts @ rest" "next_sym rest \<in> F" "4 * length ts + k \<le> n"
  then obtain m where "n = Suc m" using \<open>0 < k\<close> by (cases n) auto
  with assms(1) * show "\<exists>s'. f n b s = Parsed c s' \<and> tokens b s' = rest" by blast
qed

abbreviation "after_line \<equiv> {NUL, CHR '')''}"
abbreviation "after_pipe \<equiv> {NUL, CHR '')'', CHR ''&'', CHR '';''}"
abbreviation "after_exec \<equiv> {NUL, CHR '')'', CHR ''&'', CHR '';'', CHR ''|''}"

lemma next_sym_Cons: "next_sym ((k, x, y) # ts) = (if k = CHR ''+'' then CHR ''>'' else k)"
  by (simp add: next_sym_def)

lemma next_sym_amps: "\<forall>a \<in> set amps. fst a = CHR ''&'' \<Longrightarrow> next_sym (amps @ rest) \<in> {CHR ''&'', next_sym rest}"
  by (cases amps) (auto simp: next_sym_def)

lemma line_pipe_complete:
  assumes p: "accepts after_pipe 3 parsepipe b ts c" and amps: "\<forall>a \<in> set amps. fst a = CHR ''&''"
  shows "accepts after_line 4 parseline b (ts @ amps) ((BACK ^^ length amps) c)"
proof (rule acceptsI)
  fix s rest n
  assume t: "tokens b s = (ts @ amps) @ rest" and r: "next_sym rest \<in> after_line" and n: "4 * length (ts @ amps) + 4 \<le> Suc n"
  have t': "tokens b s = ts @ amps @ rest" using t by simp
  have "next_sym (amps @ rest) \<in> after_pipe" using next_sym_amps [OF amps, of rest] r by auto
  then obtain s1 where s1: "parsepipe n b s = Parsed c s1" "tokens b s1 = amps @ rest"
    using acceptsD [OF p t', of n] n by auto
  obtain s2 where s2: "parsebacks c b s1 = ((BACK ^^ length amps) c, s2)" "tokens b s2 = rest"
    using backs_complete [OF s1(2) amps, of c] r by auto
  have "peek b '';'' s2 = (False, skip_white b s2)" using r s2(2) by (intro not_peeked) (auto simp: set_symbols)
  with s1 s2 show "\<exists>s'. parseline (Suc n) b s = Parsed ((BACK ^^ length amps) c) s' \<and> tokens b s' = rest"
    by (simp add: tokens_skip_white)
qed simp

lemma line_list_complete:
  assumes p: "accepts after_pipe 3 parsepipe b ts c" and amps: "\<forall>a \<in> set amps. fst a = CHR ''&''"
    and l: "accepts after_line 4 parseline b us d"
  shows "accepts after_line 4 parseline b (ts @ amps @ (CHR '';'', x, y) # us) (LIST ((BACK ^^ length amps) c) d)"
proof (rule acceptsI)
  fix s rest n
  let ?us = "(CHR '';'', x, y) # us @ rest"
  assume t: "tokens b s = (ts @ amps @ (CHR '';'', x, y) # us) @ rest" and r: "next_sym rest \<in> after_line"
    and n: "4 * length (ts @ amps @ (CHR '';'', x, y) # us) + 4 \<le> Suc n"
  have t': "tokens b s = ts @ amps @ ?us" using t by simp
  have "next_sym (amps @ ?us) \<in> after_pipe" using next_sym_amps [OF amps, of ?us] by (auto simp: next_sym_Cons)
  then obtain s1 where s1: "parsepipe n b s = Parsed c s1" "tokens b s1 = amps @ ?us"
    using acceptsD [OF p t', of n] n by auto
  obtain s2 where s2: "parsebacks c b s1 = ((BACK ^^ length amps) c, s2)" "tokens b s2 = ?us"
    using backs_complete [OF s1(2) amps, of c] by (auto simp: next_sym_Cons)
  obtain s3 where s3: "peek b '';'' s2 = (True, s3)" "tokens b (skip_token b s3) = us @ rest"
    using peek_symD [OF _ _ s2(2)] by (auto simp: set_symbols)
  obtain s4 where "parseline n b (skip_token b s3) = Parsed d s4" "tokens b s4 = rest"
    using acceptsD [OF l s3(2) r, of n] n by auto
  with s1 s2 s3 show "\<exists>s'. parseline (Suc n) b s = Parsed (LIST ((BACK ^^ length amps) c) d) s' \<and> tokens b s' = rest" by simp
qed simp

lemma pipe_exec_complete:
  assumes e: "accepts after_exec 2 parseexec b ts c"
  shows "accepts after_pipe 3 parsepipe b ts c"
proof (rule acceptsI)
  fix s rest n
  assume t: "tokens b s = ts @ rest" and r: "next_sym rest \<in> after_pipe" and n: "4 * length ts + 3 \<le> Suc n"
  obtain s1 where s1: "parseexec n b s = Parsed c s1" "tokens b s1 = rest" using acceptsD [OF e t, of n] n r by auto
  have "peek b ''|'' s1 = (False, skip_white b s1)" using r s1(2) by (intro not_peeked) (auto simp: set_symbols)
  with s1 show "\<exists>s'. parsepipe (Suc n) b s = Parsed c s' \<and> tokens b s' = rest" by (simp add: tokens_skip_white)
qed simp

lemma pipe_pipe_complete:
  assumes e: "accepts after_exec 2 parseexec b ts c" and p: "accepts after_pipe 3 parsepipe b us d"
  shows "accepts after_pipe 3 parsepipe b (ts @ (CHR ''|'', x, y) # us) (PIPE c d)"
proof (rule acceptsI)
  fix s rest n
  let ?us = "(CHR ''|'', x, y) # us @ rest"
  assume t: "tokens b s = (ts @ (CHR ''|'', x, y) # us) @ rest" and r: "next_sym rest \<in> after_pipe"
    and n: "4 * length (ts @ (CHR ''|'', x, y) # us) + 3 \<le> Suc n"
  have t': "tokens b s = ts @ ?us" using t by simp
  obtain s1 where s1: "parseexec n b s = Parsed c s1" "tokens b s1 = ?us"
    using acceptsD [OF e t', of n] n by (auto simp: next_sym_Cons)
  obtain s2 where s2: "peek b ''|'' s1 = (True, s2)" "tokens b (skip_token b s2) = us @ rest"
    using peek_symD [OF _ _ s1(2)] by (auto simp: set_symbols)
  obtain s3 where "parsepipe n b (skip_token b s2) = Parsed d s3" "tokens b s3 = rest"
    using acceptsD [OF p s2(2) r, of n] n by auto
  with s1 s2 show "\<exists>s'. parsepipe (Suc n) b s = Parsed (PIPE c d) s' \<and> tokens b s' = rest" by simp
qed simp

lemma exec_simple_complete:
  assumes g: "simple_g ts ws rs" and "length ws < MAXARGS"
  shows "accepts after_exec 2 parseexec b ts (wrap rs (EXEC ws))"
proof (rule acceptsI)
  fix s rest n
  assume t: "tokens b s = ts @ rest" and r: "next_sym rest \<in> after_exec" and n: "4 * length ts + 2 \<le> Suc n"
  have "next_sym (tokens b s) \<noteq> CHR ''(''" unfolding t using simple_starts [OF g] r by auto
  then have p: "peek b ''('' s = (False, skip_white b s)" by (intro not_peeked) (auto simp: set_symbols)
  have "tokens b (skip_white b s) = ts @ rest" by (simp add: tokens_skip_white t)
  with items_complete [OF g this, of 0 "EXEC []"] assms(2) r
  obtain s' where "items 0 (EXEC []) b (skip_white b s) = Parsed (wrap rs (EXEC ws)) s'" "tokens b s' = rest"
    by (auto simp: add_args_EXEC)
  with p show "\<exists>s'. parseexec (Suc n) b s = Parsed (wrap rs (EXEC ws)) s' \<and> tokens b s' = rest" by simp
qed simp

lemma exec_block_complete:
  assumes l: "accepts after_line 4 parseline b ts c" and g: "simple_g us [] rs"
  shows "accepts after_exec 2 parseexec b ((CHR ''('', x, y) # ts @ (CHR '')'', v, w) # us) (wrap rs c)"
proof (rule acceptsI)
  fix s rest n
  let ?ts = "ts @ (CHR '')'', v, w) # us @ rest"
  assume t: "tokens b s = ((CHR ''('', x, y) # ts @ (CHR '')'', v, w) # us) @ rest" and r: "next_sym rest \<in> after_exec"
    and n: "4 * length ((CHR ''('', x, y) # ts @ (CHR '')'', v, w) # us) + 2 \<le> Suc n"
  have t': "tokens b s = (CHR ''('', x, y) # ?ts" using t by simp
  obtain s1 where s1: "peek b ''('' s = (True, s1)" "tokens b s1 = (CHR ''('', x, y) # ?ts"
    using peek_symD [OF _ _ t'] t' by (auto simp: set_symbols)
  obtain s2 where s2: "peek b ''('' s1 = (True, s2)" "tokens b (skip_token b s2) = ?ts"
    using peek_symD [OF _ _ s1(2)] by (auto simp: set_symbols)
  obtain m where m: "n = Suc m" using n by (cases n) auto
  obtain s3 where s3: "parseline m b (skip_token b s2) = Parsed c s3" "tokens b s3 = (CHR '')'', v, w) # us @ rest"
    using acceptsD [OF l s2(2), of m] n m by (auto simp: next_sym_Cons)
  obtain s4 where s4: "peek b '')'' s3 = (True, s4)" "tokens b (skip_token b s4) = us @ rest"
    using peek_symD [OF _ _ s3(2)] by (auto simp: set_symbols)
  obtain s5 where "parseredirs c b (skip_token b s4) = Parsed (wrap rs c) s5" "tokens b s5 = rest"
    using redirs_complete [OF g refl s4(2), of c] r by auto
  with s1 s2 s3 s4 m show "\<exists>s'. parseexec (Suc n) b s = Parsed (wrap rs c) s' \<and> tokens b s' = rest" by simp
qed simp

lemma parse_complete:
  "line_g ts c \<Longrightarrow> accepts after_line 4 parseline b ts c"
  "pipe_g ts c \<Longrightarrow> accepts after_pipe 3 parsepipe b ts c"
  "exec_g ts c \<Longrightarrow> accepts after_exec 2 parseexec b ts c"
  by (induction rule: line_g_pipe_g_exec_g.inducts)
    (auto intro: line_pipe_complete line_list_complete pipe_exec_complete pipe_pipe_complete exec_simple_complete exec_block_complete)

section \<open>The depth suffices\<close>

lemma bindp_Fuel: "bindp p f = Fuel \<longleftrightarrow> p = Fuel \<or> (\<exists>c s. p = Parsed c s \<and> f c s = Fuel)"
  by (cases p) simp_all

lemma items_total: "items n c b s \<noteq> Fuel"
proof (induction "length (tokens b s)" arbitrary: n c s rule: less_induct)
  case less
  show ?case
  proof (cases "tokens b s")
    case Nil
    with items_stop [of b s c n] show ?thesis by (auto simp: next_sym_def)
  next
    case (Cons t us)
    then obtain k q e where t: "tokens b s = (k, q, e) # us" by (cases t) auto
    consider "k = CHR ''a''" | "redir_sym k" | "k = CHR ''(''" | "k \<in> {CHR ''|'', CHR '')'', CHR ''&'', CHR '';''}"
      using token_kinds [OF t] by (auto simp: set_symbols redir_sym_def)
    then show ?thesis
    proof cases
      case 1
      with items_word [of b s q e us c n] t obtain s' where s': "tokens b s' = us" "items n c b s =
        (if n + 1 \<ge> MAXARGS then panic ''too many args'' else items (n + 1) (add_arg q e c) b s')" by auto
      then show ?thesis using less [of s' "add_arg q e c" "n + 1"] t by (simp add: panic_def)
    next
      case 2
      from t 2 show ?thesis
        by (cases rule: redirs_step [where c = c]) (use less t in auto)
    next
      case 3
      with items_paren [OF t, of c n] show ?thesis by auto
    next
      case 4
      then have "next_sym (tokens b s) = k" using t by (auto simp: next_sym_def)
      with items_stop [of b s c n] 4 show ?thesis by auto
    qed
  qed
qed

lemma parseredirs_total: "parseredirs c b s \<noteq> Fuel"
  using items_total [of c b s 0] by (auto simp: bindp_Fuel)

lemma parsed_le:
  "parsepipe n b s = Parsed c s' \<Longrightarrow> length (tokens b s') \<le> length (tokens b s)"
  "parseline n b s = Parsed c s' \<Longrightarrow> length (tokens b s') \<le> length (tokens b s)"
  "parseexec n b s = Parsed c s' \<Longrightarrow> length (tokens b s') \<le> length (tokens b s)"
  using parse_sound [of n b] by (fastforce dest: yieldsD)+

lemma skip_peeked_le:
  assumes "k \<in> set symbols" and "k \<noteq> CHR ''>''" and "peek b [k] s = (True, s')"
  shows "length (tokens b (skip_token b s')) < length (tokens b s)"
  using peek_sym(1) [OF assms] by auto

lemma parse_total:
  "(4 * length (tokens b s) + 4 \<le> n \<longrightarrow> parseline n b s \<noteq> Fuel) \<and>
   (4 * length (tokens b s) + 3 \<le> n \<longrightarrow> parsepipe n b s \<noteq> Fuel) \<and>
   (4 * length (tokens b s) + 1 \<le> n \<longrightarrow> parseblock n b s \<noteq> Fuel) \<and>
   (4 * length (tokens b s) + 2 \<le> n \<longrightarrow> parseexec n b s \<noteq> Fuel)"
proof (induction n arbitrary: s)
  case (Suc n)
  let ?L = "\<lambda>s. length (tokens b s)"
  have "parseline (Suc n) b s \<noteq> Fuel" if n: "4 * ?L s + 4 \<le> Suc n"
  proof
    assume F: "parseline (Suc n) b s = Fuel"
    then obtain c s1 where c: "parsepipe n b s = Parsed c s1" using Suc [of s] n by (cases "parsepipe n b s") simp_all
    moreover obtain c' s2 where "parsebacks c b s1 = (c', s2)" by fastforce
    moreover obtain m s3 where "peek b '';'' s2 = (m, s3)" by fastforce
    ultimately have p: "parsepipe n b s = Parsed c s1" "parsebacks c b s1 = (c', s2)"
      "peek b '';'' s2 = (True, s3)" "parseline n b (skip_token b s3) = Fuel"
      using F by (auto simp: bindp_Fuel split: if_split_asm)
    have "?L s2 \<le> ?L s1" using backs_spec [of c b s1] p(2) by auto
    then have "?L (skip_token b s3) < ?L s" using parsed_le(1) [OF p(1)] skip_peeked_le [OF _ _ p(3)] by (auto simp: set_symbols)
    then show False using Suc [of "skip_token b s3"] p(4) n by auto
  qed
  moreover have "parsepipe (Suc n) b s \<noteq> Fuel" if n: "4 * ?L s + 3 \<le> Suc n"
  proof
    assume F: "parsepipe (Suc n) b s = Fuel"
    then obtain c s1 where c: "parseexec n b s = Parsed c s1" using Suc [of s] n by (cases "parseexec n b s") simp_all
    moreover obtain m s2 where "peek b ''|'' s1 = (m, s2)" by fastforce
    ultimately have p: "parseexec n b s = Parsed c s1" "peek b ''|'' s1 = (True, s2)"
      "parsepipe n b (skip_token b s2) = Fuel" using F by (auto simp: bindp_Fuel split: if_split_asm)
    have "?L (skip_token b s2) < ?L s" using parsed_le(3) [OF p(1)] skip_peeked_le [OF _ _ p(2)] by (auto simp: set_symbols)
    then show False using Suc [of "skip_token b s2"] p(3) n by auto
  qed
  moreover have "parseblock (Suc n) b s \<noteq> Fuel" if n: "4 * ?L s + 1 \<le> Suc n"
  proof
    assume F: "parseblock (Suc n) b s = Fuel"
    moreover obtain m s1 where "peek b ''('' s = (m, s1)" by fastforce
    ultimately have p: "peek b ''('' s = (True, s1)" "parseline n b (skip_token b s1) = Fuel"
      by (auto simp: bindp_Fuel panic_def parseredirs_total case_prod_beta split: if_split_asm)
    have "?L (skip_token b s1) < ?L s" using skip_peeked_le [OF _ _ p(1)] by (auto simp: set_symbols)
    then show False using Suc [of "skip_token b s1"] p(2) n by auto
  qed
  moreover have "parseexec (Suc n) b s \<noteq> Fuel" if n: "4 * ?L s + 2 \<le> Suc n"
  proof -
    obtain m s1 where p: "peek b ''('' s = (m, s1)" by fastforce
    have "tokens b s1 = tokens b s" using peek_sym(3) [OF _ _ p] by (simp add: set_symbols)
    then show ?thesis using Suc [of s1] n p items_total [of "EXEC []" b s1 0] by simp
  qed
  ultimately show ?case by blast
qed simp

section \<open>The pointer stays in the line\<close>

lemma parsebacks_pos: "parsebacks c b s = (c', s') \<Longrightarrow> s \<le> length b \<Longrightarrow> s' \<le> length b"
proof (induction c b s rule: parsebacks.induct)
  case (1 c b s0)
  obtain m s where p: "peek b ''&'' s0 = (m, s)" by fastforce
  show ?case
  proof (cases m)
    case True
    then show ?thesis using 1 p peek_skip_token(2) [of b "''&''" s0 s] by (simp add: parsebacks.simps [of c b s0])
  next
    case False
    then show ?thesis using 1(2,3) p skip_white_le [of s0 b] by (auto simp: parsebacks.simps [of c b s0] peek_def Let_def)
  qed
qed

lemma parseargs_pos: "parseargs n c b s = Parsed c' s' \<Longrightarrow> s \<le> length b \<Longrightarrow> s' \<le> length b"
proof (induction "length b - s" arbitrary: n c s rule: less_induct)
  case less
  obtain m s1 where p: "peek b ''|)&;'' s = (m, s1)" by fastforce
  then have s1: "s1 = skip_white b s" by (simp add: peek_def Let_def)
  obtain k q e s2 where g: "gettoken b s1 = (k, q, e, s2)" using prod_cases4 by blast
  show ?case
  proof (cases "m \<or> k = NUL")
    case True
    moreover have "k = NUL \<Longrightarrow> s2 = skip_white b s1" using g s1 by (auto simp: gettoken_def Let_def split: if_splits)
    ultimately show ?thesis using less(2,3) p g s1 skip_white_le [of s b] by (auto simp: parseargs.simps [of n c b s] split: if_split_asm)
  next
    case False
    then obtain r s3 where r: "parseredirs (add_arg q e c) b s2 = Parsed r s3" "parseargs (n + 1) r b s3 = Parsed c' s'"
      using less(2) p g by (auto simp: parseargs.simps [of n c b s] panic_def bindp_Parsed split: if_splits)
    have "s3 \<le> length b" using parseredirs_pos [OF r(1)] gettoken_progress(5) [OF g] False by auto
    then show ?thesis using less(1) [OF args_progress [OF p g _ r(1)] r(2)] False by simp
  qed
qed

lemma peek_pos: "peek b toks s = (m, s') \<Longrightarrow> s \<le> length b \<Longrightarrow> s' \<le> length b"
  using skip_white_le [of s b] by (auto simp: peek_def Let_def)

lemma parse_pos:
  "s \<le> length b \<Longrightarrow>
   (parseline n b s = Parsed c s' \<longrightarrow> s' \<le> length b) \<and> (parsepipe n b s = Parsed c s' \<longrightarrow> s' \<le> length b) \<and>
   (parseblock n b s = Parsed c s' \<longrightarrow> s' \<le> length b) \<and> (parseexec n b s = Parsed c s' \<longrightarrow> s' \<le> length b)"
proof (induction n arbitrary: s c s')
  case (Suc n)
  have "s' \<le> length b" if P: "parseline (Suc n) b s = Parsed c s'"
  proof -
    obtain d s1 where d: "parsepipe n b s = Parsed d s1" using P by (auto simp: bindp_Parsed)
    obtain d' s2 where k: "parsebacks d b s1 = (d', s2)" by fastforce
    obtain m s3 where p: "peek b '';'' s2 = (m, s3)" by fastforce
    have "s3 \<le> length b" using Suc d by (intro peek_pos [OF p] parsebacks_pos [OF k]) blast
    then show ?thesis using P d k p Suc.IH [OF peek_skip_token(2), of _ s2 s3]
      by (cases m) (auto simp: bindp_Parsed)
  qed
  moreover have "s' \<le> length b" if P: "parsepipe (Suc n) b s = Parsed c s'"
  proof -
    obtain d s1 where d: "parseexec n b s = Parsed d s1" using P by (auto simp: bindp_Parsed)
    obtain m s2 where p: "peek b ''|'' s1 = (m, s2)" by fastforce
    have "s2 \<le> length b" using Suc d by (intro peek_pos [OF p]) blast
    then show ?thesis using P d p Suc.IH [OF peek_skip_token(2), of _ s1 s2]
      by (cases m) (auto simp: bindp_Parsed)
  qed
  moreover have "s' \<le> length b" if P: "parseblock (Suc n) b s = Parsed c s'"
  proof -
    obtain m s1 where p: "peek b ''('' s = (m, s1)" by fastforce
    then obtain d s2 where d: "parseline n b (skip_token b s1) = Parsed d s2" using P
      by (auto simp: bindp_Parsed panic_def split: if_split_asm)
    obtain m' s3 where q: "peek b '')'' s2 = (m', s3)" by fastforce
    have r: "parseredirs d b (skip_token b s3) = Parsed c s'" "m'"
      using P p d q by (auto simp: panic_def split: if_split_asm)
    then show ?thesis using parseredirs_pos [OF r(1)] peek_skip_token(2) [of b _ s2 s3] q by auto
  qed
  moreover have "s' \<le> length b" if P: "parseexec (Suc n) b s = Parsed c s'"
  proof -
    obtain m s1 where p: "peek b ''('' s = (m, s1)" by fastforce
    have s1: "s1 \<le> length b" using peek_pos [OF p] Suc.prems .
    show ?thesis
    proof (cases m)
      case True
      then show ?thesis using P p Suc.IH [OF s1] by simp
    next
      case False
      then obtain r s2 where "parseredirs (EXEC []) b s1 = Parsed r s2" "parseargs 0 r b s2 = Parsed c s'"
        using P p by (auto simp: bindp_Parsed)
      then show ?thesis using parseredirs_pos s1 parseargs_pos by blast
    qed
  qed
  ultimately show ?case by blast
qed simp

section \<open>The strings of a command\<close>

primrec words :: "cmd \<Rightarrow> (nat \<times> nat) list" where
  "words (EXEC av) = av"
| "words (REDIR c f ef m fd) = words c @ [(f, ef)]"
| "words (PIPE l r) = words l @ words r"
| "words (LIST l r) = words l @ words r"
| "words (BACK c) = words c"

definition word_tokens :: "token list \<Rightarrow> (nat \<times> nat) set" where
  "word_tokens ts = {(q, e). (CHR ''a'', q, e) \<in> set ts}"

lemma word_tokens_simps [simp]:
  "word_tokens [] = {}" "word_tokens ((k, q, e) # ts) = (if k = CHR ''a'' then {(q, e)} else {}) \<union> word_tokens ts"
  "word_tokens (ts @ us) = word_tokens ts \<union> word_tokens us"
  by (auto simp: word_tokens_def)

lemma words_redircmd: "redir_sym k \<Longrightarrow> set (words (redircmd k c q e)) = insert (q, e) (set (words c))"
  by (auto simp: redircmd_def redir_sym_def)

lemma words_simple: "simple_g ts ws rs \<Longrightarrow> set ws \<subseteq> word_tokens ts \<and> set (words (wrap rs c)) \<subseteq> set (words c) \<union> word_tokens ts"
proof (induction arbitrary: c rule: simple_g.induct)
  case (simple_redir ts ws rs k x y q e)
  then show ?case using words_redircmd [of k c q e] by (fastforce simp: redir_sym_def)
qed auto

lemma words_BACK: "words ((BACK ^^ n) c) = words c"
  by (induction n) simp_all

lemma words_tokens:
  "line_g ts c \<Longrightarrow> set (words c) \<subseteq> word_tokens ts" "pipe_g ts c \<Longrightarrow> set (words c) \<subseteq> word_tokens ts"
  "exec_g ts c \<Longrightarrow> set (words c) \<subseteq> word_tokens ts"
proof (induction rule: line_g_pipe_g_exec_g.inducts)
  case (exec_simple ts ws rs)
  then show ?case using words_simple [of ts ws rs "EXEC ws"] by auto
next
  case (exec_block ts c us rs x y v w)
  then show ?case using words_simple [of us "[]" rs c] by auto
qed (auto simp: words_BACK)

text \<open>A word is a run of ordinary characters with none behind it.\<close>

lemma word_token:
  assumes "(q, e) \<in> word_tokens (tokens b s)"
  shows "q < e \<and> e \<le> length b \<and> (\<forall>i. q \<le> i \<and> i < e \<longrightarrow> ordinary (b ! i)) \<and> (e < length b \<longrightarrow> \<not> ordinary (b ! e))"
  using assms
proof (induction b s rule: tokens.induct)
  case (1 b s)
  obtain k q' e' s' where t: "gettoken b s = (k, q', e', s')" using prod_cases4 by blast
  then have k: "k \<noteq> NUL" using 1(2) tokens_gettoken [OF t] by (auto split: if_splits)
  show ?case
  proof (cases "(q, e) \<in> word_tokens (tokens b s')")
    case True
    then show ?thesis using 1(1) [OF t [symmetric] refl refl k] by simp
  next
    case False
    then have kq: "k = CHR ''a''" "q' = q" "e' = e" using 1(2) tokens_gettoken [OF t] k by (auto split: if_splits)
    have "e = skip_word b q" using t kq by (auto simp: gettoken_def Let_def split: if_splits)
    then show ?thesis using gettoken_progress [OF t k] kq skip_word_body [of q _ b] skip_word_end [of b q] by auto
  qed
qed

lemma length_nulterminate [simp]: "length (nulterminate c m) = length m"
proof (induction c arbitrary: m)
  case (EXEC av)
  have "length (foldl (\<lambda>m (q, eq). m[eq := NUL]) m av) = length m" for m
    by (induction av arbitrary: m) (auto split: prod.split)
  then show ?case by simp
qed simp_all

lemma nth_nulterminate:
  "i < length m \<Longrightarrow> nulterminate c m ! i = (if i \<in> snd ` set (words c) then NUL else m ! i)"
proof (induction c arbitrary: m)
  case (EXEC av)
  have "foldl (\<lambda>m (q, eq). m[eq := NUL]) m av ! i = (if i \<in> snd ` set av then NUL else m ! i)" if "i < length m" for m
    using that by (induction av arbitrary: m) (auto simp: nth_list_update image_iff split: prod.split)
  with EXEC show ?case by simp
next
  case (REDIR c f ef mode fd)
  then show ?case by (cases "ef = i") (simp_all add: image_Un)
qed (simp_all add: image_Un)

lemma word_text:
  assumes cs: "is_cstring b" and w: "(q, e) \<in> set (words c)" and ws: "set (words c) \<subseteq> word_tokens (tokens b 0)"
  shows "takeWhile (\<lambda>x. x \<noteq> NUL) (drop q (nulterminate c (b @ [NUL]))) = take (e - q) (drop q b)"
proof -
  let ?m = "nulterminate c (b @ [NUL])"
  have qe: "q < e" "e \<le> length b" "\<forall>i. q \<le> i \<and> i < e \<longrightarrow> ordinary (b ! i)" using word_token [of q e b 0] w ws by auto
  have "?m ! i = b ! i" if "q \<le> i" "i < e" for i
  proof -
    have "i \<notin> snd ` set (words c)"
    proof
      assume "i \<in> snd ` set (words c)"
      then obtain p where "(p, i) \<in> word_tokens (tokens b 0)" using ws by auto
      then show False using word_token [of p i b 0] qe that by auto
    qed
    then show ?thesis using that qe by (simp add: nth_nulterminate nth_append)
  qed
  then have front: "take (e - q) (drop q ?m) = take (e - q) (drop q b)" using qe by (intro nth_equalityI) auto
  have "?m ! e = NUL" using w qe by (auto simp: nth_nulterminate image_iff)
  then have "drop e ?m = NUL # drop (Suc e) ?m" using qe Cons_nth_drop_Suc [of e ?m] by simp
  then have split: "drop q ?m = take (e - q) (drop q b) @ NUL # drop (Suc e) ?m"
    using qe front append_take_drop_id [of "e - q" "drop q ?m"] by simp
  have "NUL \<notin> set (take (e - q) (drop q b))" using cs by (auto simp: is_cstring_def dest: in_set_takeD in_set_dropD)
  then show ?thesis unfolding split by (subst takeWhile_append2) auto
qed

lemma parsecmd_eq:
  assumes "n = 4 * length b + 4"
  shows "parsecmd b = bindp (parseline n b 0) (\<lambda>c s. if skip_white b s \<noteq> length b
      then Exits (''leftovers: '' @ drop (skip_white b s) b @ [CHR 0x0A] @ ''syntax'' @ [CHR 0x0A])
      else Parsed (c, nulterminate c (b @ [NUL])) (skip_white b s))"
proof -
  have "peek b '''' s = (False, skip_white b s)" for s by (simp add: peek_def Let_def)
  then show ?thesis by (simp add: parsecmd_def assms [symmetric] del: parseline.simps)
qed

lemma at_end:
  assumes "is_cstring b" and "s \<le> length b"
  shows "skip_white b s = length b \<longleftrightarrow> tokens b s = []"
  using assms skip_white_le [OF assms(2)]
  by (auto simp: tokens_Nil at_nth is_cstring_def in_set_conv_nth split: if_splits)

lemma parsecmd_yields:
  assumes "is_cstring b" and P: "parsecmd b = Parsed (c, m) s"
  shows "line_g (tokens b 0) c \<and> m = nulterminate c (b @ [NUL]) \<and> s = length b"
proof -
  define n where "n = 4 * length b + 4"
  obtain d s' where d: "parseline n b 0 = Parsed d s'" and f: "(if skip_white b s' \<noteq> length b
    then Exits (''leftovers: '' @ drop (skip_white b s') b @ [CHR 0x0A] @ ''syntax'' @ [CHR 0x0A])
    else Parsed (d, nulterminate d (b @ [NUL])) (skip_white b s')) = Parsed (c, m) s"
    using P unfolding parsecmd_eq [OF n_def] bindp_Parsed by blast
  have e: "skip_white b s' = length b" by (rule ccontr) (use f in simp)
  with d f have s': "parseline n b 0 = Parsed c s'" "skip_white b s' = length b"
    "m = nulterminate c (b @ [NUL])" "s = length b" by auto
  have "s' \<le> length b" using parse_pos [of 0 b n c s'] s'(1) by simp
  then have "tokens b s' = []" using s'(2) at_end [OF assms(1)] by blast
  moreover obtain ts where "tokens b 0 = ts @ tokens b s'" "line_g ts c" using parse_sound s'(1) by (blast dest: yieldsD)
  ultimately show ?thesis using s' by simp
qed

lemma parsecmd_complete:
  assumes cs: "is_cstring b" and g: "line_g (tokens b 0) c"
  shows "\<exists>m. parsecmd b = Parsed (c, m) (length b)"
proof -
  define n where "n = 4 * length b + 4"
  have "4 * length (tokens b 0) + 4 \<le> n" using length_tokens [of b 0] by (simp add: n_def)
  then obtain s where s: "parseline n b 0 = Parsed c s" "tokens b s = []"
    using acceptsD [OF parse_complete(1) [OF g], of b 0 "[]" n] by (auto simp: next_sym_def)
  have "skip_white b s = length b" using at_end [OF cs, of s] parse_pos [of 0 b n c s] s by simp
  then show ?thesis using s(1) by (simp add: parsecmd_eq [OF n_def])
qed

lemma parsecmd_total: "parsecmd b \<noteq> Fuel"
proof -
  define n where "n = 4 * length b + 4"
  have "4 * length (tokens b 0) + 4 \<le> n" using length_tokens [of b 0] by (simp add: n_def)
  then show ?thesis using parse_total [of b 0 n] by (auto simp: parsecmd_eq [OF n_def] bindp_Fuel split: if_split_asm)
qed

text \<open>C11. The parser of the shell. For every command line \<open>parsecmd\<close> terminates: the depth its model is given is
  enough. It returns the command \<open>c\<close> exactly when the grammar derives \<open>c\<close> from the tokens of the line, which are
  then all consumed, and panics when there is no derivation; a line with ten words in one simple command has
  none. In the line after \<open>nulterminate\<close> every argument and every file name of the command, read as a C string
  from its start, is the word that stood there, although words, symbols and terminators share the buffer.\<close>

theorem parsecmd_correct:
  assumes "is_cstring b"
  shows "(line_g (tokens b 0) c \<longleftrightarrow> (\<exists>m. parsecmd b = Parsed (c, m) (length b))) \<and>
    ((\<exists>c m. parsecmd b = Parsed (c, m) (length b)) \<or> (\<exists>msg. parsecmd b = Exits msg)) \<and>
    (\<forall>m s. parsecmd b = Parsed (c, m) s \<longrightarrow> length m = length b + 1 \<and>
      (\<forall>(q, e) \<in> set (words c). q < e \<and> e \<le> length b \<and> takeWhile (\<lambda>x. x \<noteq> NUL) (drop q m) = take (e - q) (drop q b)))"
proof -
  have "(\<exists>c m. parsecmd b = Parsed (c, m) (length b)) \<or> (\<exists>msg. parsecmd b = Exits msg)"
    using parsecmd_yields [OF assms] parsecmd_total [of b] by (cases "parsecmd b") auto
  moreover have "length m = length b + 1 \<and>
      (\<forall>(q, e) \<in> set (words c). q < e \<and> e \<le> length b \<and> takeWhile (\<lambda>x. x \<noteq> NUL) (drop q m) = take (e - q) (drop q b))"
    if "parsecmd b = Parsed (c, m) s" for m s
    using parsecmd_yields [OF assms that] words_tokens(1) [of "tokens b 0" c] word_token [of _ _ b 0] word_text [OF assms, of _ _ c]
    by auto
  ultimately show ?thesis using parsecmd_yields [OF assms] parsecmd_complete [OF assms] by blast
qed

lemma parsecmd_example:
  "parsecmd ''cat<f|wc -l>o &'' = Parsed (BACK (PIPE (REDIR (EXEC [(0, 3)]) 4 5 0 0) (REDIR (EXEC [(6, 8), (9, 11)]) 12 13 0x201 1)),
     ''cat'' @ [NUL] @ ''f'' @ [NUL] @ ''wc'' @ [NUL] @ ''-l'' @ [NUL] @ ''o'' @ [NUL] @ ''&'' @ [NUL]) 15"
  by code_simp

theorem parsecmd_correct_witness:
  "line_g (tokens ''cat<f|wc -l>o &'' 0) (BACK (PIPE (REDIR (EXEC [(0, 3)]) 4 5 0 0) (REDIR (EXEC [(6, 8), (9, 11)]) 12 13 0x201 1)))"
proof -
  have "is_cstring ''cat<f|wc -l>o &''" by (simp add: is_cstring_def)
  from parsecmd_correct [OF this] show ?thesis by (simp add: parsecmd_example)
qed

end
