(* ===== verification/Sh_Run.thy ===== *)
theory Sh_Run
  imports Sh_Props
begin

text \<open>
  The descriptors of the programs the shell starts. The system calls of \<open>runcmd\<close> are run on a table of
  descriptors as the kernel keeps it (the lowest free descriptor is taken, \<open>fork\<close> copies the table) and are
  shown to give every program the input, output and error streams that the command asks for, and no
  other descriptor.
\<close>

section \<open>Descriptor tables\<close>

datatype stream = Console | File string nat | Pipe_r nat | Pipe_w nat

type_synonym fdtab = "nat \<Rightarrow> stream option"

definition lowest :: "fdtab \<Rightarrow> nat option" where
  "lowest fd = find (\<lambda>d. fd d = None) [0..<16]"

text \<open>The programs started, each with its arguments and its table, when \<open>fork\<close> succeeds and \<open>opens f mode\<close>
  tells whether a file can be opened. Pipes are numbered from \<open>n\<close> on.\<close>

primrec run :: "(string \<Rightarrow> nat \<Rightarrow> bool) \<Rightarrow> prog \<Rightarrow> fdtab \<Rightarrow> nat \<Rightarrow> (string list \<times> fdtab) list \<times> nat" where
  "run opens P_exit fd n = ([], n)"
| "run opens (P_close d p) fd n = run opens p (fd(d := None)) n"
| "run opens (P_open f mode p q) fd n = (case lowest fd of
     None \<Rightarrow> run opens q fd n
   | Some d \<Rightarrow> if opens f mode then run opens p (fd(d \<mapsto> File f mode)) n else run opens q fd n)"
| "run opens (P_dup d p) fd n = (case fd d of
     None \<Rightarrow> run opens p fd n
   | Some x \<Rightarrow> (case lowest fd of None \<Rightarrow> run opens p fd n | Some d' \<Rightarrow> run opens p (fd(d' \<mapsto> x)) n))"
| "run opens (P_pipe k q) fd n = (case lowest fd of
     None \<Rightarrow> run opens q fd n
   | Some p0 \<Rightarrow> (case lowest (fd(p0 \<mapsto> Pipe_r n)) of
       None \<Rightarrow> run opens q fd n
     | Some p1 \<Rightarrow> run opens (k p0 p1) (fd(p0 \<mapsto> Pipe_r n, p1 \<mapsto> Pipe_w n)) (Suc n)))"
| "run opens (P_fork c p q) fd n =
     (let (a, n1) = run opens c fd n; (b, n2) = run opens p fd n1 in (a @ b, n2))"
| "run opens (P_wait p) fd n = run opens p fd n"
| "run opens (P_exec av q) fd n = ([(av, fd)], n)"
| "run opens (P_print t p) fd n = run opens p fd n"

text \<open>The start of \<open>main\<close>: \<open>open\<close> the console until a descriptor above 2 comes back, and close that one.\<close>

function open_console :: "fdtab \<Rightarrow> fdtab" where
  "open_console fd = (case lowest fd of
     None \<Rightarrow> fd
   | Some d \<Rightarrow> if d \<ge> 3 then fd else open_console (fd(d \<mapsto> Console)))"
  by pat_completeness auto
termination
proof (relation "measure (\<lambda>fd. card {d. d < 16 \<and> fd d = None})", goal_cases)
  case (2 fd d)
  then have "d < 16" "fd d = None" by (auto simp: lowest_def find_Some_iff)
  then have "{e. e < 16 \<and> (fd(d \<mapsto> Console)) e = None} \<subset> {e. e < 16 \<and> fd e = None}" by auto
  then have "card {e. e < 16 \<and> (fd(d \<mapsto> Console)) e = None} < card {e. e < 16 \<and> fd e = None}"
    by (intro psubset_card_mono) auto
  then show ?case by (simp del: fun_upd_apply)
qed simp

declare open_console.simps [simp del]

section \<open>What a command asks for\<close>

definition std :: "stream \<Rightarrow> stream \<Rightarrow> stream \<Rightarrow> fdtab" where
  "std i o' e = [0 \<mapsto> i, 1 \<mapsto> o', 2 \<mapsto> e]"

text \<open>A redirection replaces the input or the output of its command; the two sides of a pipe have its ends as
  output and input.\<close>

primrec wires :: "(string \<Rightarrow> nat \<Rightarrow> bool) \<Rightarrow> string \<Rightarrow> cmd \<Rightarrow> stream \<Rightarrow> stream \<Rightarrow> stream \<Rightarrow> nat \<Rightarrow>
    (string list \<times> fdtab) list \<times> nat" where
  "wires opens m (EXEC av) i o' e n = (if av = [] then [] else [(map (\<lambda>(q, _). str m q) av, std i o' e)], n)"
| "wires opens m (REDIR c f ef mode fd) i o' e n =
     (if \<not> opens (str m f) mode then ([], n)
      else if fd = 0 then wires opens m c (File (str m f) mode) o' e n
      else wires opens m c i (File (str m f) mode) e n)"
| "wires opens m (PIPE l r) i o' e n =
     (let (a, n1) = wires opens m l i (Pipe_w n) e (Suc n); (b, n2) = wires opens m r (Pipe_r n) o' e n1 in (a @ b, n2))"
| "wires opens m (LIST l r) i o' e n =
     (let (a, n1) = wires opens m l i o' e n; (b, n2) = wires opens m r i o' e n1 in (a @ b, n2))"
| "wires opens m (BACK c) i o' e n = wires opens m c i o' e n"

primrec redirs_01 :: "cmd \<Rightarrow> bool" where
  "redirs_01 (EXEC av) \<longleftrightarrow> True"
| "redirs_01 (REDIR c f ef mode fd) \<longleftrightarrow> (fd = 0 \<or> fd = 1) \<and> redirs_01 c"
| "redirs_01 (PIPE l r) \<longleftrightarrow> redirs_01 l \<and> redirs_01 r"
| "redirs_01 (LIST l r) \<longleftrightarrow> redirs_01 l \<and> redirs_01 r"
| "redirs_01 (BACK c) \<longleftrightarrow> redirs_01 c"

lemma upt_16: "[0..<16] = 0 # 1 # 2 # 3 # 4 # [5..<16]"
  by (simp add: upt_rec)

lemma std_tables:
  "lowest ((std i o' e)(0 := None)) = Some 0" "lowest ((std i o' e)(1 := None)) = Some 1" "lowest (std i o' e) = Some 3"
  "lowest ((std i o' e)(3 \<mapsto> x)) = Some 4" "lowest ((std i o' e)(3 \<mapsto> x, 4 \<mapsto> y, 1 := None)) = Some 1"
  "lowest ((std i o' e)(3 \<mapsto> x, 4 \<mapsto> y, 0 := None)) = Some 0"
  "(std i o' e)(0 := None, 0 \<mapsto> x) = std x o' e" "(std i o' e)(1 := None, 1 \<mapsto> x) = std i x e"
  "(std i o' e)(3 \<mapsto> x, 4 \<mapsto> y, 1 := None, 1 \<mapsto> z, 3 := None, 4 := None) = std i z e"
  "(std i o' e)(3 \<mapsto> x, 4 \<mapsto> y, 0 := None, 0 \<mapsto> z, 3 := None, 4 := None) = std z o' e"
  by (simp_all add: lowest_def std_def upt_16 fun_eq_iff)

lemma run_runcmd: "redirs_01 c \<Longrightarrow> run opens (runcmd m c) (std i o' e) n = wires opens m c i o' e n"
proof (induction c arbitrary: i o' n)
  case (EXEC av)
  then show ?case by (auto split: list.split)
next
  case (REDIR c f ef mode fd)
  then show ?case using std_tables(1,2,7,8) by auto
next
  case (PIPE l r)
  let ?t = "(std i o' e)(3 \<mapsto> Pipe_r n, 4 \<mapsto> Pipe_w n)"
  have "run opens (P_close 1 (P_dup 4 (P_close 3 (P_close 4 (runcmd m l))))) ?t k = wires opens m l i (Pipe_w n) e k"
    "run opens (P_close 0 (P_dup 3 (P_close 3 (P_close 4 (runcmd m r))))) ?t k = wires opens m r (Pipe_r n) o' e k" for k
    using PIPE std_tables(5,6,9,10) by simp_all
  then show ?case using std_tables(3,4) by (simp add: fork1_def split: prod.split)
next
  case (LIST l r)
  then show ?case by (simp add: fork1_def)
next
  case (BACK c)
  then show ?case by (simp add: fork1_def)
qed

lemma redirs_01_wrap: "simple_g ts ws rs \<Longrightarrow> redirs_01 c \<Longrightarrow> redirs_01 (wrap rs c)"
  by (induction arbitrary: c rule: simple_g.induct) (auto simp: redircmd_def redir_sym_def)

lemma redirs_01_BACK: "redirs_01 ((BACK ^^ n) c) \<longleftrightarrow> redirs_01 c"
  by (induction n) simp_all

lemma redirs_01_parsed:
  "line_g ts c \<Longrightarrow> redirs_01 c" "pipe_g ts c \<Longrightarrow> redirs_01 c" "exec_g ts c \<Longrightarrow> redirs_01 c"
  by (induction rule: line_g_pipe_g_exec_g.inducts) (auto simp: redirs_01_BACK intro: redirs_01_wrap)

lemma wires_std: "(av, fd) \<in> set (fst (wires opens m c i o' e n)) \<Longrightarrow> \<exists>i o'. fd = std i o' e"
proof (induction c arbitrary: i o' n)
  case (PIPE l r)
  then show ?case by (fastforce simp: case_prod_beta Let_def)
next
  case (LIST l r)
  then show ?case by (fastforce simp: case_prod_beta Let_def)
qed (fastforce split: if_splits)+

lemma wires_dom: "(av, fd) \<in> set (fst (wires opens m c i o' e n)) \<Longrightarrow> dom fd = {0, 1, 2}"
  by (drule wires_std) (auto simp: std_def split: if_splits)

lemma open_console_empty: "open_console Map.empty = std Console Console Console"
proof -
  have "lowest Map.empty = Some 0" "lowest [0 \<mapsto> Console] = Some 1" "lowest [0 \<mapsto> Console, 1 \<mapsto> Console] = Some 2"
    by (simp_all add: lowest_def upt_16)
  then show ?thesis using std_tables(3) [of Console Console Console]
    by (simp add: open_console.simps [of "Map.empty"] open_console.simps [of "[0 \<mapsto> Console]"]
        open_console.simps [of "[0 \<mapsto> Console, 1 \<mapsto> Console]"] open_console.simps [of "[0 \<mapsto> Console, 1 \<mapsto> Console, 2 \<mapsto> Console]"] std_def del: fun_upd_apply One_nat_def)
qed

text \<open>C12. What the shell gives the programs it starts. A shell without descriptors opens the console three times.
  Whatever command the parser returns, running the system calls of \<open>runcmd\<close>, with their reuse of the lowest free
  descriptor, starts the programs of the command with the streams the command asks for: redirections replace
  standard input or output, a pipe joins the output of its left side to the input of its right side. A program
  has exactly the descriptors 0, 1 and 2, so no end of a pipe stays open in a program that does not use it. A file that cannot be opened keeps its command from starting.\<close>

theorem shell_descriptors:
  assumes "is_cstring b" and "parsecmd b = Parsed (c, m) s"
  shows "run opens (runcmd m c) (std i o' e) n = wires opens m c i o' e n \<and>
    (\<forall>(av, fd) \<in> set (fst (run opens (runcmd m c) (std i o' e) n)). dom fd = {0, 1, 2}) \<and>
    open_console Map.empty = std Console Console Console"
proof -
  have "line_g (tokens b 0) c" using parsecmd_yields [OF assms] by simp
  then have "run opens (runcmd m c) (std i o' e) n = wires opens m c i o' e n"
    by (intro run_runcmd redirs_01_parsed(1))
  moreover have "\<forall>(av, fd) \<in> set (fst (wires opens m c i o' e n)). dom fd = {0, 1, 2}" using wires_dom by blast
  ultimately show ?thesis using open_console_empty by simp
qed

theorem shell_descriptors_witness:
  "case parsecmd ''cat<f|wc -l>o &'' of Parsed (c, m) _ \<Rightarrow>
     run (\<lambda>_ _. True) (runcmd m c) (open_console Map.empty) 0 =
       ([([''cat''], std (File ''f'' 0) (Pipe_w 0) Console), ([''wc'', ''-l''], std (Pipe_r 0) (File ''o'' 0x201) Console)], 1)
   | _ \<Rightarrow> False"
proof -
  have "is_cstring ''cat<f|wc -l>o &''" by (simp add: is_cstring_def)
  from shell_descriptors [OF this parsecmd_example, where opens = "\<lambda>_ _. True" and i = Console and o' = Console and e = Console and n = 0]
  show ?thesis by (simp add: parsecmd_example str_def)
qed

end
