(* ===== verification/Umalloc.thy ===== *)
theory Umalloc
  imports Mmu
begin

text \<open>
  \<^verbatim>\<open>umalloc.c\<close>: the allocator of the user programs. A block begins with a header of 8 bytes, the link
  \<open>ptr\<close> and the size in units of 8 bytes, header included. Free blocks are in a circular list ordered by
  address, which starts at the static header \<open>base\<close> of size 0.

  The memory is the two fields of the headers at every address; \<open>um_brk\<close> is the size of the process, where
  \<open>sbrk\<close> gets memory. The address of \<open>base\<close> and \<open>avail\<close>, whether the kernel has pages to grow the process to a
  size, are parameters.
\<close>

record um =
  um_ptr :: "u32 \<Rightarrow> u32"
  um_size :: "u32 \<Rightarrow> u32"
  um_freep :: u32
  um_brk :: u32

definition set_ptr :: "u32 \<Rightarrow> u32 \<Rightarrow> um \<Rightarrow> um" where
  "set_ptr p v s = s\<lparr>um_ptr := (um_ptr s)(p := v)\<rparr>"

definition set_size :: "u32 \<Rightarrow> u32 \<Rightarrow> um \<Rightarrow> um" where
  "set_size p v s = s\<lparr>um_size := (um_size s)(p := v)\<rparr>"

text \<open>The header behind a block of \<open>n\<close> units.\<close>

definition plus_units :: "u32 \<Rightarrow> u32 \<Rightarrow> u32" where
  "plus_units p n = p + 8 * n"

text \<open>The loop of \<open>free\<close> that finds the free block before \<open>bp\<close>.\<close>

partial_function (option) free_find :: "um \<Rightarrow> u32 \<Rightarrow> u32 \<Rightarrow> u32 option" where
  "free_find s bp p =
     (if bp > p \<and> bp < um_ptr s p then Some p
      else if p \<ge> um_ptr s p \<and> (bp > p \<or> bp < um_ptr s p) then Some p
      else free_find s bp (um_ptr s p))"

definition free_join_next :: "u32 \<Rightarrow> u32 \<Rightarrow> um \<Rightarrow> um" where
  "free_join_next bp p s =
     (if plus_units bp (um_size s bp) = um_ptr s p
      then let s1 = set_size bp (um_size s bp + um_size s (um_ptr s p)) s
           in set_ptr bp (um_ptr s1 (um_ptr s1 p)) s1
      else set_ptr bp (um_ptr s p) s)"

definition free_join_prev :: "u32 \<Rightarrow> u32 \<Rightarrow> um \<Rightarrow> um" where
  "free_join_prev bp p s =
     (if plus_units p (um_size s p) = bp
      then let s1 = set_size p (um_size s p + um_size s bp) s in set_ptr p (um_ptr s1 bp) s1
      else set_ptr p bp s)"

definition ufree :: "u32 \<Rightarrow> um \<Rightarrow> um option" where
  "ufree ap s =
     (let bp = ap - 8 in
      case free_find s bp (um_freep s) of
        None \<Rightarrow> None
      | Some p \<Rightarrow> Some ((free_join_prev bp p (free_join_next bp p s))\<lparr>um_freep := p\<rparr>))"

text \<open>\<open>sbrk\<close>, as \<open>growproc\<close> of the kernel computes it; -1 is failure.\<close>

definition sbrk :: "(u32 \<Rightarrow> bool) \<Rightarrow> u32 \<Rightarrow> um \<Rightarrow> u32 \<times> um" where
  "sbrk avail n s =
     (let sz = um_brk s in
      if sint n > 0 then
        if sz + n \<ge> KERNBASE then (- 1, s)
        else if sz + n < sz then (sz, s)
        else if \<not> avail (sz + n) then (- 1, s)
        else (sz, s\<lparr>um_brk := sz + n\<rparr>)
      else if sint n < 0 then
        if sz + n \<ge> sz then (sz, s)
        else if sz + n = 0 then (- 1, s)
        else (sz, s\<lparr>um_brk := sz + n\<rparr>)
      else (sz, s))"

definition morecore :: "(u32 \<Rightarrow> bool) \<Rightarrow> u32 \<Rightarrow> um \<Rightarrow> (u32 \<times> um) option" where
  "morecore avail nu0 s =
     (let nu = (if nu0 < 4096 then 4096 else nu0); (hp, s1) = sbrk avail (nu * 8) s in
      if hp = - 1 then Some (0, s1)
      else case ufree (hp + 8) (set_size hp nu s1) of
        None \<Rightarrow> None
      | Some s2 \<Rightarrow> Some (um_freep s2, s2))"

text \<open>Taking \<open>nunits\<close> units from the free block \<open>p\<close>, whose predecessor is \<open>prevp\<close>: the whole block, or its tail.\<close>

definition malloc_take :: "u32 \<Rightarrow> u32 \<Rightarrow> u32 \<Rightarrow> um \<Rightarrow> u32 \<times> um" where
  "malloc_take nunits prevp p s =
     (if um_size s p = nunits then (p + 8, (set_ptr prevp (um_ptr s p) s)\<lparr>um_freep := prevp\<rparr>)
      else let s1 = set_size p (um_size s p - nunits) s; p1 = plus_units p (um_size s1 p)
           in (p1 + 8, (set_size p1 nunits s1)\<lparr>um_freep := prevp\<rparr>))"

partial_function (option) malloc_loop :: "(u32 \<Rightarrow> bool) \<Rightarrow> u32 \<Rightarrow> u32 \<Rightarrow> u32 \<Rightarrow> um \<Rightarrow> (u32 \<times> um) option" where
  "malloc_loop avail nunits prevp p s =
     (if um_size s p \<ge> nunits then Some (malloc_take nunits prevp p s)
      else if p = um_freep s then
        (case morecore avail nunits s of
           None \<Rightarrow> None
         | Some (q, s1) \<Rightarrow> if q = 0 then Some (0, s1) else malloc_loop avail nunits q (um_ptr s1 q) s1)
      else malloc_loop avail nunits p (um_ptr s p) s)"

definition malloc :: "u32 \<Rightarrow> (u32 \<Rightarrow> bool) \<Rightarrow> u32 \<Rightarrow> um \<Rightarrow> (u32 \<times> um) option" where
  "malloc base avail nbytes s0 =
     (let nunits = (nbytes + 8 - 1) div 8 + 1;
        s = (if um_freep s0 = 0 then set_size base 0 ((set_ptr base base s0)\<lparr>um_freep := base\<rparr>) else s0)
      in malloc_loop avail nunits (um_freep s) (um_ptr s (um_freep s)) s)"

end
