(* ===== verification/Umalloc_Props.thy ===== *)
theory Umalloc_Props
  imports Umalloc "HOL-Library.Disjoint_Sets"
begin

text \<open>
  The user allocator keeps its blocks apart: free and allocated blocks are disjoint, \<open>malloc\<close> returns and takes
  a block out of the free ones or out of memory it got from \<open>sbrk\<close>, and \<open>free\<close> gives a block back, joining it with its
  neighbours.
\<close>

section \<open>Chains of links\<close>

primrec chain :: "(u32 \<Rightarrow> u32) \<Rightarrow> u32 list \<Rightarrow> u32 \<Rightarrow> bool" where
  "chain f [] e \<longleftrightarrow> True"
| "chain f (x # xs) e \<longleftrightarrow> f x = hd (xs @ [e]) \<and> chain f xs e"

lemma chain_append: "chain f (xs @ ys) e \<longleftrightarrow> chain f xs (hd (ys @ [e])) \<and> chain f ys e"
proof (induction xs)
  case (Cons x xs)
  then show ?case by (cases xs) auto
qed simp

lemma chain_cong: "(\<And>x. x \<in> set xs \<Longrightarrow> f x = g x) \<Longrightarrow> chain f xs e = chain g xs e"
  by (induction xs) simp_all

lemma chain_fun_upd [simp]: "y \<notin> set xs \<Longrightarrow> chain (f(y := v)) xs e = chain f xs e"
  by (rule chain_cong) auto

text \<open>Links of a sorted chain go up, but for the last.\<close>

lemma chain_next:
  assumes "chain f xs e" and "sorted_wrt (<) xs" and "x \<in> set xs"
  shows "f x = e \<or> x < f x \<and> f x \<in> set xs"
  using assms
proof (induction xs)
  case (Cons y xs)
  then show ?case by (cases xs) auto
qed simp

section \<open>Blocks\<close>

definition ext :: "um \<Rightarrow> u32 \<Rightarrow> nat set" where
  "ext s x = {unat x ..< unat x + 8 * unat (um_size s x)}"

definition block_ok :: "u32 \<Rightarrow> um \<Rightarrow> u32 \<Rightarrow> bool" where
  "block_ok base s x \<longleftrightarrow> base < x \<and> 0 < um_size s x \<and> unat x + 8 * unat (um_size s x) \<le> unat (um_brk s)"

definition blocks_ok :: "u32 \<Rightarrow> um \<Rightarrow> u32 set \<Rightarrow> bool" where
  "blocks_ok base s B \<longleftrightarrow> (\<forall>x \<in> B. block_ok base s x) \<and> disjoint_family_on (ext s) B \<and>
     base < um_brk s \<and> unat (um_brk s) \<le> 2 ^ 31"

lemma ext_frame [simp]: "ext (set_ptr p v s) = ext s" "ext (s\<lparr>um_freep := q\<rparr>) = ext s" "ext (s\<lparr>um_brk := b\<rparr>) = ext s"
  "x \<noteq> y \<Longrightarrow> ext (set_size y n s) x = ext s x"
  by (simp_all add: fun_eq_iff ext_def set_ptr_def set_size_def)

lemma um_sel [simp]:
  "um_ptr (set_ptr p v s) = (um_ptr s)(p := v)" "um_size (set_ptr p v s) = um_size s" "um_freep (set_ptr p v s) = um_freep s"
  "um_brk (set_ptr p v s) = um_brk s" "um_ptr (set_size p v s) = um_ptr s" "um_size (set_size p v s) = (um_size s)(p := v)"
  "um_freep (set_size p v s) = um_freep s" "um_brk (set_size p v s) = um_brk s"
  by (simp_all add: set_ptr_def set_size_def)

lemma blocks_ok_frame [simp]:
  "blocks_ok base (set_ptr p v s) B = blocks_ok base s B" "blocks_ok base (s\<lparr>um_freep := q\<rparr>) B = blocks_ok base s B"
  by (simp_all add: blocks_ok_def block_ok_def)

lemma block_nonempty: "block_ok base s x \<Longrightarrow> unat x \<in> ext s x"
  by (simp add: block_ok_def ext_def word_less_nat_alt)

lemma blocks_disjoint: "blocks_ok base s B \<Longrightarrow> x \<in> B \<Longrightarrow> y \<in> B \<Longrightarrow> x \<noteq> y \<Longrightarrow> ext s x \<inter> ext s y = {}"
  by (auto simp: blocks_ok_def disjoint_family_on_def)

text \<open>The end of a block, as the code computes it.\<close>

lemma plus_units_unat:
  assumes "unat x + 8 * unat n < 2 ^ 32"
  shows "unat (plus_units x n) = unat x + 8 * unat n"
proof -
  have "unat (8 * n) = 8 * unat n" using assms by (subst unat_mult_lem [THEN iffD1]) auto
  then show ?thesis using assms unfolding plus_units_def by (subst unat_add_lem [THEN iffD1]) auto
qed

lemma sizes_add:
  assumes "blocks_ok base s B" and "x \<in> B" and "y \<in> B"
  shows "um_size s x \<le> um_size s x + um_size s y"
proof -
  have "block_ok base s x" "block_ok base s y" "unat (um_brk s) \<le> 2 ^ 31" using assms by (auto simp: blocks_ok_def)
  then have "unat (um_size s x) + unat (um_size s y) < 2 ^ 32" by (simp add: block_ok_def)
  then show ?thesis by (simp add: word_le_nat_alt unat_add_lem [THEN iffD1])
qed

text \<open>Joining a block with the one behind it.\<close>

lemma blocks_join:
  assumes ok: "blocks_ok base s B" and B: "x \<in> B" "y \<in> B" and adj: "plus_units x (um_size s x) = y"
    and s': "s' = set_size x (um_size s x + um_size s y) s"
  shows "blocks_ok base s' (B - {y})" and "ext s' x = ext s x \<union> ext s y" and "x \<noteq> y" and "x < y"
proof -
  have bx: "block_ok base s x" "block_ok base s y" and brk: "unat (um_brk s) \<le> 2 ^ 31" using ok B by (auto simp: blocks_ok_def)
  then have y: "unat y = unat x + 8 * unat (um_size s x)"
    using plus_units_unat [of x "um_size s x"] adj by (simp add: block_ok_def)
  have pos: "0 < unat (um_size s x)" using bx(1) by (simp add: block_ok_def word_less_nat_alt)
  show ne: "x \<noteq> y" and "x < y" using y pos by (auto simp: word_less_nat_alt)
  have sum: "unat (um_size s x + um_size s y) = unat (um_size s x) + unat (um_size s y)"
    using bx brk y by (subst unat_add_lem [THEN iffD1]) (auto simp: block_ok_def)
  show e: "ext s' x = ext s x \<union> ext s y" using y sum by (auto simp: ext_def s' ivl_disj_un)
  have "block_ok base s' z" if "z \<in> B - {y}" for z
  proof (cases "z = x")
    case True
    then show ?thesis using bx sum y pos by (simp add: block_ok_def s' word_less_nat_alt)
  next
    case False
    then show ?thesis using ok that by (simp add: block_ok_def s' blocks_ok_def)
  qed
  moreover have "disjoint_family_on (ext s') (B - {y})"
    unfolding disjoint_family_on_def
  proof (intro ballI impI)
    fix a b assume ab: "a \<in> B - {y}" "b \<in> B - {y}" "a \<noteq> b"
    have "ext s' a = (if a = x then ext s x \<union> ext s y else ext s a)" "ext s' b = (if b = x then ext s x \<union> ext s y else ext s b)"
      using e by (auto simp: s')
    moreover have "ext s a \<inter> ext s b = {}" "ext s y \<inter> ext s b = {}" "ext s a \<inter> ext s y = {}"
      using ab B(2) blocks_disjoint [OF ok] by auto
    ultimately show "ext s' a \<inter> ext s' b = {}" using ab(3) by auto
  qed
  ultimately show "blocks_ok base s' (B - {y})" using ok by (simp add: blocks_ok_def s')
qed

text \<open>Cutting the tail off a block.\<close>

lemma blocks_split:
  assumes ok: "blocks_ok base s B" and x: "x \<in> B" and n: "0 < n" "n < um_size s x"
    and y: "y = plus_units x (um_size s x - n)" and s': "s' = set_size y n (set_size x (um_size s x - n) s)"
  shows "blocks_ok base s' (insert y B)" and "y \<notin> B" and "ext s x = ext s' x \<union> ext s' y" and "x < y"
    and "ext s' x \<inter> ext s' y = {}" and "z \<in> B \<Longrightarrow> z \<noteq> x \<Longrightarrow> ext s' z = ext s z"
proof -
  have bx: "block_ok base s x" and brk: "unat (um_brk s) \<le> 2 ^ 31" using ok x by (auto simp: blocks_ok_def)
  have d: "unat (um_size s x - n) = unat (um_size s x) - unat n" using n(2) by (simp add: unat_sub less_imp_le)
  have lt: "unat n < unat (um_size s x)" "0 < unat n" using n by (simp_all add: word_less_nat_alt)
  have uy: "unat y = unat x + 8 * (unat (um_size s x) - unat n)"
    unfolding y using bx brk d by (subst plus_units_unat) (auto simp: block_ok_def)
  then show xy: "x < y" using lt by (simp add: word_less_nat_alt)
  have iny: "unat y \<in> ext s x" using uy lt by (simp add: ext_def)
  show yB: "y \<notin> B"
  proof
    assume "y \<in> B"
    then have "unat y \<in> ext s y" using ok block_nonempty by (auto simp: blocks_ok_def)
    then show False using blocks_disjoint [OF ok x \<open>y \<in> B\<close>] iny xy by auto
  qed
  have e: "ext s' x = {unat x ..< unat y}" "ext s' y = {unat y ..< unat x + 8 * unat (um_size s x)}"
  proof -
    have sz: "um_size s' x = um_size s x - n" "um_size s' y = n" using xy by (auto simp: s')
    have "unat y + 8 * unat n = unat x + 8 * unat (um_size s x)" using uy lt by simp
    then show "ext s' y = {unat y ..< unat x + 8 * unat (um_size s x)}" by (simp only: ext_def sz)
    show "ext s' x = {unat x ..< unat y}" by (simp add: ext_def sz uy d)
  qed
  show u: "ext s x = ext s' x \<union> ext s' y" unfolding e using iny xy by (auto simp: ext_def word_less_nat_alt)
  show dj: "ext s' x \<inter> ext s' y = {}" unfolding e by auto
  show oth: "ext s' z = ext s z" if "z \<in> B" "z \<noteq> x" for z
  proof -
    have "z \<noteq> y" using that yB by auto
    then show ?thesis using that by (simp add: s')
  qed
  have sz: "um_size s' x = um_size s x - n" "um_size s' y = n" "um_brk s' = um_brk s" using xy by (auto simp: s')
  have ends: "unat y + 8 * unat n = unat x + 8 * unat (um_size s x)" using uy lt by simp
  have "block_ok base s' x" using bx lt uy d ends by (simp add: block_ok_def sz word_less_nat_alt)
  moreover have "block_ok base s' y" using bx n(1) ends less_trans [OF _ xy] by (simp add: block_ok_def sz)
  moreover have "block_ok base s' z" if "z \<in> B" "z \<noteq> x" for z
  proof -
    have "z \<noteq> y" using that yB by auto
    then show ?thesis using that ok by (simp add: block_ok_def s' blocks_ok_def)
  qed
  ultimately have "block_ok base s' z" if "z \<in> insert y B" for z using that by blast
  moreover have "disjoint_family_on (ext s') (insert y B)"
    unfolding disjoint_family_on_def
  proof (intro ballI impI)
    fix a b assume ab: "a \<in> insert y B" "b \<in> insert y B" "a \<noteq> b"
    have sub: "ext s' c \<subseteq> ext s (if c = y then x else c)" if "c \<in> insert y B" for c
      using that u oth by (cases "c = x \<or> c = y") auto
    show "ext s' a \<inter> ext s' b = {}"
    proof (cases "{a, b} = {x, y}")
      case True
      then show ?thesis using dj ab(3) by (auto simp: doubleton_eq_iff)
    next
      case False
      then have "(if a = y then x else a) \<noteq> (if b = y then x else b)" using ab yB x by auto
      then have "ext s (if a = y then x else a) \<inter> ext s (if b = y then x else b) = {}"
        using ab x by (intro blocks_disjoint [OF ok]) auto
      then show ?thesis using sub [OF ab(1)] sub [OF ab(2)] by blast
    qed
  qed
  ultimately show "blocks_ok base s' (insert y B)" using ok by (simp add: blocks_ok_def s')
qed


lemma blocks_subset: "blocks_ok base s B \<Longrightarrow> C \<subseteq> B \<Longrightarrow> blocks_ok base s C"
  unfolding blocks_ok_def using disjoint_family_on_mono by blast

text \<open>A block of the memory \<open>sbrk\<close> has added.\<close>

lemma blocks_new:
  assumes ok: "blocks_ok base s B" and n: "0 < n" "unat (um_brk s) + 8 * unat n \<le> 2 ^ 31"
    and s': "s' = set_size (um_brk s) n (s\<lparr>um_brk := um_brk s + 8 * n\<rparr>)"
  shows "blocks_ok base s' (insert (um_brk s) B)" and "um_brk s \<notin> B" and "z \<in> B \<Longrightarrow> ext s' z = ext s z"
proof -
  let ?h = "um_brk s"
  have brk: "unat (?h + 8 * n) = unat ?h + 8 * unat n" using plus_units_unat [of ?h n] n(2) by (simp add: plus_units_def)
  have below: "ext s z \<subseteq> {..< unat ?h}" if "z \<in> B" for z using ok that by (auto simp: blocks_ok_def block_ok_def ext_def)
  show nB: "?h \<notin> B" using below block_nonempty ok by (fastforce simp: blocks_ok_def)
  show same: "ext s' z = ext s z" if "z \<in> B" for z
  proof -
    have "z \<noteq> ?h" using that nB by auto
    then show ?thesis by (simp add: s')
  qed
  have new: "ext s' ?h \<inter> {..< unat ?h} = {}" by (auto simp: ext_def)
  have "block_ok base s' z" if "z \<in> insert ?h B" for z
  proof (cases "z = ?h")
    case True
    then show ?thesis using ok n brk by (simp add: block_ok_def s' blocks_ok_def)
  next
    case False
    then show ?thesis using ok that brk by (auto simp: block_ok_def s' blocks_ok_def)
  qed
  moreover have "disjoint_family_on (ext s') (insert ?h B)"
    unfolding disjoint_family_on_def
  proof (intro ballI impI)
    fix a b assume ab: "a \<in> insert ?h B" "b \<in> insert ?h B" "a \<noteq> b"
    show "ext s' a \<inter> ext s' b = {}"
    proof (cases "a = ?h \<or> b = ?h")
      case True
      then show ?thesis using ab same below new by fastforce
    next
      case False
      then show ?thesis using ab same blocks_disjoint [OF ok] by auto
    qed
  qed
  moreover have "base < um_brk s'" using ok n brk by (auto simp: blocks_ok_def s' word_less_nat_alt)
  ultimately show "blocks_ok base s' (insert ?h B)" using n(2) brk by (simp add: blocks_ok_def s')
qed

section \<open>The free list\<close>

definition list_ok :: "u32 \<Rightarrow> um \<Rightarrow> u32 list \<Rightarrow> bool" where
  "list_ok base s fs \<longleftrightarrow> sorted_wrt (<) (base # fs) \<and> chain (um_ptr s) (base # fs) base \<and>
     um_freep s \<in> set (base # fs) \<and> um_size s base = 0 \<and> base \<noteq> 0"

text \<open>\<open>fs\<close> are the free blocks in order, \<open>A\<close> the allocated ones.\<close>

definition heap_ok :: "u32 \<Rightarrow> um \<Rightarrow> u32 list \<Rightarrow> u32 set \<Rightarrow> bool" where
  "heap_ok base s fs A \<longleftrightarrow> list_ok base s fs \<and> blocks_ok base s (set fs \<union> A) \<and> set fs \<inter> A = {}"

definition passes :: "um \<Rightarrow> u32 \<Rightarrow> u32 \<Rightarrow> bool" where
  "passes s bp x \<longleftrightarrow> \<not> (bp > x \<and> bp < um_ptr s x) \<and> \<not> (x \<ge> um_ptr s x \<and> (bp > x \<or> bp < um_ptr s x))"

lemma free_find_walk:
  "chain (um_ptr s) xs t \<Longrightarrow> \<forall>x \<in> set xs. passes s bp x \<Longrightarrow> free_find s bp (hd (xs @ [t])) = free_find s bp t"
proof (induction xs)
  case (Cons x xs)
  then have "free_find s bp x = free_find s bp (um_ptr s x)" by (subst free_find.simps) (auto simp: passes_def)
  with Cons show ?case by simp
qed simp

lemma free_find_before:
  assumes l: "list_ok base s fs" and split: "base # fs = us @ p # vs" and below: "\<forall>x \<in> set us. x < p" "p < bp"
    and above: "\<forall>x \<in> set vs. bp < x"
  shows "free_find s bp (um_freep s) = Some p"
proof -
  let ?f = "um_ptr s"
  have so: "sorted_wrt (<) (us @ p # vs)" and ch: "chain ?f (us @ p # vs) base" and fr: "um_freep s \<in> set (us @ p # vs)"
    using l split by (simp_all only: list_ok_def)
  have base: "base < bp" using split below by (cases us) auto
  have chus: "chain ?f us p" "?f p = hd (vs @ [base])" "chain ?f vs base" using ch by (simp_all add: chain_append)
  have "p < bp \<and> (vs = [] \<longrightarrow> base \<le> p)" using below split by (cases us) (auto intro: less_imp_le)
  then have here: "free_find s bp p = Some p"
    using chus(2) above by (subst free_find.simps) (cases vs, auto)
  have pus: "passes s bp x" if "x \<in> set us" for x
    using chain_next [OF chus(1) _ that] so below that by (auto simp: passes_def sorted_wrt_append)
  have pvs: "passes s bp x" if "x \<in> set vs" for x
    using chain_next [OF chus(3) _ that] so above base that by (auto simp: passes_def sorted_wrt_append)
  consider as cs where "us = as @ um_freep s # cs" | "um_freep s = p" | as cs where "vs = as @ um_freep s # cs"
    using fr by (auto dest: split_list)
  then show ?thesis
  proof cases
    case (1 as cs)
    then show ?thesis using free_find_walk [of s "um_freep s # cs" p bp] pus chus(1) here by (auto simp: chain_append)
  next
    case 2
    then show ?thesis using here by simp
  next
    case (3 as cs)
    have "hd (us @ [p]) = base" using split by (cases us) auto
    moreover have "chain ?f (um_freep s # cs) base" using 3 chus(3) by (simp add: chain_append)
    ultimately have "chain ?f ((um_freep s # cs) @ us) p" using chus(1) unfolding chain_append by (simp del: chain.simps)
    then show ?thesis using free_find_walk [of s "(um_freep s # cs) @ us" p bp] pus pvs 3 here by auto
  qed
qed

section \<open>Freeing\<close>

definition free_bytes :: "um \<Rightarrow> u32 list \<Rightarrow> nat set" where
  "free_bytes s xs = (\<Union>x \<in> set xs. ext s x)"

lemma free_bytes_simps [simp]: "free_bytes s [] = {}" "free_bytes s (x # xs) = ext s x \<union> free_bytes s xs"
  "free_bytes s (xs @ ys) = free_bytes s xs \<union> free_bytes s ys"
  "free_bytes (set_ptr p v s) = free_bytes s" "free_bytes (s\<lparr>um_freep := q\<rparr>) = free_bytes s"
  by (auto simp: free_bytes_def fun_eq_iff)

lemma free_bytes_set_size [simp]: "x \<notin> set xs \<Longrightarrow> free_bytes (set_size x n s) xs = free_bytes s xs"
  unfolding free_bytes_def by (rule SUP_cong [OF refl]) (metis ext_frame(4))

lemma free_bytes_cong: "(\<And>x. x \<in> set xs \<Longrightarrow> ext s x = ext s' x) \<Longrightarrow> free_bytes s xs = free_bytes s' xs"
  by (simp add: free_bytes_def)

lemma ext_base: "um_size s base = 0 \<Longrightarrow> ext s base = {}"
  by (simp add: ext_def)

text \<open>The place of a block in the free list.\<close>

lemma find_place:
  assumes "sorted_wrt (<) ((base :: u32) # fs)" and "base < h" and "h \<notin> set fs"
  obtains us p vs where "base # fs = us @ p # vs" and "\<forall>x \<in> set us. x < p" and "p < h" and "\<forall>x \<in> set vs. h < x"
proof -
  let ?a = "takeWhile (\<lambda>x. x < h) (base # fs)" and ?b = "dropWhile (\<lambda>x. x < h) (base # fs)"
  have ne: "?a \<noteq> []" using assms(2) by simp
  define us p where "us = butlast ?a" and "p = last ?a"
  have a: "?a = us @ [p]" using ne by (simp add: us_def p_def)
  have eq: "base # fs = us @ p # ?b" using a takeWhile_dropWhile_id [of "\<lambda>x. x < h" "base # fs"] by simp
  have so: "sorted_wrt (<) (us @ p # ?b)" using assms(1) eq by simp
  have "p < h" using a set_takeWhileD [of p "\<lambda>x. x < h" "base # fs"] by simp
  moreover have "\<forall>x \<in> set ?b. h < x"
  proof (cases ?b)
    case (Cons y ys)
    then have "\<not> y < h" using hd_dropWhile [of "\<lambda>x. x < h" "base # fs"] by auto
    moreover have "y \<in> set (base # fs)" using Cons eq by (metis in_set_conv_decomp set_dropWhileD list.set_intros(1))
    then have "y \<noteq> h" using assms(2,3) by auto
    ultimately have "h < y" by auto
    then show ?thesis using so Cons by (auto simp: sorted_wrt_append intro: less_trans)
  qed simp
  moreover have "\<forall>x \<in> set us. x < p" using so by (simp only: sorted_wrt_append) auto
  ultimately show thesis using that [OF eq] by blast
qed

lemma join_next_spec:
  assumes ok: "blocks_ok base s B" and h: "h \<in> B" and p: "um_ptr s p = hd (vs @ [base])" and ch: "chain (um_ptr s) vs base"
    and vs: "\<forall>x \<in> set vs. h < x \<and> x \<in> B" "distinct vs" and ne: "p \<noteq> h" "p \<notin> set vs"
  obtains ws where "um_ptr (free_join_next h p s) = (um_ptr s)(h := hd (ws @ [base]))"
    and "\<exists>c. um_size (free_join_next h p s) = (um_size s)(h := c) \<and> um_size s h \<le> c"
    and "um_brk (free_join_next h p s) = um_brk s" and "vs = ws \<or> (\<exists>x. vs = x # ws)"
    and "blocks_ok base (free_join_next h p s) (B - (set vs - set ws))"
    and "ext (free_join_next h p s) h \<union> free_bytes s ws = ext s h \<union> free_bytes s vs"
proof (cases "plus_units h (um_size s h) = um_ptr s p")
  case False
  then show ?thesis using ok p by (intro that [of vs]) (auto simp: free_join_next_def intro: exI [of _ "um_size s h"])
next
  case True
  have bh: "block_ok base s h" "base < h" and brk: "unat (um_brk s) \<le> 2 ^ 31" using ok h by (auto simp: blocks_ok_def block_ok_def)
  have "unat h < unat (um_ptr s p)"
    using plus_units_unat [of h "um_size s h"] True bh brk by (simp add: block_ok_def word_less_nat_alt)
  then obtain x ws where x: "vs = x # ws" using p bh(2) by (cases vs) (auto simp: word_less_nat_alt)
  let ?s = "set_size h (um_size s h + um_size s x) s"
  have xB: "x \<in> B" "um_ptr s p = x" "um_ptr s x = hd (ws @ [base])" "x \<notin> set ws" using vs p ch x by auto
  have s1: "free_join_next h p s = set_ptr h (hd (ws @ [base])) ?s"
    using True xB by (simp add: free_join_next_def)
  note j = blocks_join [OF ok h xB(1) _ refl, unfolded xB(2) [symmetric], OF True, unfolded xB(2)]
  have "um_size s h \<le> um_size s h + um_size s x" using sizes_add [OF ok h xB(1)] .
  then show ?thesis using j x xB s1 vs(2) by (intro that [of ws]) (auto simp: Diff_insert_absorb insert_Diff_if)
qed

lemma join_prev_spec:
  assumes ok: "blocks_ok base s B" and h: "h \<in> B" and p: "p = base \<or> p \<in> B" "p \<noteq> h" and b0: "um_size s base = 0"
    and f: "um_ptr s h = hd (ws @ [base])" and hw: "h \<notin> set ws" "p \<notin> set ws"
  obtains xs where "um_ptr (free_join_prev h p s) = (um_ptr s)(p := hd (xs @ [base]))"
    and "um_brk (free_join_prev h p s) = um_brk s"
    and "xs = ws \<or> xs = h # ws" and "\<forall>x. x \<noteq> p \<longrightarrow> um_size (free_join_prev h p s) x = um_size s x"
    and "blocks_ok base (free_join_prev h p s) (if xs = ws then B - {h} else B)"
    and "ext (free_join_prev h p s) p \<union> free_bytes (free_join_prev h p s) xs = ext s p \<union> ext s h \<union> free_bytes s ws"
    and "um_size (free_join_prev h p s) base = 0"
    and "\<exists>x. (x = p \<and> p \<noteq> base \<or> x = h \<and> xs = h # ws) \<and> um_size s h \<le> um_size (free_join_prev h p s) x"
proof (cases "plus_units p (um_size s p) = h")
  case False
  then have eq: "free_join_prev h p s = set_ptr p h s" by (simp add: free_join_prev_def)
  show ?thesis by (rule that [of "h # ws"]) (use ok b0 eq in auto)
next
  case True
  have base: "base < h" using ok h by (auto simp: blocks_ok_def block_ok_def)
  have pb: "p \<noteq> base" using True b0 base by (auto simp: plus_units_def)
  then have pB: "p \<in> B" using p by simp
  let ?s = "set_size p (um_size s p + um_size s h) s"
  have eq: "free_join_prev h p s = set_ptr p (um_ptr s h) ?s" using True by (simp add: free_join_prev_def)
  note j = blocks_join [OF ok pB h True refl]
  have "um_size s h \<le> um_size s p + um_size s h" using sizes_add [OF ok h pB] by (simp add: add.commute)
  moreover have "free_bytes ?s ws = free_bytes s ws" using hw by simp
  moreover have "ws \<noteq> h # ws" by simp
  ultimately show ?thesis
    by (intro that [of ws]) (use j eq f b0 pb in auto)
qed

lemma relink:
  assumes so: "sorted_wrt (<) (us @ p # vs)" and ch: "chain f (us @ p # vs) base" and h: "p < h" "\<forall>x \<in> set vs. h < x"
    and ws: "vs = ws \<or> (\<exists>x. vs = x # ws)" and xs: "xs = ws \<or> xs = h # ws"
    and f': "f' = f(h := hd (ws @ [base]), p := hd (xs @ [base]))"
  shows "sorted_wrt (<) (us @ p # xs)" and "chain f' (us @ p # xs) base"
proof -
  have us: "sorted_wrt (<) us" "\<forall>x \<in> set us. x < p" "sorted_wrt (<) vs" "\<forall>x \<in> set vs. p < x" using so by (auto simp: sorted_wrt_append)
  have w: "set ws \<subseteq> set vs" "sorted_wrt (<) ws" using ws us(3) by auto
  then have "sorted_wrt (<) (h # ws)" using h(2) by auto
  then have sxs: "sorted_wrt (<) xs" "\<forall>x \<in> set xs. h \<le> x" using xs by (auto intro: less_imp_le)
  then have "\<forall>x \<in> set xs. p < x" using h(1) by (auto intro: less_le_trans)
  then show "sorted_wrt (<) (us @ p # xs)" using us sxs(1) by (auto simp: sorted_wrt_append intro: less_trans)
  have new: "h \<notin> set us" "p \<notin> set us" "h \<notin> set ws" "p \<notin> set ws" "p \<noteq> h"
  proof -
    have "\<forall>x \<in> set us. x < h" using us(2) h(1) less_trans by blast
    then show "h \<notin> set us" "p \<notin> set us" "h \<notin> set ws" "p \<notin> set ws" "p \<noteq> h" using us(2,4) h w(1) by auto
  qed
  have "chain f us p" "chain f ws base" using ch ws by (auto simp: chain_append)
  then show "chain f' (us @ p # xs) base" using new xs by (auto simp: f' chain_append)
qed

text \<open>\<open>free\<close> puts the block into the list; nothing else moves.\<close>

lemma ufree_spec:
  assumes ok: "heap_ok base s fs A" and h: "h \<in> A"
  shows "\<exists>s' fs'. ufree (h + 8) s = Some s' \<and> heap_ok base s' fs' (A - {h}) \<and>
    free_bytes s' fs' = free_bytes s fs \<union> ext s h \<and> (\<forall>x \<in> A - {h}. um_size s' x = um_size s x) \<and>
    um_brk s' = um_brk s \<and> (\<exists>x \<in> set fs'. um_size s h \<le> um_size s' x)"
proof -
  let ?B = "set fs \<union> A"
  have l: "list_ok base s fs" and bl: "blocks_ok base s ?B" and dj: "set fs \<inter> A = {}" using ok by (auto simp: heap_ok_def)
  have so: "sorted_wrt (<) (base # fs)" and ch: "chain (um_ptr s) (base # fs) base" and b0: "um_size s base = 0" "base \<noteq> 0"
    using l by (auto simp: list_ok_def)
  have hB: "h \<in> ?B" "h \<notin> set fs" and gt: "\<And>x. x \<in> ?B \<Longrightarrow> base < x" using h dj bl by (auto simp: blocks_ok_def block_ok_def)
  have bh: "base < h" using gt hB by simp
  obtain us p vs where sp: "base # fs = us @ p # vs" "\<forall>x \<in> set us. x < p" "p < h" "\<forall>x \<in> set vs. h < x"
    using find_place [OF so bh hB(2)] by blast
  have dist: "distinct (us @ p # vs)" using so unfolding sp(1) by (simp add: strict_sorted_iff del: distinct_append sorted_append)
  have fnd: "free_find s h (um_freep s) = Some p" using free_find_before [OF l sp] .
  have ch3: "chain (um_ptr s) us p" "um_ptr s p = hd (vs @ [base])" "chain (um_ptr s) vs base"
    using ch unfolding sp(1) by (simp_all add: chain_append)
  have setfs: "set (us @ p # vs) = insert base (set fs)" unfolding sp(1) [symmetric] by simp
  have vsfs: "x \<in> set fs" if "x \<in> set vs" for x
  proof -
    have "x \<in> insert base (set fs)" using that by (simp add: setfs [symmetric])
    moreover have "base < x" using that sp(4) bh by (auto intro: less_trans)
    ultimately show ?thesis by auto
  qed
  then have vsB: "\<forall>x \<in> set vs. h < x \<and> x \<in> ?B" using sp(4) by blast
  define s1 where "s1 = free_join_next h p s"
  obtain ws where n: "um_ptr s1 = (um_ptr s)(h := hd (ws @ [base]))" "\<exists>c. um_size s1 = (um_size s)(h := c) \<and> um_size s h \<le> c"
    "um_brk s1 = um_brk s" "vs = ws \<or> (\<exists>x. vs = x # ws)" "blocks_ok base s1 (?B - (set vs - set ws))"
    "ext s1 h \<union> free_bytes s ws = ext s h \<union> free_bytes s vs"
    unfolding s1_def using join_next_spec [OF bl hB(1) ch3(2,3) vsB] dist sp(3) by auto
  let ?B1 = "?B - (set vs - set ws)"
  have wv: "set ws \<subseteq> set vs" using n(4) by auto
  have pus: "p \<notin> set us" "p \<notin> set vs" "h \<notin> set us" "h \<notin> set vs" "p \<noteq> h" "p = base \<or> p \<in> set fs"
    using dist sp(2-4) setfs by auto
  have pws: "p \<notin> set ws" "h \<notin> set ws" using pus(2,4) wv by auto
  have s1p: "um_size s1 base = 0" "um_ptr s1 h = hd (ws @ [base])" using n(1,2) b0 bh by auto
  define s2 where "s2 = free_join_prev h p s1"
  obtain xs where m: "um_ptr s2 = (um_ptr s1)(p := hd (xs @ [base]))" "um_brk s2 = um_brk s1" "xs = ws \<or> xs = h # ws"
    "\<forall>x. x \<noteq> p \<longrightarrow> um_size s2 x = um_size s1 x" "blocks_ok base s2 (if xs = ws then ?B1 - {h} else ?B1)"
    "ext s2 p \<union> free_bytes s2 xs = ext s1 p \<union> ext s1 h \<union> free_bytes s1 ws" "um_size s2 base = 0"
    "\<exists>x. (x = p \<and> p \<noteq> base \<or> x = h \<and> xs = h # ws) \<and> um_size s1 h \<le> um_size s2 x"
    unfolding s2_def using join_prev_spec [OF n(5) _ _ _ s1p] hB pus wv by blast
  define fs' where "fs' = tl (us @ p # xs)"
  have fs': "base # fs' = us @ p # xs" using sp(1) by (cases us) (auto simp: fs'_def)
  have "um_ptr s2 = (um_ptr s)(h := hd (ws @ [base]), p := hd (xs @ [base]))" using m(1) n(1) by simp
  from relink [OF so [unfolded sp(1)] ch [unfolded sp(1)] sp(3,4) n(4) m(3) this]
  have srt: "sorted_wrt (<) (us @ p # xs)" and "chain (um_ptr s2) (us @ p # xs) base" by blast+
  with srt have "list_ok base (s2\<lparr>um_freep := p\<rparr>) fs'"
    unfolding list_ok_def fs' using m(7) b0(2) by simp
  moreover have setfs': "set fs' \<subseteq> set fs - (set vs - set ws) \<union> (if xs = ws then {} else {h})"
  proof
    fix x assume x: "x \<in> set fs'"
    have "base \<notin> set fs'" using srt unfolding fs' [symmetric] by auto
    with x have "x \<in> set us \<union> {p} \<union> set xs" "x \<noteq> base" using arg_cong [OF fs', of set] by auto
    moreover have "set us \<union> {p} \<union> set vs = insert base (set fs)" "(set us \<union> {p}) \<inter> set vs = {}" using setfs dist by auto
    ultimately show "x \<in> set fs - (set vs - set ws) \<union> (if xs = ws then {} else {h})" using m(3) wv by auto
  qed
  moreover have "blocks_ok base s2 (set fs' \<union> (A - {h}))"
    using setfs' dj vsfs hB by (intro blocks_subset [OF m(5)]) auto
  moreover have "set fs' \<inter> (A - {h}) = {}" using setfs' dj by (auto split: if_splits)
  ultimately have "heap_ok base (s2\<lparr>um_freep := p\<rparr>) fs' (A - {h})" by (simp add: heap_ok_def)
  moreover have "free_bytes s2 fs' = free_bytes s fs \<union> ext s h"
  proof -
    have same: "ext s2 x = ext s x" if "x \<noteq> h" "x \<noteq> p" for x using that m(4) n(2) by (auto simp: ext_def)
    have one: "ext s1 x = ext s x" if "x \<noteq> h" for x using that n(2) by (auto simp: ext_def)
    have "free_bytes s2 us = free_bytes s us" using same pus(1,3) by (intro free_bytes_cong) metis
    moreover have "free_bytes s1 ws = free_bytes s ws" using one pws(2) by (intro free_bytes_cong) metis
    ultimately have "free_bytes s2 (us @ p # xs) = free_bytes s (us @ p # vs) \<union> ext s h" using m(6) n(6) one [OF pus(5)] by auto
    then show ?thesis unfolding fs' [symmetric] sp(1) [symmetric] using b0 m(7) by (simp add: ext_base)
  qed
  moreover have "\<forall>x \<in> A - {h}. um_size s2 x = um_size s x"
    using m(4) n(2) pus(6) dj gt by fastforce
  moreover have "\<exists>x \<in> set fs'. um_size s h \<le> um_size s2 x"
  proof -
    obtain x where x: "x = p \<and> p \<noteq> base \<or> x = h \<and> xs = h # ws" "um_size s1 h \<le> um_size s2 x" using m(8) by blast
    then have "x \<in> set fs'" using arg_cong [OF fs', of set] bh by auto
    moreover have "um_size s h \<le> um_size s1 h" using n(2) by auto
    ultimately show ?thesis using x(2) by (auto intro: order_trans)
  qed
  moreover have "ufree (h + 8) s = Some (s2\<lparr>um_freep := p\<rparr>)" using fnd by (simp add: ufree_def s2_def s1_def)
  ultimately show ?thesis using m(2) n(3) by (intro exI [of _ "s2\<lparr>um_freep := p\<rparr>"] exI [of _ fs']) simp
qed

section \<open>Allocating\<close>

lemma disjoint_bytes:
  assumes "blocks_ok base s B" and "x \<in> B" and "set xs \<subseteq> B - {x}"
  shows "ext s x \<inter> free_bytes s xs = {}"
  using assms blocks_disjoint [OF assms(1,2)] by (fastforce simp: free_bytes_def)

lemma malloc_take_spec:
  assumes ok: "heap_ok base s fs A" and sp: "base # fs = as @ prev # t # cs" and n: "0 < n" "n \<le> um_size s t"
  shows "\<exists>p s' fs'. malloc_take n prev t s = (p + 8, s') \<and> heap_ok base s' fs' (insert p A) \<and> p \<notin> A \<and> um_size s' p = n \<and>
    free_bytes s' fs' = free_bytes s fs - ext s' p \<and> ext s' p \<subseteq> free_bytes s fs \<and> (\<forall>x \<in> A. um_size s' x = um_size s x)"
proof -
  let ?B = "set fs \<union> A"
  have l: "list_ok base s fs" and bl: "blocks_ok base s ?B" and dj: "set fs \<inter> A = {}" using ok by (auto simp: heap_ok_def)
  have so: "sorted_wrt (<) (base # fs)" and ch: "chain (um_ptr s) (base # fs) base" using l by (auto simp: list_ok_def)
  have dist: "distinct (as @ prev # t # cs)" using so unfolding sp by (simp add: strict_sorted_iff del: distinct_append sorted_append)
  obtain fr where fr: "base # fr = as @ [prev]" "fs = fr @ t # cs" using sp by (cases as) auto
  have dfr: "distinct (fr @ t # cs)" using so unfolding fr(2) by (simp add: strict_sorted_iff del: distinct_append sorted_append)
  have tfs: "t \<in> set fs" by (simp add: fr)
  then have tB: "t \<in> ?B" "base < t" using bl by (auto simp: blocks_ok_def block_ok_def)
  show ?thesis
  proof (cases "um_size s t = n")
    case True
    let ?s = "(set_ptr prev (um_ptr s t) s)\<lparr>um_freep := prev\<rparr>" and ?fs = "fr @ cs"
    have eq: "base # ?fs = as @ prev # cs" using arg_cong [OF fr(1), of "\<lambda>xs. xs @ cs"] by simp
    have "sorted_wrt (<) (as @ prev # cs)" using so unfolding sp by (auto simp: sorted_wrt_append)
    moreover have "chain (um_ptr ?s) (as @ prev # cs) base" using ch dist unfolding sp by (auto simp: chain_append)
    ultimately have "list_ok base ?s ?fs" using l unfolding list_ok_def eq by simp
    moreover have "set ?fs \<union> insert t A = ?B" "set ?fs \<inter> insert t A = {}" using fr(2) dj dfr by auto
    moreover have "free_bytes s fs = ext s t \<union> free_bytes s ?fs" unfolding fr(2) by auto
    moreover have "ext s t \<inter> free_bytes s ?fs = {}" using fr(2) dfr by (intro disjoint_bytes [OF bl tB(1)]) auto
    ultimately show ?thesis using True bl dj tfs
      by (intro exI [of _ t] exI [of _ ?s] exI [of _ ?fs]) (auto simp: malloc_take_def heap_ok_def)
  next
    case False
    then have lt: "n < um_size s t" using n by simp
    define q where "q = plus_units t (um_size s t - n)"
    define s' where "s' = set_size q n (set_size t (um_size s t - n) s)"
    note b = blocks_split [OF bl tB(1) n(1) lt q_def s'_def]
    have sz: "um_size s' q = n" "x \<in> A \<Longrightarrow> um_size s' x = um_size s x" for x
      using b(2) dj tfs by (auto simp: s'_def)
    have "q \<noteq> base" "t \<noteq> base" "t \<noteq> q" using b(4) tB(2) by auto
    then have "list_ok base (s'\<lparr>um_freep := prev\<rparr>) fs" using l sp by (auto simp: list_ok_def s'_def)
    moreover have "free_bytes s fs = ext s t \<union> free_bytes s (fr @ cs)" "free_bytes s' fs = ext s' t \<union> free_bytes s' (fr @ cs)"
      unfolding fr(2) by auto
    moreover have "free_bytes s' (fr @ cs) = free_bytes s (fr @ cs)"
      using b(6) fr(2) dfr by (intro free_bytes_cong) auto
    moreover have "ext s' q \<inter> free_bytes s' (fr @ cs) = {}"
      using b(2) fr(2) by (intro disjoint_bytes [OF b(1)]) auto
    ultimately show ?thesis using b(1-5) sz dj False \<open>t \<noteq> q\<close>
      by (intro exI [of _ q] exI [of _ "s'\<lparr>um_freep := prev\<rparr>"] exI [of _ fs])
        (auto simp: malloc_take_def heap_ok_def Let_def q_def [symmetric] s'_def [symmetric])
  qed
qed

lemma malloc_walk:
  "chain (um_ptr s) xs t \<Longrightarrow> \<forall>x \<in> set xs. um_size s x < n \<and> x \<noteq> um_freep s \<Longrightarrow>
   malloc_loop avail n prev (hd (xs @ [t])) s = malloc_loop avail n (last (prev # xs)) t s"
proof (induction xs arbitrary: prev)
  case (Cons x xs)
  then have "malloc_loop avail n prev x s = malloc_loop avail n x (um_ptr s x) s" by (subst malloc_loop.simps) auto
  with Cons show ?case by simp
qed simp

text \<open>The list as the loop goes through it: from the block behind \<open>freep\<close> round to \<open>freep\<close>.\<close>

lemma rotation:
  assumes l: "list_ok base s fs"
  obtains ys where "chain (um_ptr s) (um_freep s # ys) (um_freep s)" and "set (um_freep s # ys) = set (base # fs)"
    and "um_freep s \<notin> set ys"
proof -
  let ?f = "um_freep s"
  have "?f \<in> set (base # fs)" using l by (simp add: list_ok_def)
  then obtain us vs where sp: "base # fs = us @ ?f # vs" by (meson split_list)
  have so: "sorted_wrt (<) (us @ ?f # vs)" and ch: "chain (um_ptr s) (us @ ?f # vs) base" using l sp by (simp_all only: list_ok_def)
  have "hd (us @ [?f]) = base" using sp by (cases us) auto
  moreover have "chain (um_ptr s) (?f # vs) base" "chain (um_ptr s) us ?f" using ch by (simp_all add: chain_append)
  ultimately have "chain (um_ptr s) ((?f # vs) @ us) ?f" unfolding chain_append by (simp del: chain.simps)
  moreover have "?f \<notin> set (vs @ us)" using so by (auto simp: sorted_wrt_append)
  moreover have "set (?f # vs @ us) = set (base # fs)" unfolding sp by auto
  ultimately show thesis by (intro that [of "vs @ us"]) simp_all
qed

lemma after_link:
  assumes "chain f (base # fs) base" and "x \<in> set (base # fs)" and "f x \<noteq> base"
  shows "\<exists>as cs. base # fs = as @ x # f x # cs"
proof -
  obtain as r where r: "base # fs = as @ x # r" using assms(2) by (meson split_list)
  then have "f x = hd (r @ [base])" using assms(1) unfolding r by (simp add: chain_append)
  then show ?thesis using r assms(3) by (cases r) auto
qed

lemma chain_last: "chain f (x # xs) t \<Longrightarrow> f (last (x # xs)) = t"
  by (induction xs arbitrary: x) (auto split: if_splits)

text \<open>When some free block is large enough the loop finds one.\<close>

lemma malloc_finds:
  assumes l: "list_ok base s fs" and big: "x \<in> set fs" "n \<le> um_size s x" and n: "0 < n"
  shows "\<exists>prev t as cs. malloc_loop avail n (um_freep s) (um_ptr s (um_freep s)) s = Some (malloc_take n prev t s) \<and>
    base # fs = as @ prev # t # cs \<and> n \<le> um_size s t"
proof -
  let ?f = "um_freep s"
  obtain ys where ys: "chain (um_ptr s) (?f # ys) ?f" "set (?f # ys) = set (base # fs)" "?f \<notin> set ys" using rotation [OF l] .
  have "x \<in> set (ys @ [?f])" using big(1) ys(2) by auto
  then obtain xs t zs where sp: "ys @ [?f] = xs @ t # zs" "\<forall>y \<in> set xs. \<not> n \<le> um_size s y" "n \<le> um_size s t"
    using split_list_first_prop [of "ys @ [?f]" "\<lambda>y. n \<le> um_size s y"] big(2) by auto
  have "ys = xs @ butlast (t # zs)" using arg_cong [OF sp(1), of butlast] by (simp add: butlast_append)
  then have xy: "set xs \<subseteq> set ys" by (metis set_append sup_ge1)
  have ch: "chain (um_ptr s) (?f # ys @ [?f]) (um_ptr s ?f)"
    using ys(1) chain_append [of "um_ptr s" "?f # ys" "[?f]" "um_ptr s ?f"] by simp
  then have ch': "chain (um_ptr s) ((?f # xs) @ t # zs) (um_ptr s ?f)" using sp(1) by simp
  have xs: "chain (um_ptr s) xs t" using ch' by (simp add: chain_append)
  have start: "um_ptr s ?f = hd (xs @ [t])" using ch' by (cases xs) auto
  have lst: "um_ptr s (last (?f # xs)) = t" using ch' unfolding chain_append by (intro chain_last) simp
  have "malloc_loop avail n ?f (um_ptr s ?f) s = malloc_loop avail n (last (?f # xs)) t s"
    unfolding start using xy ys(3) sp(2) by (intro malloc_walk [OF xs]) (auto simp: not_le)
  also have "\<dots> = Some (malloc_take n (last (?f # xs)) t s)" using sp(3) by (subst malloc_loop.simps) simp
  finally have run: "malloc_loop avail n ?f (um_ptr s ?f) s = Some (malloc_take n (last (?f # xs)) t s)" .
  have "t \<noteq> base" using l sp(3) n by (auto simp: list_ok_def)
  moreover have "last (?f # xs) \<in> set (base # fs)" unfolding ys(2) [symmetric] using xy by (cases xs rule: rev_cases) auto
  ultimately have "\<exists>as cs. base # fs = as @ last (?f # xs) # t # cs"
    using after_link [of "um_ptr s" base fs "last (?f # xs)"] l unfolding lst by (simp add: list_ok_def)
  with run sp(3) show ?thesis by blast
qed

text \<open>Otherwise it asks \<open>morecore\<close>.\<close>

lemma malloc_asks:
  assumes l: "list_ok base s fs" and small: "\<forall>x \<in> set (base # fs). um_size s x < n"
  shows "malloc_loop avail n (um_freep s) (um_ptr s (um_freep s)) s = (case morecore avail n s of
     None \<Rightarrow> None
   | Some (q, s1) \<Rightarrow> if q = 0 then Some (0, s1) else malloc_loop avail n q (um_ptr s1 q) s1)"
proof -
  let ?f = "um_freep s"
  obtain ys where ys: "chain (um_ptr s) (?f # ys) ?f" "set (?f # ys) = set (base # fs)" "?f \<notin> set ys" using rotation [OF l] .
  have "malloc_loop avail n ?f (um_ptr s ?f) s = malloc_loop avail n (last (?f # ys)) ?f s"
  proof -
    have "um_size s x < n \<and> x \<noteq> ?f" if "x \<in> set ys" for x
      using that small ys(3) unfolding ys(2) [symmetric] by auto
    then show ?thesis using ys(1) malloc_walk [of s ys ?f n avail ?f] by simp
  qed
  also have "\<dots> = (case morecore avail n s of None \<Rightarrow> None
   | Some (q, s1) \<Rightarrow> if q = 0 then Some (0, s1) else malloc_loop avail n q (um_ptr s1 q) s1)"
    using small unfolding ys(2) [symmetric] by (subst malloc_loop.simps) (auto simp: not_le)
  finally show ?thesis .
qed


lemma times8:
  assumes "8 * unat (n :: u32) < 2 ^ 31"
  shows "unat (n * 8) = 8 * unat n" and "0 < n \<Longrightarrow> 0 < sint (n * 8)"
proof -
  show u: "unat (n * 8) = 8 * unat n" using assms by (subst unat_mult_lem [THEN iffD1]) auto
  assume "0 < n"
  then show "0 < sint (n * 8)" using u assms by (simp add: sint_u32 word_less_def)
qed

text \<open>\<open>morecore\<close> fails and changes nothing, or there is a free block of at least the units asked for.\<close>

lemma morecore_spec:
  assumes ok: "heap_ok base s fs A" and n: "8 * unat n < 2 ^ 31"
  shows "morecore avail n s = Some (0, s) \<or>
    (\<exists>s' fs'. morecore avail n s = Some (um_freep s', s') \<and> um_freep s' \<noteq> 0 \<and> heap_ok base s' fs' A \<and>
      (\<exists>x \<in> set fs'. n \<le> um_size s' x) \<and> free_bytes s fs \<subseteq> free_bytes s' fs' \<and> (\<forall>x \<in> A. um_size s' x = um_size s x))"
proof -
  let ?h = "um_brk s" and ?B = "set fs \<union> A"
  define nu where "nu = (if n < 4096 then 4096 else n)"
  have nu: "8 * unat nu < 2 ^ 31" "0 < nu" "n \<le> nu" using n by (auto simp: nu_def not_less intro: less_imp_le dest: order.strict_trans2)
  note t8 = times8 [OF nu(1)]
  have bl: "blocks_ok base s ?B" and dj: "set fs \<inter> A = {}" and l: "list_ok base s fs" using ok by (auto simp: heap_ok_def)
  have brk: "unat ?h \<le> 2 ^ 31" "base < ?h" using bl by (auto simp: blocks_ok_def)
  have add: "unat (?h + nu * 8) = unat ?h + 8 * unat nu" using plus_units_unat [of ?h nu] brk nu(1)
    by (simp add: plus_units_def mult.commute)
  show ?thesis
  proof (cases "?h + nu * 8 \<ge> KERNBASE \<or> \<not> avail (?h + nu * 8)")
    case True
    have "\<not> ?h + nu * 8 < ?h" using add by (simp add: word_less_nat_alt)
    with True show ?thesis using t8(2) nu(2) by (auto simp: morecore_def nu_def [symmetric] sbrk_def Let_def)
  next
    case False
    let ?s = "set_size ?h nu (s\<lparr>um_brk := ?h + 8 * nu\<rparr>)"
    have top: "unat ?h + 8 * unat nu \<le> 2 ^ 31" using False add by (simp add: word_le_nat_alt not_le word_less_nat_alt)
    note b = blocks_new [OF bl nu(2) top refl]
    have "unat (- 1 :: u32) = 2 ^ 32 - 1" by (simp add: unsigned_minus_1_eq_mask mask_eq_exp_minus_1)
    then have hp: "?h \<noteq> - 1" using brk(1) by (auto simp: word_unat_eq_iff simp del: unsigned_minus_1_eq_mask)
    have "list_ok base ?s fs" using l brk(2) by (auto simp: list_ok_def)
    moreover have "set fs \<union> insert ?h A = insert ?h ?B" "set fs \<inter> insert ?h A = {}" using b(2) dj by auto
    ultimately have ok2: "heap_ok base ?s fs (insert ?h A)" using b(1) by (simp add: heap_ok_def)
    obtain s' fs' where s': "ufree (?h + 8) ?s = Some s'" "heap_ok base s' fs' (insert ?h A - {?h})"
      "free_bytes s' fs' = free_bytes ?s fs \<union> ext ?s ?h" "\<forall>x \<in> insert ?h A - {?h}. um_size s' x = um_size ?s x"
      "\<exists>x \<in> set fs'. um_size ?s ?h \<le> um_size s' x" using ufree_spec [OF ok2, of ?h] by auto
    have "insert ?h A - {?h} = A" using b(2) by auto
    moreover have "morecore avail n s = Some (um_freep s', s')"
    proof -
      have "\<not> ?h + nu * 8 < ?h" using add by (simp add: word_less_nat_alt)
      then have "sbrk avail (nu * 8) s = (?h, s\<lparr>um_brk := ?h + 8 * nu\<rparr>)"
        using False t8(2) [OF nu(2)] unfolding sbrk_def Let_def mult.commute [of 8 nu] by simp
      then show ?thesis using hp s'(1) unfolding morecore_def Let_def nu_def [symmetric] by simp
    qed
    moreover have "um_freep s' \<noteq> 0"
      using s'(2) by (auto simp: heap_ok_def list_ok_def)
    moreover have "free_bytes ?s fs = free_bytes s fs" using b(3) by (intro free_bytes_cong) auto
    ultimately show ?thesis using s' nu(3) b(2) by (intro disjI2 exI [of _ s'] exI [of _ fs']) (auto intro: order_trans)
  qed
qed

section \<open>The allocator\<close>

text \<open>A heap is initialised, or as the program finds it at its start.\<close>

definition heap :: "u32 \<Rightarrow> um \<Rightarrow> u32 list \<Rightarrow> u32 set \<Rightarrow> bool" where
  "heap base s fs A \<longleftrightarrow> heap_ok base s fs A \<or>
     um_freep s = 0 \<and> fs = [] \<and> A = {} \<and> 0 < base \<and> base < um_brk s \<and> unat (um_brk s) \<le> 2 ^ 31"

definition ready :: "u32 \<Rightarrow> um \<Rightarrow> um" where
  "ready base s = (if um_freep s = 0 then set_size base 0 ((set_ptr base base s)\<lparr>um_freep := base\<rparr>) else s)"

lemma ready_ok:
  assumes "heap base s fs A"
  shows "heap_ok base (ready base s) fs A" and "x \<in> A \<union> set fs \<Longrightarrow> um_size (ready base s) x = um_size s x"
    and "um_brk (ready base s) = um_brk s"
proof -
  have nz: "um_freep s \<noteq> 0" if "heap_ok base s fs A" using that by (auto simp: heap_ok_def list_ok_def)
  show "heap_ok base (ready base s) fs A"
  proof (cases "heap_ok base s fs A")
    case True
    then show ?thesis using nz by (simp add: ready_def)
  next
    case False
    then show ?thesis using assms
      by (auto simp: heap_def ready_def heap_ok_def list_ok_def blocks_ok_def disjoint_family_on_def)
  qed
  show "um_size (ready base s) x = um_size s x" if "x \<in> A \<union> set fs" using assms that nz by (auto simp: heap_def ready_def)
  show "um_brk (ready base s) = um_brk s" by (simp add: ready_def)
qed

lemma nunits_unat:
  assumes "unat (nbytes :: u32) + 16 \<le> 2 ^ 31"
  shows "unat ((nbytes + 8 - 1) div 8 + 1) = (unat nbytes + 7) div 8 + 1"
proof -
  have eq: "nbytes + 8 - 1 = nbytes + 7" by simp
  have u: "unat (nbytes + 7) = unat nbytes + 7" using assms by (subst unat_add_lem [THEN iffD1]) auto
  then have "unat ((nbytes + 7) div 8) = (unat nbytes + 7) div 8" by (simp add: unat_div)
  then have "unat ((nbytes + 7) div 8 + 1) = (unat nbytes + 7) div 8 + 1"
    using assms by (subst unat_add_lem [THEN iffD1]) auto
  then show ?thesis unfolding eq .
qed

lemma malloc_spec:
  assumes ok: "heap base s fs A" and nb: "unat nbytes + 16 \<le> 2 ^ 31"
  shows "\<exists>p s' fs'. malloc base avail nbytes s = Some (p, s') \<and> (\<forall>x \<in> A. um_size s' x = um_size s x) \<and>
    (p = 0 \<and> heap_ok base s' fs A \<and> (\<forall>x \<in> set fs. 8 * unat (um_size s x) < unat nbytes + 8) \<or>
     p - 8 \<notin> A \<and> heap_ok base s' fs' (insert (p - 8) A) \<and> 8 * unat (um_size s' (p - 8)) \<ge> unat nbytes + 8)"
proof -
  define n where "n = (nbytes + 8 - 1) div 8 + 1"
  let ?s = "ready base s"
  note n_unat = nunits_unat [OF nb, folded n_def]
  have n: "0 < n" "8 * unat n < 2 ^ 31" "unat nbytes + 8 \<le> 8 * unat n" "8 * unat n < unat nbytes + 16"
    using n_unat nb by (auto simp: word_less_nat_alt)
  note r = ready_ok [OF ok]
  have l: "list_ok base ?s fs" using r(1) by (simp add: heap_ok_def)
  have run: "malloc base avail nbytes s = malloc_loop avail n (um_freep ?s) (um_ptr ?s (um_freep ?s)) ?s"
    by (simp add: malloc_def ready_def n_def Let_def)
  have taken: "\<exists>p s' fs'. malloc_loop avail n (um_freep t) (um_ptr t (um_freep t)) t = Some (p + 8, s') \<and>
      heap_ok base s' fs' (insert p A) \<and> p \<notin> A \<and> um_size s' p = n \<and> (\<forall>x \<in> A. um_size s' x = um_size t x)"
    if t: "heap_ok base t gs A" "x \<in> set gs" "n \<le> um_size t x" for t gs x
  proof -
    have "list_ok base t gs" using t(1) by (simp add: heap_ok_def)
    from malloc_finds [OF this t(2,3) n(1)] malloc_take_spec [OF t(1) _ n(1)] show ?thesis by metis
  qed
  show ?thesis
  proof (cases "\<exists>x \<in> set fs. n \<le> um_size ?s x")
    case True
    then show ?thesis using taken [OF r(1)] run r(2) n(3) by fastforce
  next
    case small: False
    then have "\<forall>x \<in> set (base # fs). um_size ?s x < n" using l n(1) by (auto simp: list_ok_def not_le)
    note ask = malloc_asks [OF l this, of avail]
    from morecore_spec [OF r(1) n(2)] show ?thesis
    proof
      assume "morecore avail n ?s = Some (0, ?s)"
      moreover have "\<forall>x \<in> set fs. 8 * unat (um_size s x) < unat nbytes + 8"
        using small r(2) n(4) by (auto simp: not_le word_less_nat_alt)
      ultimately show ?thesis using run ask r by auto
    next
      assume "\<exists>s' fs'. morecore avail n ?s = Some (um_freep s', s') \<and> um_freep s' \<noteq> 0 \<and> heap_ok base s' fs' A \<and>
        (\<exists>x \<in> set fs'. n \<le> um_size s' x) \<and> free_bytes ?s fs \<subseteq> free_bytes s' fs' \<and> (\<forall>x \<in> A. um_size s' x = um_size ?s x)"
      then obtain t gs where t: "morecore avail n ?s = Some (um_freep t, t)" "um_freep t \<noteq> 0" "heap_ok base t gs A"
        "\<exists>x \<in> set gs. n \<le> um_size t x" "\<forall>x \<in> A. um_size t x = um_size ?s x" by blast
      then show ?thesis using taken [OF t(3)] run ask r(2) n(3) by fastforce
    qed
  qed
qed

text \<open>C13. The allocator of the user programs. \<open>malloc\<close> of up to 2 GB less 16 bytes terminates. It returns 0 only when
  every free block is too small and the kernel gives no memory; otherwise the bytes it returns lie inside a new
  block that overlaps no allocated block, and the blocks allocated before keep their place and size. \<open>free\<close> of
  an allocated block terminates and returns exactly the bytes of the block to the free blocks, whichever of its
  neighbours it is joined with. After both the free list is again circular, ordered and disjoint from the
  allocated blocks, so any sequence of calls keeps this.\<close>

theorem malloc_free:
  assumes "heap base s fs A"
  shows "(unat nbytes + 16 \<le> 2 ^ 31 \<longrightarrow> (\<exists>p s' fs'. malloc base avail nbytes s = Some (p, s') \<and> (\<forall>x \<in> A. ext s' x = ext s x) \<and>
      (p = 0 \<and> heap base s' fs A \<and> (\<forall>x \<in> set fs. 8 * unat (um_size s x) < unat nbytes + 8) \<or>
       heap base s' fs' (insert (p - 8) A) \<and> p - 8 \<notin> A \<and> {unat p ..< unat p + unat nbytes} \<subseteq> ext s' (p - 8) \<and>
       (\<forall>x \<in> A. ext s' (p - 8) \<inter> ext s' x = {})))) \<and>
    (p - 8 \<in> A \<longrightarrow> (\<exists>s' fs'. ufree p s = Some s' \<and> heap base s' fs' (A - {p - 8}) \<and>
      free_bytes s' fs' = free_bytes s fs \<union> ext s (p - 8) \<and> (\<forall>x \<in> A - {p - 8}. ext s' x = ext s x)))"
proof (intro conjI impI)
  assume nb: "unat nbytes + 16 \<le> 2 ^ 31"
  obtain p s' fs' where m: "malloc base avail nbytes s = Some (p, s')" "\<forall>x \<in> A. um_size s' x = um_size s x" and
    r: "p = 0 \<and> heap_ok base s' fs A \<and> (\<forall>x \<in> set fs. 8 * unat (um_size s x) < unat nbytes + 8) \<or>
     p - 8 \<notin> A \<and> heap_ok base s' fs' (insert (p - 8) A) \<and> 8 * unat (um_size s' (p - 8)) \<ge> unat nbytes + 8"
    using malloc_spec [OF assms nb, of avail] by metis
  have bytes: "{unat p ..< unat p + unat nbytes} \<subseteq> ext s' (p - 8) \<and> (\<forall>x \<in> A. ext s' (p - 8) \<inter> ext s' x = {})"
    if "heap_ok base s' fs' (insert (p - 8) A)" "8 * unat (um_size s' (p - 8)) \<ge> unat nbytes + 8" "p - 8 \<notin> A"
  proof -
    have bl: "blocks_ok base s' (set fs' \<union> insert (p - 8) A)" using that(1) by (simp add: heap_ok_def)
    then have "unat (p - 8) + 8 * unat (um_size s' (p - 8)) \<le> 2 ^ 31" by (auto simp: blocks_ok_def block_ok_def)
    then have "unat ((p - 8) + 8) = unat (p - 8) + 8" using that(2) by (subst unat_add_lem [THEN iffD1]) auto
    then have "unat p = unat (p - 8) + 8" by simp
    moreover have "\<forall>x \<in> A. ext s' (p - 8) \<inter> ext s' x = {}" using blocks_disjoint [OF bl] that(3) by auto
    ultimately show ?thesis using that(2) by (auto simp: ext_def)
  qed
  show "\<exists>p s' fs'. malloc base avail nbytes s = Some (p, s') \<and> (\<forall>x \<in> A. ext s' x = ext s x) \<and>
      (p = 0 \<and> heap base s' fs A \<and> (\<forall>x \<in> set fs. 8 * unat (um_size s x) < unat nbytes + 8) \<or>
       heap base s' fs' (insert (p - 8) A) \<and> p - 8 \<notin> A \<and> {unat p ..< unat p + unat nbytes} \<subseteq> ext s' (p - 8) \<and>
       (\<forall>x \<in> A. ext s' (p - 8) \<inter> ext s' x = {}))"
  proof -
    have same: "\<forall>x \<in> A. ext s' x = ext s x" using m(2) by (simp add: ext_def)
    have hp: "heap_ok base t gs C \<Longrightarrow> heap base t gs C" for t gs C by (simp add: heap_def)
    from r show ?thesis
    proof
      assume "p = 0 \<and> heap_ok base s' fs A \<and> (\<forall>x \<in> set fs. 8 * unat (um_size s x) < unat nbytes + 8)"
      with m(1) same hp show ?thesis by blast
    next
      assume "p - 8 \<notin> A \<and> heap_ok base s' fs' (insert (p - 8) A) \<and> 8 * unat (um_size s' (p - 8)) \<ge> unat nbytes + 8"
      with m(1) same hp bytes show ?thesis by blast
    qed
  qed
next
  assume p: "p - 8 \<in> A"
  then have "heap_ok base s fs A" using assms by (auto simp: heap_def)
  from ufree_spec [OF this p] show "\<exists>s' fs'. ufree p s = Some s' \<and> heap base s' fs' (A - {p - 8}) \<and>
      free_bytes s' fs' = free_bytes s fs \<union> ext s (p - 8) \<and> (\<forall>x \<in> A - {p - 8}. ext s' x = ext s x)"
    unfolding heap_def by (fastforce simp: ext_def)
qed

definition um0 :: um where
  "um0 = \<lparr>um_ptr = \<lambda>_. 0, um_size = \<lambda>_. 0, um_freep = 0, um_brk = 0x3000\<rparr>"

theorem malloc_free_witness:
  "\<exists>p s' fs'. malloc 0x1000 (\<lambda>_. True) 100 um0 = Some (p, s') \<and>
     (p = 0 \<and> heap 0x1000 s' [] {} \<or>
      heap 0x1000 s' fs' {p - 8} \<and> {unat p ..< unat p + 100} \<subseteq> ext s' (p - 8))"
proof -
  have "heap 0x1000 um0 [] {}" by (simp add: heap_def um0_def)
  from malloc_free [OF this, of 100 "\<lambda>_. True"] show ?thesis by fastforce
qed

end
