(* ===== verification/Kbd_Props.thy ===== *)
theory Kbd_Props
  imports Kbd
begin

text \<open>
  The keyboard decoder of \<^verbatim>\<open>kbd.c\<close> on lists of scan codes: typing a text, with the shift key where it
  is needed, decodes to the text.
\<close>

section \<open>Lists of codes\<close>

text \<open>The characters the decoder returns for a list of codes, and its state after them.\<close>

primrec kbd_chars :: "u8 list \<Rightarrow> u32 \<Rightarrow> u32 list" where
  "kbd_chars [] shift = []"
| "kbd_chars (b # bs) shift = fst (kbd_code shift (ucast b)) # kbd_chars bs (snd (kbd_code shift (ucast b)))"

primrec kbd_end :: "u8 list \<Rightarrow> u32 \<Rightarrow> u32" where
  "kbd_end [] shift = shift"
| "kbd_end (b # bs) shift = kbd_end bs (snd (kbd_code shift (ucast b)))"

lemma kbd_chars_append: "kbd_chars (bs @ cs) sh = kbd_chars bs sh @ kbd_chars cs (kbd_end bs sh)"
  by (induction bs arbitrary: sh) simp_all

lemma kbd_end_append: "kbd_end (bs @ cs) sh = kbd_end cs (kbd_end bs sh)"
  by (induction bs arbitrary: sh) simp_all

text \<open>All characters are bytes.\<close>

lemma kbd_array_bound:
  assumes "list_all (\<lambda>x. x < 256) xs" "list_all (\<lambda>p. snd p < 256) ivs"
  shows "kbd_array xs ivs i < 256"
  using assms by (fastforce simp: kbd_array_def list_all_iff split: option.split dest: map_of_SomeD)

lemma charcode_bound: "charcode m i < 256"
proof -
  have "normalmap i < 256" unfolding normalmap_def by (rule kbd_array_bound; code_simp)
  moreover have "shiftmap i < 256" unfolding shiftmap_def by (rule kbd_array_bound; code_simp)
  moreover have "ctlmap i < 256" unfolding ctlmap_def by (rule kbd_array_bound; code_simp)
  ultimately show ?thesis by (simp add: charcode_def)
qed

lemma caps_swap_bound: "c < 256 \<Longrightarrow> caps_swap c < 256"
proof -
  assume c: "c < 256"
  have "c - 32 < 256" if "97 \<le> c"
    using that c by (simp add: word_less_nat_alt word_le_nat_alt unat_sub_if')
  moreover have "c + 32 < 256" if "c \<le> 90"
    using that by (simp add: word_less_nat_alt word_le_nat_alt unat_word_ariths)
  ultimately show ?thesis using c by (simp add: caps_swap_def)
qed

lemma kbd_code_bound: "fst (kbd_code sh d) < 256"
  by (simp add: kbd_code_def kbd_press_def Let_def charcode_bound caps_swap_bound)

section \<open>Typing\<close>

text \<open>How a character is typed: the key is pressed and released, with the shift key held where the
  character is not on the plain key.\<close>

definition key_stroke :: "u8 \<Rightarrow> u8 list" where
  "key_stroke c = (case find (\<lambda>k. normalmap k = ucast c) [0..<0x58] of
     Some k \<Rightarrow> [of_nat k, of_nat k + 0x80]
   | None \<Rightarrow> (case find (\<lambda>k. shiftmap k = ucast c) [0..<0x58] of
       Some k \<Rightarrow> [0x2A, of_nat k, of_nat k + 0x80, 0xAA]
     | None \<Rightarrow> []))"

definition printable :: "u8 \<Rightarrow> bool" where
  "printable c \<longleftrightarrow> 32 \<le> c \<and> c \<le> 126"

text \<open>What the caps lock makes of a character.\<close>

definition caps :: "u32 \<Rightarrow> u8 \<Rightarrow> u32" where
  "caps sh c = (if sh AND CAPSLOCK \<noteq> 0 then caps_swap (ucast c) else ucast c)"

text \<open>The part of the two maps below the special keys.\<close>

definition normal_row :: "nat list" where
  "normal_row =
    [0, 27, 49, 50, 51, 52, 53, 54, 55, 56, 57, 48, 45, 61, 8, 9, 113, 119, 101, 114, 116, 121, 117, 105, 111, 112, 91,
     93, 10, 0, 97, 115, 100, 102, 103, 104, 106, 107, 108, 59, 39, 96, 0, 92, 122, 120, 99, 118, 98, 110, 109, 44, 46,
     47, 0, 42, 0, 32, 0, 0, 0, 0, 0, 0, 0, 0, 0, 0, 0, 0, 0, 55, 56, 57, 45, 52, 53, 54, 43, 49, 50, 51, 48, 46, 0, 0, 0, 0]"

definition shift_row :: "nat list" where
  "shift_row =
    [0, 27, 33, 64, 35, 36, 37, 94, 38, 42, 40, 41, 95, 43, 8, 9, 81, 87, 69, 82, 84, 89, 85, 73, 79, 80, 123, 125, 10,
     0, 65, 83, 68, 70, 71, 72, 74, 75, 76, 58, 34, 126, 0, 124, 90, 88, 67, 86, 66, 78, 77, 60, 62, 63, 0, 42, 0, 32,
     0, 0, 0, 0, 0, 0, 0, 0, 0, 0, 0, 0, 0, 55, 56, 57, 45, 52, 53, 54, 43, 49, 50, 51, 48, 46, 0, 0, 0, 0]"

lemma map_rows:
  "map normalmap [0..<0x58] = map of_nat normal_row" "map shiftmap [0..<0x58] = map of_nat shift_row"
  by code_simp+

lemma length_rows: "length normal_row = 0x58" "length shift_row = 0x58"
  by (simp_all add: normal_row_def shift_row_def)

lemma nth_rows:
  assumes "k < 0x58"
  shows "normalmap k = of_nat (normal_row ! k)" "shiftmap k = of_nat (shift_row ! k)"
  using arg_cong [OF map_rows(1), of "\<lambda>xs. xs ! k"] arg_cong [OF map_rows(2), of "\<lambda>xs. xs ! k"] assms length_rows
  by simp_all

lemma on_rows: "list_all (\<lambda>n. n \<in> set normal_row \<or> n \<in> set shift_row) (10 # [32..<127])"
  unfolding normal_row_def shift_row_def by simp

lemma on_keyboard:
  assumes "printable c \<or> c = 10"
  shows "(\<exists>k \<in> set [0..<0x58]. normalmap k = ucast c) \<or> (\<exists>k \<in> set [0..<0x58]. shiftmap k = ucast c)"
proof -
  have c: "(of_nat (unat c) :: u32) = ucast c" by simp
  have "32 \<le> unat c \<and> unat c < 127" if "printable c"
    using that by (simp add: printable_def word_le_nat_alt)
  then have "unat c \<in> insert 10 {32..<127}" using assms by auto
  then have "unat c \<in> set normal_row \<or> unat c \<in> set shift_row"
    using on_rows unfolding list_all_iff list.set set_upt by (rule bspec [rotated])
  then show ?thesis
    unfolding in_set_conv_nth length_rows c [symmetric] using nth_rows by (metis atLeastLessThan_iff set_upt zero_le)
qed

text \<open>The keys that make a character are not modifiers.\<close>

lemma modifier_keys:
  "k < 0x58 \<Longrightarrow> shiftcode k \<noteq> 0 \<or> togglecode k \<noteq> 0 \<Longrightarrow> k \<in> {0x1D, 0x2A, 0x36, 0x38, 0x3A, 0x45, 0x46}"
  by (auto simp: shiftcode_def togglecode_def kbd_array_def split: if_splits)

lemma plain_key:
  assumes "k < 0x58" "normalmap k \<noteq> 0 \<or> shiftmap k \<noteq> 0"
  shows "shiftcode k = 0 \<and> togglecode k = 0"
proof (rule ccontr)
  assume "\<not> ?thesis"
  then have "k \<in> {0x1D, 0x2A, 0x36, 0x38, 0x3A, 0x45, 0x46}" using modifier_keys [OF assms(1)] by blast
  then show False using assms(2) by (auto simp: nth_rows normal_row_def shift_row_def)
qed

lemma key_bits_all:
  "list_all (\<lambda>k. let d = ucast (of_nat k :: u8) :: u32; e = ucast (of_nat k + 0x80 :: u8) :: u32 in
     d \<noteq> 0xE0 \<and> d AND 0x80 = 0 \<and> unat d = k \<and> e \<noteq> 0xE0 \<and> e AND 0x80 \<noteq> 0 \<and> unat (e AND 0x7F) = k) [0..<0x58]"
  by code_simp

lemma key_press:
  assumes "k < 0x58" "shiftcode k = 0" "togglecode k = 0" "sh \<in> {0, 1, 8, 9}"
  shows "kbd_code sh (ucast (of_nat k :: u8)) =
    (if sh AND CAPSLOCK \<noteq> 0 then caps_swap (charcode (sh AND 1) k) else charcode (sh AND 1) k, sh)"
    "kbd_code sh (ucast (of_nat k + 0x80 :: u8)) = (0, sh)"
  using key_bits_all assms unfolding list_all_iff Let_def
  by (auto simp: kbd_code_def kbd_press_def)

text \<open>The shift key goes down and up.\<close>

lemma shift_key:
  assumes "sh = 0 \<or> sh = CAPSLOCK"
  shows "kbd_code sh 0x2A = (0, sh OR 1)" "kbd_code (sh OR 1) 0xAA = (0, sh)"
proof -
  have m: "normalmap 0x2A = 0" "shiftmap 0x2A = 0" "shiftcode 0x2A = 1" "togglecode 0x2A = 0"
    by (simp_all add: nth_rows normal_row_def shift_row_def shiftcode_def togglecode_def kbd_array_def)
  have "kbd_code 0 0x2A = (0, 1)" "kbd_code 8 0x2A = (0, 9)" "kbd_code 1 0xAA = (0, 0)" "kbd_code 9 0xAA = (0, 8)"
    using m by (simp_all add: kbd_code_def kbd_press_def charcode_def caps_swap_def)
  then show "kbd_code sh 0x2A = (0, sh OR 1)" "kbd_code (sh OR 1) 0xAA = (0, sh)" using assms by (elim disjE; simp)+
qed

lemma unat_up: "unat (ucast (c :: u8) :: u32) = unat c"
  using unsigned_less [of c, where 'a = nat] by (simp add: unsigned_ucast_eq take_bit_nat_eq_self)

lemma stroke:
  assumes "printable c \<or> c = 10" "sh = 0 \<or> sh = CAPSLOCK"
  shows "(\<exists>n m. kbd_chars (key_stroke c) sh = replicate n 0 @ [caps sh c] @ replicate m 0) \<and> kbd_end (key_stroke c) sh = sh"
proof -
  have c0: "(ucast c :: u32) \<noteq> 0"
    using assms(1) by (auto simp: printable_def word_unat_eq_iff word_le_nat_alt unat_up)
  show ?thesis
  proof (cases "find (\<lambda>k. normalmap k = ucast c) [0..<0x58]")
    case (Some k)
    then have k: "k < 0x58" "normalmap k = ucast c" by (auto simp: find_Some_iff)
    then have "shiftcode k = 0" "togglecode k = 0" using plain_key [of k] c0 by auto
    note kp = key_press [OF k(1) this, of sh]
    have "kbd_chars (key_stroke c) sh = replicate 0 0 @ [caps sh c] @ replicate 1 0" "kbd_end (key_stroke c) sh = sh"
      using kp k(2) assms(2) by (elim disjE; simp add: key_stroke_def Some caps_def charcode_def)+
    then show ?thesis by blast
  next
    case None
    then obtain k where s: "find (\<lambda>k. shiftmap k = ucast c) [0..<0x58] = Some k"
      using on_keyboard [OF assms(1)] by (cases "find (\<lambda>k. shiftmap k = ucast c) [0..<0x58]") (auto simp: find_None_iff)
    then have k: "k < 0x58" "shiftmap k = ucast c" by (auto simp: find_Some_iff)
    then have "shiftcode k = 0" "togglecode k = 0" using plain_key [of k] c0 by auto
    then have kp: "kbd_code (sh OR 1) (ucast (of_nat k :: u8)) = (caps sh c, sh OR 1)"
        "kbd_code (sh OR 1) (ucast (of_nat k + 0x80 :: u8)) = (0, sh OR 1)"
      using key_press [OF k(1), of "sh OR 1"] k(2) assms(2) by (elim disjE; simp add: caps_def charcode_def)+
    have "key_stroke c = [0x2A, of_nat k, of_nat k + 0x80, 0xAA]" by (simp only: key_stroke_def None s option.case)
    moreover have "ucast (0x2A :: u8) = (0x2A :: u32)" "ucast (0xAA :: u8) = (0xAA :: u32)" by simp_all
    ultimately have "kbd_chars (key_stroke c) sh = [0, caps sh c, 0, 0]" "kbd_end (key_stroke c) sh = sh"
      by (simp_all only: kbd_chars.simps kbd_end.simps kp shift_key [OF assms(2)] fst_conv snd_conv)
    moreover have "[0, caps sh c, 0, 0] = replicate 1 0 @ [caps sh c] @ replicate 2 0" by (simp add: numeral_2_eq_2)
    ultimately show ?thesis by metis
  qed
qed

lemma text_strokes:
  assumes "\<forall>c \<in> set cs. printable c \<or> c = 10" "sh = 0 \<or> sh = CAPSLOCK" "\<forall>c \<in> set cs. caps sh c \<noteq> 0"
  shows "filter (\<lambda>x. x \<noteq> 0) (kbd_chars (concat (map key_stroke cs)) sh) = map (caps sh) cs \<and>
    kbd_end (concat (map key_stroke cs)) sh = sh"
  using assms
proof (induction cs)
  case (Cons c cs)
  then obtain n m where "kbd_chars (key_stroke c) sh = replicate n 0 @ [caps sh c] @ replicate m 0"
      "kbd_end (key_stroke c) sh = sh"
    using stroke [of c sh] by auto
  then show ?case using Cons by (simp add: kbd_chars_append kbd_end_append)
qed simp

text \<open>The caps lock exchanges small and capital letters, so it keeps the printable characters.\<close>

lemma caps_swap_range: "32 \<le> x \<Longrightarrow> x \<le> 126 \<Longrightarrow> 32 \<le> caps_swap x \<and> caps_swap x \<le> 126"
  by (simp add: caps_swap_def word_le_nat_alt unat_word_ariths unat_sub_if') arith

lemma caps_printable: "printable c \<Longrightarrow> 32 \<le> caps sh c \<and> caps sh c \<le> 126"
  using caps_swap_range [of "ucast c"] by (auto simp: caps_def printable_def word_le_nat_alt unat_up)

lemma caps_newline: "caps sh 10 = 10"
  by (simp add: caps_def caps_swap_def)

end
