(* ===== verification/Sleeplock_Props.thy ===== *)
theory Sleeplock_Props
  imports Sleeplock Sched_Props
begin

text \<open>
  Sleep locks without contention: what \<open>acquiresleep\<close>, \<open>releasesleep\<close> and \<open>holdingsleep\<close> of
  \<^verbatim>\<open>sleeplock.c\<close> do when the lock is free or the caller's own.
\<close>

text \<open>The lock \<open>L\<close> is free, or belongs to process \<open>p\<close>; its spin lock is free.\<close>

definition sl_free :: "slockid \<Rightarrow> kernel \<Rightarrow> bool" where
  "sl_free L s \<longleftrightarrow> lock_free (L_sleep L) s \<and> sl_locked (slocks s L) = 0"

definition sl_held :: "nat \<Rightarrow> slockid \<Rightarrow> kernel \<Rightarrow> bool" where
  "sl_held p L s \<longleftrightarrow> lock_free (L_sleep L) s \<and> sl_locked (slocks s L) \<noteq> 0 \<and>
     sl_pid (slocks s L) = p_pid (ptable s p)"

definition sl_take :: "nat \<Rightarrow> slockid \<Rightarrow> kernel \<Rightarrow> kernel" where
  "sl_take p L s = s\<lparr>slocks := (slocks s)(L := (slocks s L)\<lparr>sl_locked := 1, sl_pid := p_pid (ptable s p)\<rparr>)\<rparr>"

definition sl_drop :: "slockid \<Rightarrow> kernel \<Rightarrow> kernel" where
  "sl_drop L s = s\<lparr>slocks := (slocks s)(L := (slocks s L)\<lparr>sl_locked := 0, sl_pid := 0\<rparr>),
     ptable := upd_range 0 NPROC (woken (Some (Ch_sleeplock L))) (ptable s)\<rparr>"

lemma running_locked: "running c p s \<Longrightarrow> running c p (with_lock c L s)"
  by (simp add: running_def) (simp add: with_lock_def pushed_def)

lemma locked_sel:
  "slocks (with_lock c L s) = slocks s" "ptable (with_lock c L s) = ptable s" "bufs (with_lock c L s) = bufs s"
  "input (with_lock c L s) = input s" "icache (with_lock c L s) = icache s"
  by (simp_all add: with_lock_def)

lemma holdingsleep_own:
  assumes s: "running c p s" and l: "sl_held p L s"
  shows "holdingsleep L s w = Done True s w"
proof -
  let ?t = "with_lock c (L_sleep L) s"
  have c: "cli_ok c s" using s by (simp add: running_def)
  have "release (L_sleep L) ?t w = Done () (?t\<lparr>locks := locks s, eflags_if := eflags_if s, cpus := cpus s\<rparr>) w"
    using c l by (intro release_ok) (simp_all add: sl_held_def cli_okD)
  moreover have "?t\<lparr>locks := locks s, eflags_if := eflags_if s, cpus := cpus s\<rparr> = s"
    by (simp add: with_lock_def kernel_order)
  moreover have "running c p ?t" using s by (simp add: running_locked)
  ultimately show ?thesis
    using c l by (simp add: holdingsleep_def sl_held_def acquire_ok curproc_running with_lock_def)
qed

lemma acquiresleep_free:
  assumes s: "running c p s" and l: "sl_free L s"
  shows "acquiresleep L s w = Done () (sl_take p L s) w"
proof -
  let ?t = "with_lock c (L_sleep L) s"
  have c: "cli_ok c s" using s by (simp add: running_def)
  let ?u = "?t\<lparr>slocks := slocks (sl_take p L s)\<rparr>"
  have "release (L_sleep L) ?u w = Done () (?u\<lparr>locks := locks s, eflags_if := eflags_if s, cpus := cpus s\<rparr>) w"
    using c l by (intro release_ok) (simp_all add: sl_free_def cli_okD)
  moreover have "?u\<lparr>locks := locks s, eflags_if := eflags_if s, cpus := cpus s\<rparr> = sl_take p L s"
    by (simp add: with_lock_def sl_take_def kernel_order)
  moreover have "running c p (?t\<lparr>slocks := x\<rparr>)" for x using s by (simp add: running_locked)
  ultimately show ?thesis
    using c l by (simp add: acquiresleep_def sl_free_def acquire_ok curproc_running upd_slock_def sl_take_def with_lock_def)
qed

lemma releasesleep_own:
  assumes "cli_ok c s" "lock_free (L_sleep L) s" "no_drowsy (Ch_sleeplock L) s"
  shows "releasesleep L s w = Done () (sl_drop L s) w"
proof -
  define t where "t = (with_lock c (L_sleep L) s)\<lparr>slocks := slocks (sl_drop L s)\<rparr>"
  define u where "u = t\<lparr>ptable := ptable (sl_drop L s)\<rparr>"
  have "wakeup (Ch_sleeplock L) t w = Done () u w"
    using assms wakeup_ok [of c t "Ch_sleeplock L" w] by (simp add: t_def u_def sl_drop_def locked_sel)
  moreover have "release (L_sleep L) u w = Done () (u\<lparr>locks := locks s, eflags_if := eflags_if s, cpus := cpus s\<rparr>) w"
    using assms by (intro release_ok) (simp_all add: t_def u_def cli_okD)
  moreover have "u\<lparr>locks := locks s, eflags_if := eflags_if s, cpus := cpus s\<rparr> = sl_drop L s"
    by (simp add: t_def u_def with_lock_def sl_drop_def kernel_order)
  moreover have "kseq (upd_slock L (\<lambda>l. l\<lparr>sl_locked := 0\<rparr>)) (kseq (upd_slock L (\<lambda>l. l\<lparr>sl_pid := 0\<rparr>)) k)
      (with_lock c (L_sleep L) s) w = k t w" for k :: "unit K"
    by (simp add: upd_slock_def t_def sl_drop_def locked_sel)
  ultimately show ?thesis
    using assms(1,2) by (simp add: releasesleep_def acquire_ok del: kseq_app) (simp add: acquire_ok kseq_done)
qed

end
