(* ===== verification/Console_Props.thy ===== *)
theory Console_Props
  imports Trap Kbd_Props Sleeplock_Props
begin

text \<open>
  The console as a line editor: the ring of \<^verbatim>\<open>console.c\<close> with its three counters refines a pair of
  lists, the bytes ready for readers and the line being edited.
\<close>

section \<open>The ring\<close>

text \<open>What a reader can take, and the line that is still being edited.\<close>

definition con_ready :: "input_state \<Rightarrow> u8 list" where
  "con_ready q = map (\<lambda>i. in_at q (in_r q + of_nat i)) [0..<unat (in_w q - in_r q)]"

definition con_line :: "input_state \<Rightarrow> u8 list" where
  "con_line q = map (\<lambda>i. in_at q (in_w q + of_nat i)) [0..<unat (in_e q - in_w q)]"

text \<open>The counters are in order and at most 128 apart, a finished line is not being edited, and a
  full buffer is one that readers can empty.\<close>

definition con_ord :: "input_state \<Rightarrow> bool" where
  "con_ord q \<longleftrightarrow> unat (in_w q - in_r q) + unat (in_e q - in_w q) \<le> INPUT_BUF"

definition con_ok :: "input_state \<Rightarrow> bool" where
  "con_ok q \<longleftrightarrow> con_ord q \<and>
     (unat (in_w q - in_r q) + unat (in_e q - in_w q) = INPUT_BUF \<longrightarrow> in_e q = in_w q) \<and>
     10 \<notin> set (con_line q)"

lemma length_con [simp]:
  "length (con_ready q) = unat (in_w q - in_r q)" "length (con_line q) = unat (in_e q - in_w q)"
  by (simp_all add: con_ready_def con_line_def)

lemma in_slot: "in_at q (x + of_nat i) = in_buf q ((unat x + i) mod INPUT_BUF)"
proof -
  have "unat (x + of_nat i) = (unat x + i) mod 2 ^ 32"
    by (simp add: unat_word_ariths unat_of_nat mod_add_right_eq)
  then show ?thesis by (simp add: in_at_def mod_mod_cancel)
qed

lemma unat_sum: "unat x + unat y \<le> 128 \<Longrightarrow> unat (x + y :: u32) = unat x + unat y"
  by (simp add: unat_word_ariths)

lemma con_okD: "con_ok q \<Longrightarrow> con_ord q"
  by (simp add: con_ok_def)

lemma con_diff: "con_ord q \<Longrightarrow> unat (in_e q - in_r q) = unat (in_w q - in_r q) + unat (in_e q - in_w q)"
  using unat_sum [of "in_w q - in_r q" "in_e q - in_w q"] by (simp add: con_ord_def)

lemma unat_pred: "x \<noteq> y \<Longrightarrow> unat (x - 1 - y :: u32) = unat (x - y) - 1"
  using unat_minus_one [of "x - y"] by (simp add: diff_diff_eq add.commute)

lemma unat_succ: "unat (x - y) < 128 \<Longrightarrow> unat (x + 1 - y :: u32) = unat (x - y) + 1"
  using unat_sum [of "x - y" 1] by (simp add: algebra_simps)

lemma apart_iff: "x = y + 128 \<longleftrightarrow> unat (x - y :: u32) = 128"
proof -
  have "x = y + 128 \<longleftrightarrow> x - y = 128" by (simp only: diff_eq_eq add.commute)
  then show ?thesis by (simp only: word_unat_eq_iff [of "x - y"]) simp
qed

lemma con_back:
  assumes "con_ok q" "in_e q \<noteq> in_w q"
  shows "con_ok (q\<lparr>in_e := in_e q - 1\<rparr>)" "con_ready (q\<lparr>in_e := in_e q - 1\<rparr>) = con_ready q"
    "con_line (q\<lparr>in_e := in_e q - 1\<rparr>) = butlast (con_line q)"
proof -
  let ?q = "q\<lparr>in_e := in_e q - 1\<rparr>"
  have n: "unat (in_e q - 1 - in_w q) = unat (in_e q - in_w q) - 1" using assms(2) by (rule unat_pred)
  have pos: "0 < unat (in_e q - in_w q)" using assms(2) by (simp add: unat_gt_0)
  show l: "con_line ?q = butlast (con_line q)"
    using pos by (cases "unat (in_e q - in_w q)") (simp_all add: con_line_def n in_at_def)
  show "con_ready ?q = con_ready q" by (simp add: con_ready_def in_at_def)
  show "con_ok ?q" using assms pos by (auto simp: con_ok_def con_ord_def n l dest: in_set_butlastD)
qed

lemma map_upt_append: "map f [0..<m + n] = map f [0..<m] @ map (\<lambda>i. f (m + i)) [0..<n]"
  by (induction n) simp_all

lemma con_commit:
  assumes "con_ord q"
  shows "con_ok (q\<lparr>in_w := in_e q\<rparr>)" "con_ready (q\<lparr>in_w := in_e q\<rparr>) = con_ready q @ con_line q"
    "con_line (q\<lparr>in_w := in_e q\<rparr>) = []"
proof -
  let ?q = "q\<lparr>in_w := in_e q\<rparr>" and ?m = "unat (in_w q - in_r q)"
  show l: "con_line ?q = []" by (simp add: con_line_def)
  show "con_ok ?q" using assms con_diff [OF assms] by (simp add: con_ok_def con_ord_def l)
  have w: "in_at q (in_r q + of_nat (?m + i)) = in_at q (in_w q + of_nat i)" for i by (simp add: algebra_simps)
  have "con_ready ?q = map (\<lambda>i. in_at q (in_r q + of_nat i)) [0..<?m + unat (in_e q - in_w q)]"
    by (simp add: con_ready_def con_diff [OF assms] in_at_def)
  also have "\<dots> = con_ready q @ map (\<lambda>i. in_at q (in_r q + of_nat (?m + i))) [0..<unat (in_e q - in_w q)]"
    unfolding con_ready_def by (rule map_upt_append)
  finally show "con_ready ?q = con_ready q @ con_line q" by (simp only: w con_line_def)
qed

text \<open>A byte is stored behind the line; below 128 bytes the slots are distinct.\<close>

definition con_put :: "u8 \<Rightarrow> input_state \<Rightarrow> input_state" where
  "con_put c q = q\<lparr>in_buf := (in_buf q)(unat (in_e q) mod INPUT_BUF := c), in_e := in_e q + 1\<rparr>"

lemma slot_of_e: "con_ok q \<Longrightarrow> unat (in_e q) mod INPUT_BUF = (unat (in_r q) + unat (in_e q - in_r q)) mod INPUT_BUF"
proof -
  have "unat (in_e q) = (unat (in_r q) + unat (in_e q - in_r q)) mod 2 ^ 32"
    using unat_word_ariths(1) [of "in_r q" "in_e q - in_r q"] by simp
  then show ?thesis by (simp add: mod_mod_cancel)
qed

lemma con_put_at:
  assumes "con_ok q" "unat (in_e q - in_r q) < INPUT_BUF" "i \<le> unat (in_e q - in_r q)"
  shows "in_at (con_put c q) (in_r q + of_nat i) = (if i = unat (in_e q - in_r q) then c else in_at q (in_r q + of_nat i))"
  using ring_slot_inj [OF assms(3,2), of "unat (in_r q)"] slot_of_e [OF assms(1)]
  by (simp add: in_slot con_put_def)

lemma con_line_at: "con_line q = map (\<lambda>i. in_at q (in_r q + of_nat (unat (in_w q - in_r q) + i))) [0..<unat (in_e q - in_w q)]"
  by (simp add: con_line_def algebra_simps)

lemma con_put:
  assumes q: "con_ok q" "unat (in_e q - in_r q) < INPUT_BUF"
  shows "con_ready (con_put c q) = con_ready q" "con_line (con_put c q) = con_line q @ [c]"
proof -
  let ?m = "unat (in_w q - in_r q)" and ?n = "unat (in_e q - in_w q)"
  note d = con_diff [OF con_okD [OF q(1)]]
  have f: "in_r (con_put c q) = in_r q" "in_w (con_put c q) = in_w q" "in_e (con_put c q) = in_e q + 1"
    by (simp_all add: con_put_def)
  have n: "unat (in_e q + 1 - in_w q) = ?n + 1" using q d by (intro unat_succ) simp
  show "con_ready (con_put c q) = con_ready q"
    unfolding con_ready_def f by (rule map_cong) (use q d in \<open>auto simp: con_put_at\<close>)
  have "map (\<lambda>i. in_at (con_put c q) (in_r q + of_nat (?m + i))) [0..<?n] =
      map (\<lambda>i. in_at q (in_r q + of_nat (?m + i))) [0..<?n]"
    by (rule map_cong) (use q d in \<open>auto simp: con_put_at simp del: of_nat_add\<close>)
  moreover have "in_at (con_put c q) (in_r q + of_nat (?m + ?n)) = c"
    using con_put_at [OF q, of "?m + ?n" c] d by (simp del: of_nat_add)
  ultimately show "con_line (con_put c q) = con_line q @ [c]"
    unfolding con_line_at f n by (simp del: of_nat_add)
qed

text \<open>A reader takes the first byte.\<close>

definition con_skip :: "input_state \<Rightarrow> input_state" where
  "con_skip q = q\<lparr>in_r := in_r q + 1\<rparr>"

lemma con_skip:
  assumes q: "con_ok q" "in_r q \<noteq> in_w q"
  shows "con_ok (con_skip q)" "con_ready q = in_at q (in_r q) # con_ready (con_skip q)"
    "con_line (con_skip q) = con_line q"
proof -
  let ?m = "unat (in_w q - in_r q)"
  have "in_w q - in_r q \<noteq> 0" using q(2) by auto
  then have "unat (in_w q - in_r q - 1) = ?m - 1" by (rule unat_minus_one)
  moreover have "0 < ?m" using \<open>in_w q - in_r q \<noteq> 0\<close> by (simp add: unat_gt_0)
  ultimately have m: "?m = Suc (unat (in_w q - (in_r q + 1)))" by (simp add: diff_diff_eq)
  show l: "con_line (con_skip q) = con_line q" by (simp add: con_line_def con_skip_def in_at_def)
  show "con_ok (con_skip q)" using q(1) m by (auto simp: con_ok_def con_ord_def l) (simp_all add: con_skip_def)
  show "con_ready q = in_at q (in_r q) # con_ready (con_skip q)"
    unfolding con_ready_def m by (simp add: con_skip_def in_at_def upt_conv_Cons map_Suc_upt [symmetric]
        algebra_simps del: upt_Suc)
qed

lemma con_line_last: "in_e q \<noteq> in_w q \<Longrightarrow> in_at q (in_e q - 1) \<in> set (con_line q)"
proof -
  let ?d = "in_e q - in_w q"
  assume "in_e q \<noteq> in_w q"
  then have d: "?d \<noteq> 0" by simp
  have "(of_nat (unat (?d - 1)) :: u32) = ?d - 1" by simp
  then have "in_w q + of_nat (unat ?d - 1) = in_e q - 1" by (simp add: unat_minus_one [OF d])
  moreover have "unat ?d - 1 < unat ?d" using d by (simp add: unat_gt_0)
  ultimately show ?thesis unfolding con_line_def by (force intro!: image_eqI [of _ _ "unat ?d - 1"])
qed

section \<open>The editor\<close>

text \<open>What a typed character does to the bytes that are ready and the line: control-U and backspace
  edit, a newline or control-D or a full buffer finishes the line, what does not fit is dropped.\<close>

definition edit :: "u32 \<Rightarrow> u8 list \<times> u8 list \<Rightarrow> u8 list \<times> u8 list" where
  "edit c = (\<lambda>(ready, line).
     if c = 16 then (ready, line)
     else if c = 21 then (ready, [])
     else if c = 8 \<or> c = 0x7f then (ready, butlast line)
     else if c = 0 \<or> INPUT_BUF \<le> length ready + length line then (ready, line)
     else let line' = line @ [ucast (if c = 13 then 10 else c)] in
       if c = 10 \<or> c = 13 \<or> c = 4 \<or> length ready + length line' = INPUT_BUF then (ready @ line', [])
       else (ready, line'))"

definition con_text :: "kernel \<Rightarrow> u8 list \<times> u8 list" where
  "con_text s = (con_ready (input s), con_line (input s))"

text \<open>The cursor is on the screen, so that no output panics; nobody is on the way to sleep.\<close>

definition con_inv :: "kernel \<Rightarrow> bool" where
  "con_inv s \<longleftrightarrow> con_ok (input s) \<and> no_drowsy Ch_input s \<and> 0 \<le> crt_pos s \<and> crt_pos s < 24 * 80"

text \<open>What console input changes. Readers are woken when there is something to read.\<close>

definition con_frame :: "kernel \<Rightarrow> kernel \<Rightarrow> bool" where
  "con_frame s t \<longleftrightarrow> (\<exists>pt q k u m p. t = s\<lparr>ptable := pt, input := q, kbd_shift := k, uart_out := u, crt := m, crt_pos := p\<rparr>)"

definition con_woken :: "kernel \<Rightarrow> kernel \<Rightarrow> bool" where
  "con_woken s t \<longleftrightarrow> (\<exists>new. con_ready (input t) = con_ready (input s) @ new \<and>
     ptable t = (if new = [] then ptable s else upd_range 0 NPROC (woken (Some Ch_input)) (ptable s)))"

lemma con_frameI:
  "t = s\<lparr>ptable := ptable t, input := input t, kbd_shift := kbd_shift t, uart_out := uart_out t, crt := crt t,
     crt_pos := crt_pos t\<rparr> \<Longrightarrow> con_frame s t"
  unfolding con_frame_def by blast

lemma con_frame_refl [simp]: "con_frame s s"
  by (rule con_frameI) simp

lemma con_frame_trans: "con_frame s t \<Longrightarrow> con_frame t u \<Longrightarrow> con_frame s u"
  unfolding con_frame_def by (elim exE, hypsubst) (simp, blast)

lemma con_woken_refl [simp]: "con_woken s s"
  by (simp add: con_woken_def)

lemma con_woken_trans: "con_woken s t \<Longrightarrow> con_woken t u \<Longrightarrow> con_woken s u"
  unfolding con_woken_def by (elim exE conjE) (auto simp: woken_twice)

lemma consputc_ok:
  assumes "0 \<le> crt_pos s" "crt_pos s < 24 * 80"
  shows "\<exists>u m p. consputc c s w = Done () (s\<lparr>uart_out := u, crt := m, crt_pos := p\<rparr>) w \<and> 0 \<le> p \<and> p < 24 * 80"
proof -
  obtain pos m where pm: "cga_put c (crt_pos s, crt s) = (pos, m)" by fastforce
  have pos: "0 \<le> pos" "pos \<le> 24 * 80"
  proof -
    have "crt_pos s + (80 - crt_pos s mod 80) \<le> 24 * 80" "0 \<le> crt_pos s + (80 - crt_pos s mod 80)"
      using assms by presburger+
    then show "0 \<le> pos" "pos \<le> 24 * 80"
      using assms pm by (auto simp: cga_put_def split: if_splits)
  qed
  obtain pos' m' where pm': "cga_scroll (pos, m) = (pos', m')" by fastforce
  then have pos': "0 \<le> pos'" "pos' < 24 * 80"
    using pos by (auto simp: cga_scroll_def Let_def split: if_splits)
  have c: "cgaputc c (s\<lparr>uart_out := u\<rparr>) w = Done () (s\<lparr>uart_out := u, crt := m'(nat pos' := 0x0720), crt_pos := pos'\<rparr>) w" for u
    using pos by (simp add: cgaputc_def pm pm')
  define u where "u = uart_out s @ (if \<not> uart s then [] else if c = BACKSPACE then [8, 32, 8] else [c])"
  have "(if c = BACKSPACE then kseq (uartputc 8) (kseq (uartputc 32) (uartputc 8)) else uartputc c) s w =
      Done () (s\<lparr>uart_out := u\<rparr>) w"
    by (simp add: uartputc_def u_def)
  then have "consputc c s w = cgaputc c (s\<lparr>uart_out := u\<rparr>) w"
    unfolding consputc_def by (rule kseq_done)
  with c [of u] pos' show ?thesis
    by (intro exI [of _ u] exI [of _ "m'(nat pos' := 0x0720)"] exI [of _ pos']) simp
qed

text \<open>Editing within a line: the ring changes and something is printed.\<close>

lemma con_print:
  assumes s: "con_inv s" and q: "con_ok q" "con_ready q = con_ready (input s)"
  shows "\<exists>t. consputc c (s\<lparr>input := q\<rparr>) w = Done () t w \<and> con_frame s t \<and> con_inv t \<and> input t = q \<and>
    ptable t = ptable s \<and> kbd_shift t = kbd_shift s"
proof -
  obtain u m p where t: "consputc c (s\<lparr>input := q\<rparr>) w = Done () (s\<lparr>input := q, uart_out := u, crt := m, crt_pos := p\<rparr>) w"
      and p: "0 \<le> p" "p < 24 * 80"
    using consputc_ok [of "s\<lparr>input := q\<rparr>" c w] s by (auto simp: con_inv_def)
  let ?t = "s\<lparr>input := q, uart_out := u, crt := m, crt_pos := p\<rparr>"
  have "con_frame s ?t" by (rule con_frameI) simp
  moreover have "con_inv ?t" using s q p by (simp add: con_inv_def)
  ultimately show ?thesis using t by auto
qed

definition con_edited :: "kernel \<Rightarrow> kernel \<Rightarrow> bool" where
  "con_edited s t \<longleftrightarrow> con_frame s t \<and> con_inv t \<and> con_woken s t"

lemma con_edited_trans: "con_edited s t \<Longrightarrow> con_edited t u \<Longrightarrow> con_edited s u"
  unfolding con_edited_def by (blast intro: con_frame_trans con_woken_trans)

lemma con_same: "con_ready (input t) = con_ready (input s) \<Longrightarrow> ptable t = ptable s \<Longrightarrow> con_woken s t"
  by (simp add: con_woken_def)

lemma con_erase:
  assumes "con_inv s" "in_e (input s) \<noteq> in_w (input s)"
  shows "\<exists>t. kseq (upd_input (\<lambda>q. q\<lparr>in_e := in_e q - 1\<rparr>)) (consputc BACKSPACE) s w = Done () t w \<and>
    con_edited s t \<and> kbd_shift t = kbd_shift s \<and> con_text t = (fst (con_text s), butlast (snd (con_text s))) \<and>
    unat (in_e (input t) - in_w (input t)) = unat (in_e (input s) - in_w (input s)) - 1"
proof -
  let ?q = "(input s)\<lparr>in_e := in_e (input s) - 1\<rparr>"
  have q: "con_ok (input s)" using assms(1) by (simp add: con_inv_def)
  note b = con_back [OF q assms(2)]
  obtain t where "consputc BACKSPACE (s\<lparr>input := ?q\<rparr>) w = Done () t w" "con_frame s t" "con_inv t" "input t = ?q"
      "ptable t = ptable s" "kbd_shift t = kbd_shift s"
    using con_print [OF assms(1) b(1,2)] by blast
  then show ?thesis using b assms(2)
    by (auto simp: upd_input_def con_edited_def con_text_def con_same unat_pred)
qed

lemma kill_line_ok:
  "con_inv s \<Longrightarrow> unat (in_e (input s) - in_w (input s)) < n \<Longrightarrow>
   \<exists>t. kill_line n s w = Done () t w \<and> con_edited s t \<and> kbd_shift t = kbd_shift s \<and> con_text t = (fst (con_text s), [])"
proof (induction n arbitrary: s)
  case (Suc n)
  show ?case
  proof (cases "in_e (input s) = in_w (input s)")
    case True
    then show ?thesis using Suc.prems by (auto simp: con_edited_def con_text_def con_line_def)
  next
    case False
    then have nl: "in_at (input s) (in_e (input s) - 1) \<noteq> 10"
      using con_line_last [OF False] Suc.prems(1) by (auto simp: con_inv_def con_ok_def)
    obtain t where t: "kseq (upd_input (\<lambda>q. q\<lparr>in_e := in_e q - 1\<rparr>)) (consputc BACKSPACE) s w = Done () t w"
        "con_edited s t" "kbd_shift t = kbd_shift s" "fst (con_text t) = fst (con_text s)"
        "unat (in_e (input t) - in_w (input t)) = unat (in_e (input s) - in_w (input s)) - 1"
      using con_erase [OF Suc.prems(1) False, of w] by auto
    have "con_inv t" using t(2) by (simp add: con_edited_def)
    moreover have "unat (in_e (input t) - in_w (input t)) < n"
    proof -
      have "0 < unat (in_e (input s) - in_w (input s))" using False by (simp add: unat_gt_0)
      then show ?thesis using t(5) Suc.prems(2) by linarith
    qed
    ultimately obtain u where "kill_line n t w = Done () u w" "con_edited t u" "kbd_shift u = kbd_shift t"
        "con_text u = (fst (con_text t), [])"
      using Suc.IH [of t] by blast
    moreover have "kill_line (Suc n) s w = kseq (kseq (upd_input (\<lambda>q. q\<lparr>in_e := in_e q - 1\<rparr>)) (consputc BACKSPACE)) (kill_line n) s w"
      using False nl by (simp add: kseq_assoc del: kseq_app)
    moreover have "\<dots> = kill_line n t w" by (rule kseq_done) (rule t(1))
    ultimately show ?thesis using t con_edited_trans [of s t u] by simp
  qed
qed simp

lemma ucast8_eq: "(x :: u32) < 256 \<Longrightarrow> y < 256 \<Longrightarrow> (ucast x :: u8) = ucast y \<longleftrightarrow> x = y"
  by (simp add: word_unat_eq_iff word_less_nat_alt unsigned_ucast_eq take_bit_eq_mod)

text \<open>Adding a character, with the wakeup when it finishes a line.\<close>

lemma con_append:
  assumes s: "cli_ok c s" "con_inv s" and b: "b = 10 \<longleftrightarrow> ch = 10"
    and room: "unat (in_e (input s) - in_r (input s)) < INPUT_BUF"
    and fin: "fin \<longleftrightarrow> ch = 10 \<or> ch = 4 \<or> unat (in_e (input s) - in_r (input s)) + 1 = INPUT_BUF"
  shows "\<exists>t. kseq (upd_input (con_put b)) (kseq (consputc ch)
      (kif (\<lambda>s. ch = 10 \<or> ch = 4 \<or> in_e (input s) = in_r (input s) + of_nat INPUT_BUF)
        (kseq (upd_input (\<lambda>q. q\<lparr>in_w := in_e q\<rparr>)) (wakeup Ch_input)) (kret ()))) s w = Done () t w \<and>
    con_edited s t \<and> kbd_shift t = kbd_shift s \<and>
    con_text t = (let line = con_line (input s) @ [b] in
      if fin then (con_ready (input s) @ line, []) else (con_ready (input s), line))"
proof -
  let ?q = "con_put b (input s)" and ?r = "con_ready (input s)" and ?l = "con_line (input s) @ [b]"
  have q: "con_ok (input s)" using s by (simp add: con_inv_def)
  note d = con_diff [OF con_okD [OF q]] and pt = con_put [OF q room, of b]
  have f: "in_r ?q = in_r (input s)" "in_w ?q = in_w (input s)" "in_e ?q = in_e (input s) + 1"
    by (simp_all add: con_put_def)
  have sum: "unat (in_w ?q - in_r ?q) + unat (in_e ?q - in_w ?q) = unat (in_e (input s) - in_r (input s)) + 1"
    using d length_con(2) [of ?q] unfolding pt by (simp add: f)
  then have ord: "con_ord ?q" using room by (simp add: con_ord_def)
  obtain u m p where t: "consputc ch (s\<lparr>input := ?q\<rparr>) w = Done () (s\<lparr>input := ?q, uart_out := u, crt := m, crt_pos := p\<rparr>) w"
      and p: "0 \<le> p" "p < 24 * 80"
    using consputc_ok [of "s\<lparr>input := ?q\<rparr>" ch w] s by (auto simp: con_inv_def)
  let ?t = "s\<lparr>input := ?q, uart_out := u, crt := m, crt_pos := p\<rparr>"
  let ?pt = "upd_range 0 NPROC (woken (Some Ch_input)) (ptable s)"
  let ?v = "?t\<lparr>input := ?q\<lparr>in_w := in_e ?q\<rparr>, ptable := ?pt\<rparr>"
  have "in_e ?q = in_r ?q + of_nat INPUT_BUF \<longleftrightarrow> unat (in_e (input s) + 1 - in_r (input s)) = INPUT_BUF"
    unfolding f using apart_iff [of "in_e (input s) + 1" "in_r (input s)"] by simp
  then have full: "in_e ?q = in_r ?q + of_nat INPUT_BUF \<longleftrightarrow> unat (in_e (input s) - in_r (input s)) + 1 = INPUT_BUF"
    using unat_succ room by simp
  show ?thesis
  proof (cases fin)
    case True
    have "wakeup Ch_input (?t\<lparr>input := ?q\<lparr>in_w := in_e ?q\<rparr>\<rparr>) w = Done () ?v w"
      using s wakeup_ok [of c "?t\<lparr>input := ?q\<lparr>in_w := in_e ?q\<rparr>\<rparr>" Ch_input w] by (simp add: con_inv_def cli_ok_def)
    moreover have "con_frame s ?v" by (rule con_frameI) simp
    moreover have "con_inv ?v" using con_commit(1) [OF ord] s p no_drowsy_woken [of Ch_input s]
      by (simp add: con_inv_def no_drowsy_def)
    moreover have "con_woken s ?v" using con_commit(2) [OF ord] by (simp add: con_woken_def pt)
    ultimately show ?thesis using True fin full con_commit [OF ord]
      by (simp add: upd_input_def t con_edited_def con_text_def pt)
  next
    case False
    have "con_frame s ?t" by (rule con_frameI) simp
    moreover have "con_ok ?q" using False fin sum ord q b unfolding con_ok_def pt by auto
    then have "con_inv ?t" using s p by (simp add: con_inv_def)
    moreover have "con_woken s ?t" by (rule con_same) (simp_all add: pt)
    ultimately show ?thesis using False fin full
      by (auto simp: upd_input_def t con_edited_def con_text_def pt Let_def)
  qed
qed

lemma console_char_ok:
  assumes s: "cli_ok c s" "con_inv s" and ch: "ch < 256"
  shows "\<exists>t. console_char ch s w = Done () t w \<and> con_edited s t \<and> kbd_shift t = kbd_shift s \<and>
    con_text t = edit ch (con_text s)"
proof -
  let ?q = "input s"
  have q: "con_ok ?q" using s by (simp add: con_inv_def)
  have len: "length (con_ready ?q) + length (con_line ?q) = unat (in_e ?q - in_r ?q)" by (simp add: con_diff [OF con_okD [OF q]])
  consider "ch = 16" | "ch = 21" | "ch = 8 \<or> ch = 0x7f" "in_e ?q = in_w ?q" | "ch = 8 \<or> ch = 0x7f" "in_e ?q \<noteq> in_w ?q"
    | "ch \<notin> {16, 21, 8, 0x7f}" "ch = 0 \<or> INPUT_BUF \<le> unat (in_e ?q - in_r ?q)"
    | "ch \<notin> {16, 21, 8, 0x7f}" "ch \<noteq> 0" "unat (in_e ?q - in_r ?q) < INPUT_BUF"
    by fastforce
  then show ?thesis
  proof cases
    case 1
    then show ?thesis using s by (auto simp: console_char_def con_edited_def edit_def con_text_def)
  next
    case 2
    then have "console_char ch s w = kill_line (Suc (unat (in_e ?q - in_w ?q))) s w"
      by (simp add: console_char_def del: kill_line.simps)
    then show ?thesis using kill_line_ok [OF s(2), of "Suc (unat (in_e ?q - in_w ?q))" w] 2
      by (simp add: edit_def con_text_def del: kill_line.simps)
  next
    case 3
    then have "con_line ?q = []" by (simp add: con_line_def)
    then show ?thesis using s 3 by (auto simp: console_char_def con_edited_def edit_def con_text_def)
  next
    case 4
    then have "ch \<noteq> 16" "ch \<noteq> 21" by auto
    then have "console_char ch s w = kseq (upd_input (\<lambda>q. q\<lparr>in_e := in_e q - 1\<rparr>)) (consputc BACKSPACE) s w"
      using 4 by (auto simp: console_char_def simp del: kseq_app)
    moreover have "edit ch (con_text s) = (fst (con_text s), butlast (snd (con_text s)))"
      using 4(1) by (auto simp: edit_def con_text_def)
    ultimately show ?thesis using con_erase [OF s(2) 4(2), of w] by (simp del: kseq_app) blast
  next
    case 5
    then show ?thesis using s len by (auto simp: console_char_def con_edited_def edit_def con_text_def word_less_nat_alt)
  next
    case 6
    define d where "d = (if ch = 13 then 10 else ch)"
    have "(ucast d :: u8) = 10 \<longleftrightarrow> d = 10"
      using ch ucast8_eq [of d 10] by (simp add: d_def)
    then obtain t where "kseq (upd_input (con_put (ucast d))) (kseq (consputc d)
      (kif (\<lambda>s. d = 10 \<or> d = 4 \<or> in_e (input s) = in_r (input s) + of_nat INPUT_BUF)
        (kseq (upd_input (\<lambda>q. q\<lparr>in_w := in_e q\<rparr>)) (wakeup Ch_input)) (kret ()))) s w = Done () t w"
      "con_edited s t" "kbd_shift t = kbd_shift s" "con_text t = (let line = con_line (input s) @ [ucast d] in
      if d = 10 \<or> d = 4 \<or> unat (in_e (input s) - in_r (input s)) + 1 = INPUT_BUF
      then (con_ready (input s) @ line, []) else (con_ready (input s), line))"
      using con_append [OF s _ 6(3)] by blast
    moreover have "console_char ch s w = kseq (upd_input (con_put (ucast d))) (kseq (consputc d)
      (kif (\<lambda>s. d = 10 \<or> d = 4 \<or> in_e (input s) = in_r (input s) + of_nat INPUT_BUF)
        (kseq (upd_input (\<lambda>q. q\<lparr>in_w := in_e q\<rparr>)) (wakeup Ch_input)) (kret ()))) s w"
      using 6 by (simp add: console_char_def d_def con_put_def [abs_def] word_less_nat_alt del: kseq_app)
    ultimately show ?thesis using 6 len by (auto simp: edit_def con_text_def d_def Let_def)
  qed
qed

section \<open>Many characters\<close>

lemma byte_nonneg: "c < 256 \<Longrightarrow> \<not> sint (c :: u32) < 0"
  by (simp add: sint_u32 word_less_nat_alt)

lemma cpu_index_kbd [simp]: "cpu_index (s\<lparr>kbd_shift := k\<rparr>) = cpu_index s"
  by (simp add: cpu_index_def)

lemma con_frame_cli: "con_frame s t \<Longrightarrow> cli_ok c t = cli_ok c s"
  by (auto simp: con_frame_def cli_ok_def)

lemma con_edited_shift: "con_inv s \<Longrightarrow> con_edited s (s\<lparr>kbd_shift := k\<rparr>)"
  unfolding con_edited_def by (intro conjI con_frameI con_same) (simp_all add: con_inv_def)

lemma console_loop_ok:
  assumes "cli_ok c s" "con_inv s" "length bs < n"
  shows "\<exists>t. console_loop n kbdgetc bs dump s w = Done (dump \<or> 16 \<in> set (kbd_chars bs (kbd_shift s))) t w \<and>
    con_edited s t \<and> kbd_shift t = kbd_end bs (kbd_shift s) \<and>
    con_text t = fold edit (kbd_chars bs (kbd_shift s)) (con_text s)"
  using assms
proof (induction n arbitrary: bs s dump)
  case (Suc n)
  show ?case
  proof (cases bs)
    case Nil
    then show ?thesis using Suc.prems by (auto simp: kbdgetc_def con_edited_def)
  next
    case (Cons b bs')
    obtain ch k where k: "kbd_code (kbd_shift s) (ucast b) = (ch, k)" by fastforce
    let ?s = "s\<lparr>kbd_shift := k\<rparr>"
    have ch: "ch < 256" using kbd_code_bound [of "kbd_shift s" "ucast b"] by (simp add: k)
    have e: "con_edited s ?s" using Suc.prems(2) by (rule con_edited_shift)
    have "cli_ok c ?s" using Suc.prems(1) by (simp add: cli_ok_def)
    then obtain t where t: "console_char ch ?s w = Done () t w" "con_edited ?s t" "kbd_shift t = k"
        "con_text t = edit ch (con_text s)"
      using console_char_ok [of c ?s ch w] e ch by (auto simp: con_edited_def con_text_def)
    have "cli_ok c t" using t(2) \<open>cli_ok c ?s\<close> con_frame_cli [of ?s t c] by (simp add: con_edited_def)
    then obtain u where u: "console_loop n kbdgetc bs' (dump \<or> ch = 16) t w = Done ((dump \<or> ch = 16) \<or> 16 \<in> set (kbd_chars bs' k)) u w"
        "con_edited t u" "kbd_shift u = kbd_end bs' k" "con_text u = fold edit (kbd_chars bs' k) (con_text t)"
      using Suc.IH [of t bs' "dump \<or> ch = 16"] t(2,3) Suc.prems(3) Cons by (auto simp: con_edited_def)
    have "console_loop (Suc n) kbdgetc bs dump s w = console_loop n kbdgetc bs' (dump \<or> ch = 16) t w"
      using t(1) ch by (simp add: Cons kbdgetc_def k byte_nonneg)
    moreover have "con_edited s u" using e t(2) u(2) by (blast intro: con_edited_trans)
    ultimately show ?thesis using u t(4) by (auto simp: Cons k)
  qed
qed simp

section \<open>The interrupt handler of the keyboard\<close>

lemma kbdintr_edits:
  assumes s: "cli_ok c s" "lock_free L_cons s" "con_inv s"
    and chars: "chars = kbd_chars (dv_kbd dv) (kbd_shift s)" "16 \<notin> set chars"
  shows "\<exists>t. kbdintr dv s w = Done () t w \<and> con_text t = fold edit chars (con_text s) \<and> con_inv t \<and>
    con_frame s t \<and> con_woken s t \<and> kbd_shift t = kbd_end (dv_kbd dv) (kbd_shift s)"
proof -
  let ?s = "with_lock c L_cons s" and ?bs = "dv_kbd dv"
  have f: "input ?s = input s" "ptable ?s = ptable s" "kbd_shift ?s = kbd_shift s" "crt_pos ?s = crt_pos s"
    by (simp_all add: with_lock_def)
  have "con_inv ?s" using s(3) by (simp add: con_inv_def f)
  then obtain t where t: "console_loop (Suc (length ?bs)) kbdgetc ?bs False ?s w = Done False t w" "con_edited ?s t"
      "kbd_shift t = kbd_end ?bs (kbd_shift s)" "con_text t = fold edit chars (con_text s)"
    using console_loop_ok [of c ?s ?bs "Suc (length ?bs)" False w] s(1) chars by (auto simp: f con_text_def)
  then obtain pt q k u m p where tt: "t = ?s\<lparr>ptable := pt, input := q, kbd_shift := k, uart_out := u, crt := m, crt_pos := p\<rparr>"
    by (auto simp: con_edited_def con_frame_def)
  let ?t = "t\<lparr>locks := locks s, eflags_if := eflags_if s, cpus := cpus s\<rparr>"
  have "release L_cons t w = Done () ?t w"
    using s t(2) con_frame_cli [of ?s t c] by (intro release_ok) (simp_all add: tt cli_okD)
  then have "kbdintr dv s w = Done () ?t w"
    using s t(1) by (simp add: kbdintr_def consoleintr_def acquire_ok del: console_loop.simps)
  moreover have "?t = s\<lparr>ptable := pt, input := q, kbd_shift := k, uart_out := u, crt := m, crt_pos := p\<rparr>"
    by (rule kernel.equality) (simp_all add: tt with_lock_def)
  then have "con_frame s ?t" unfolding con_frame_def by blast
  moreover have "con_inv ?t" using t(2) by (simp add: con_edited_def con_inv_def no_drowsy_def)
  moreover have "con_woken s ?t" using t(2) unfolding con_edited_def con_woken_def f by simp
  ultimately show ?thesis using t(3,4) by (auto simp: con_text_def)
qed

text \<open>C14. Console input refines a line editor. The keyboard interrupt takes the waiting scan codes, decodes
  them with the state of the shift keys, and has the effect of the editor on every character in turn:
  the ring of 128 bytes with its three wrapping counters stands for the bytes readers can take and the
  line being edited. The invariant is kept, the handler does not panic, readers are woken exactly when
  there is something new to read, and nothing else in the kernel changes.\<close>

theorem console_line_editor:
  assumes s: "cli_ok c s" "lock_free L_cons s" "con_inv s"
    and chars: "chars = kbd_chars (dv_kbd dv) (kbd_shift s)" "16 \<notin> set chars"
  shows "\<exists>t. kbdintr dv s w = Done () t w \<and> con_text t = fold edit chars (con_text s) \<and> con_inv t \<and>
    con_frame s t \<and> con_woken s t \<and> kbd_shift t = kbd_end (dv_kbd dv) (kbd_shift s)"
  using kbdintr_edits [OF s chars] .

section \<open>Reading a line\<close>

lemma splice_more: "length xs + off < length bs \<Longrightarrow> splice (Suc off) xs (splice off [x] bs) = splice off (x # xs) bs"
  by (simp add: splice_def take_append min_def add.commute)

text \<open>The first line that is ready goes to the reader, byte by byte.\<close>

lemma consoleread_loop_line:
  assumes "con_ok (input s)" "con_ready (input s) = pre @ 10 # rest" "10 \<notin> set pre" "4 \<notin> set pre"
    and "length pre < k" "k \<le> unat target" "length bs = unat target"
  shows "\<exists>q. consoleread_loop k target (Local bs) s w =
      Done (Some (k - Suc (length pre), Local (splice (unat target - k) (pre @ [10]) bs))) (s\<lparr>input := q\<rparr>) w \<and>
    con_ok q \<and> con_ready q = rest \<and> con_line q = con_line (input s)"
  using assms
proof (induction k arbitrary: s pre bs)
  case (Suc k)
  let ?q = "input s" and ?off = "unat target - Suc k"
  have ne: "in_r ?q \<noteq> in_w ?q" using Suc.prems(2) by (auto simp: con_ready_def)
  note sk = con_skip [OF Suc.prems(1) ne]
  have wait: "console_wait s w = Done False s w" using ne by (simp add: console_wait_def)
  have "Suc k < 2 ^ 32" using Suc.prems(6) unat_lt_u32 [of target] by simp
  then have "unat (of_nat (Suc k) :: u32) = Suc k" by (simp add: unat_of_nat del: of_nat_Suc)
  then have off: "unat (target - of_nat (Suc k)) = ?off"
    using Suc.prems(6) by (simp only: unat_sub_if' if_True)
  show ?case
  proof (cases pre)
    case Nil
    then have "in_at ?q (in_r ?q) = 10" "con_ready (con_skip ?q) = rest" using sk(2) Suc.prems(2) by simp_all
    then show ?thesis using sk wait off
      by (auto simp: Nil upd_input_def put_out_def con_skip_def intro!: exI [of _ "con_skip ?q"] simp del: of_nat_Suc)
  next
    case (Cons x pre')
    let ?s = "s\<lparr>input := con_skip ?q\<rparr>" and ?bs = "splice ?off [x] bs"
    have x: "in_at ?q (in_r ?q) = x" "con_ready (con_skip ?q) = pre' @ 10 # rest" "x \<noteq> 10" "x \<noteq> 4"
      using sk(2) Suc.prems(2-4) Cons by auto
    have l: "length ?bs = unat target" using Suc.prems(6,7) by simp
    obtain q where q: "consoleread_loop k target (Local ?bs) ?s w =
        Done (Some (k - Suc (length pre'), Local (splice (unat target - k) (pre' @ [10]) ?bs))) (s\<lparr>input := q\<rparr>) w"
        "con_ok q" "con_ready q = rest" "con_line q = con_line ?q"
      using Suc.IH [of ?s pre' ?bs] sk x l Suc.prems Cons by auto
    have "unat target - k = Suc ?off" using Suc.prems(6) by simp
    then have "splice (unat target - k) (pre' @ [10]) ?bs = splice ?off (pre @ [10]) bs"
      using Suc.prems(5-7) Cons splice_more [of "pre' @ [10]" ?off bs x] by (simp only:) simp
    moreover have "consoleread_loop (Suc k) target (Local bs) s w = consoleread_loop k target (Local ?bs) ?s w"
      using x wait off by (simp add: upd_input_def put_out_def con_skip_def del: of_nat_Suc)
    moreover have "k - Suc (length pre') = Suc k - Suc (length pre)" by (simp add: Cons)
    ultimately show ?thesis using q by (intro exI [of _ q] conjI) (simp_all only:)
  qed
qed (simp only: not_less0)

text \<open>A process \<open>p\<close> on CPU \<open>c\<close> that may read from the console through the inode \<open>ip\<close>, as \<open>readi\<close> does: it holds
  the lock of the inode, and the console is free.\<close>

definition con_reader :: "nat \<Rightarrow> nat \<Rightarrow> nat \<Rightarrow> kernel \<Rightarrow> bool" where
  "con_reader c p ip s \<longleftrightarrow> running c p s \<and> sl_held p (SL_inode ip) s \<and> lock_free L_cons s \<and>
     no_drowsy (Ch_sleeplock (SL_inode ip)) s \<and> 1 \<le> ip_ref (icache s ip) \<and> ip_valid (icache s ip)"

lemma iunlock_own:
  assumes "con_reader c p ip s"
  shows "iunlock ip s w = Done () (sl_drop (SL_inode ip) s) w"
proof -
  have "holdingsleep (SL_inode ip) s w = Done True s w"
    using assms by (intro holdingsleep_own) (auto simp: con_reader_def)
  moreover have "releasesleep (SL_inode ip) s w = Done () (sl_drop (SL_inode ip) s) w"
    using assms by (intro releasesleep_own [of c]) (auto simp: con_reader_def running_def sl_held_def)
  ultimately show ?thesis using assms by (simp add: iunlock_def con_reader_def)
qed

lemma ilock_valid:
  assumes "running c p s" "sl_free (SL_inode ip) s" "1 \<le> ip_ref (icache s ip)" "ip_valid (icache s ip)"
  shows "ilock ip s w = Done () (sl_take p (SL_inode ip) s) w"
  using assms by (simp add: ilock_def acquiresleep_free) (simp add: sl_take_def not_less)

lemma critical_input:
  assumes "cli_ok c s" "lock_free L_cons s" "m (with_lock c L_cons s) w = Done r ((with_lock c L_cons s)\<lparr>input := q\<rparr>) w"
  shows "kseq (acquire L_cons) (kbind m (\<lambda>r. kseq (release L_cons) (k r))) s w = k r (s\<lparr>input := q\<rparr>) w"
proof -
  let ?t = "(with_lock c L_cons s)\<lparr>input := q\<rparr>"
  have "release L_cons ?t w = Done () (?t\<lparr>locks := locks s, eflags_if := eflags_if s, cpus := cpus s\<rparr>) w"
    using assms(1,2) by (intro release_ok) (simp_all add: cli_okD)
  moreover have "?t\<lparr>locks := locks s, eflags_if := eflags_if s, cpus := cpus s\<rparr> = s\<lparr>input := q\<rparr>"
    by (rule kernel.equality) (simp_all add: with_lock_def)
  ultimately show ?thesis using assms by (simp add: acquire_ok)
qed

lemma consoleread_line:
  assumes s: "con_reader c p ip s" and q: "con_ok (input s)" "con_ready (input s) = pre @ 10 # rest"
    and pre: "10 \<notin> set pre" "4 \<notin> set pre" "length pre < unat n" and n: "unat n < 2 ^ 31" "length bs = unat n"
  shows "\<exists>t. consoleread ip (Local bs) n s w = Done (of_nat (length pre + 1), Local (splice 0 (pre @ [10]) bs)) t w \<and>
    con_text t = (rest, con_line (input s)) \<and> con_ok (input t)"
proof -
  let ?L = "SL_inode ip" let ?d = "sl_drop ?L s" let ?t = "with_lock c L_cons ?d"
  have sn: "sint n = int (unat n)" using n(1) by (simp only: sint_u32 if_True)
  have k: "nat (sint n) = unat n" "0 < sint n" using pre(3) unfolding sn by (simp only: nat_int, linarith)
  have d: "cli_ok c ?d" "lock_free L_cons ?d" "input ?t = input s"
    using s by (auto simp: con_reader_def running_def sl_drop_def cli_ok_def lock_free_def with_lock_def)
  obtain q where q: "consoleread_loop (nat (sint n)) n (Local bs) ?t w =
      Done (Some (unat n - Suc (length pre), Local (splice 0 (pre @ [10]) bs))) (?t\<lparr>input := q\<rparr>) w"
      "con_ok q" "con_ready q = rest" "con_line q = con_line (input s)"
    using consoleread_loop_line [of ?t pre rest "unat n" n bs w] q pre n d(3) unfolding k by auto
  let ?u = "?d\<lparr>input := q\<rparr>"
  have "running c p ?u" "sl_free ?L ?u" "1 \<le> ip_ref (icache ?u ip)" "ip_valid (icache ?u ip)"
    using s by (auto simp: con_reader_def sl_held_def sl_free_def sl_drop_def lock_free_def running_def cli_ok_def)
  then have "ilock ip ?u w = Done () (sl_take p ?L ?u) w" by (rule ilock_valid)
  moreover have "n - of_nat (unat n - Suc (length pre)) = of_nat (length pre + 1)"
    using pre(3) by (simp add: of_nat_diff)
  ultimately have "consoleread ip (Local bs) n s w =
      Done (of_nat (length pre + 1), Local (splice 0 (pre @ [10]) bs)) (sl_take p ?L ?u) w"
    unfolding consoleread_def kseq_done [of "iunlock ip", OF iunlock_own [OF s]] 
      critical_input [of c ?d "consoleread_loop (nat (sint n)) n (Local bs)" w, OF d(1,2) q(1)]
    using k(2) by simp
  then show ?thesis using q by (auto simp: sl_take_def con_text_def)
qed

section \<open>From the keys to the reader\<close>

lemma edit_nul: "edit 0 x = x"
  by (simp add: edit_def split: prod.split)

lemma fold_edit_filter: "fold edit cs x = fold edit (filter (\<lambda>c. c \<noteq> 0) cs) x"
  by (induction cs arbitrary: x) (simp_all add: edit_nul)

lemma fold_edit_plain:
  "\<forall>c \<in> set cs. 32 \<le> c \<and> c \<le> 126 \<Longrightarrow> length r + length l + length cs < INPUT_BUF \<Longrightarrow>
   fold edit cs (r, l) = (r, l @ map ucast cs)"
proof (induction cs arbitrary: l)
  case (Cons c cs)
  then have c: "c \<notin> {16, 21, 8, 0x7f, 0, 13, 10, 4}" by (auto simp: word_le_nat_alt)
  then have "edit c (r, l) = (r, l @ [ucast c])" using Cons.prems(2) by (simp add: edit_def)
  then show ?case using Cons by simp
qed simp

text \<open>An interrupt leaves a reader of the console able to read.\<close>

lemma con_reader_interrupt:
  assumes "con_reader c p ip s" "con_frame s t" "con_woken s t"
  shows "con_reader c p ip t"
proof -
  obtain pt q k u m x where t: "t = s\<lparr>ptable := pt, input := q, kbd_shift := k, uart_out := u, crt := m, crt_pos := x\<rparr>"
    using assms(2) by (auto simp: con_frame_def)
  have "pt = ptable s \<or> pt = upd_range 0 NPROC (woken (Some Ch_input)) (ptable s)"
    using assms(3) by (auto simp: con_woken_def t split: if_splits)
  moreover have "no_drowsy ch (s\<lparr>ptable := upd_range 0 NPROC (woken (Some Ch_input)) (ptable s)\<rparr>)" if "no_drowsy ch s" for ch
    using that by (rule no_drowsy_woken)
  ultimately show ?thesis
    using assms(1) unfolding con_reader_def sl_held_def t
    by (auto simp: running_def cli_ok_def lock_free_def no_drowsy_def upd_range_def woken_def)
qed

text \<open>C15. What is typed is what is read. A line of printable characters and a newline is typed on the
  keyboard, with the shift key held where a character needs it; the scan codes arrive with an interrupt.
  A process that then reads from the console gets exactly the bytes of the line with the newline, in
  order, with letters in the other case when the caps lock is on, and nothing is left for the next
  reader.\<close>

theorem typed_line_is_read:
  assumes s: "con_reader c p ip s" "con_inv s" "con_text s = ([], [])" "kbd_shift s = 0 \<or> kbd_shift s = CAPSLOCK"
    and line: "\<forall>c \<in> set line. printable c" "length line < 127" "dv_kbd dv = concat (map key_stroke (line @ [10]))"
    and n: "length line < unat n" "unat n < 2 ^ 31" "length bs = unat n"
  shows "\<exists>t u. kbdintr dv s w = Done () t w \<and>
    consoleread ip (Local bs) n t w = Done (of_nat (length line + 1),
      Local (map (\<lambda>c. ucast (caps (kbd_shift s) c)) line @ [10] @ drop (length line + 1) bs)) u w \<and>
    con_text u = ([], [])"
proof -
  let ?sh = "kbd_shift s" and ?chars = "kbd_chars (dv_kbd dv) (kbd_shift s)"
  let ?pre = "map (\<lambda>c. ucast (caps ?sh c)) line :: u8 list"
  have cp: "32 \<le> caps ?sh c \<and> caps ?sh c \<le> 126" if "c \<in> set line" for c using that line(1) caps_printable by blast
  have nz: "\<forall>c \<in> set (line @ [10]). caps ?sh c \<noteq> 0" using cp by (force simp: caps_newline)
  have f: "filter (\<lambda>x. x \<noteq> 0) ?chars = map (caps ?sh) line @ [10]"
    using text_strokes [of "line @ [10]" ?sh] line(1) s(4) nz by (simp add: line(3) caps_newline)
  have "16 \<notin> set (filter (\<lambda>x. x \<noteq> 0) ?chars)" unfolding f using cp by (force simp: word_le_nat_alt)
  then have no_dump: "16 \<notin> set ?chars" by simp
  have free: "cli_ok c s" "lock_free L_cons s" using s(1) by (simp_all add: con_reader_def running_def)
  obtain t where t: "kbdintr dv s w = Done () t w" "con_text t = fold edit ?chars (con_text s)" "con_inv t"
      "con_frame s t" "con_woken s t"
    using kbdintr_edits [OF free s(2) refl no_dump, of w] by blast
  have "fold edit (map (caps ?sh) line) ([], []) = ([], ?pre)"
    using cp line(2) fold_edit_plain [of "map (caps ?sh) line" "[]" "[]"] by (simp add: o_def)
  then have tt: "con_text t = (?pre @ [10], [])"
    unfolding t(2) s(3) fold_edit_filter [of ?chars] f using line(2) by (simp add: edit_def)
  have small: "ucast (caps ?sh c) \<noteq> (10 :: u8)" "ucast (caps ?sh c) \<noteq> (4 :: u8)" if "c \<in> set line" for c
    using cp [OF that] ucast8_eq [of "caps ?sh c" 10] ucast8_eq [of "caps ?sh c" 4] by (force simp: word_le_nat_alt word_less_nat_alt)+
  then have pre: "10 \<notin> set ?pre" "4 \<notin> set ?pre" by auto
  have "con_reader c p ip t" using s(1) t(4,5) by (rule con_reader_interrupt)
  then obtain u where "consoleread ip (Local bs) n t w = Done (of_nat (length ?pre + 1), Local (splice 0 (?pre @ [10]) bs)) u w"
      "con_text u = ([], con_line (input t))"
    using consoleread_line [of c p ip t ?pre "[]" n bs w] tt t(3) n pre by (auto simp: con_text_def con_inv_def)
  then show ?thesis using t(1) tt by (auto simp: con_text_def splice_def)
qed

text \<open>A kernel in which process 0 is about to read from the console through inode 1, whose lock it holds.\<close>

definition con_kernel :: kernel where
  "con_kernel = kernel0\<lparr>
     cpus := (\<lambda>_. cpu0\<lparr>c_proc := Some 0\<rparr>),
     slocks := (\<lambda>_. sleeplock0\<lparr>sl_locked := 1\<rparr>),
     icache := (\<lambda>_. inode0\<lparr>ip_ref := 1, ip_valid := True\<rparr>)\<rparr>"

lemma con_kernel_ok: "con_reader 0 0 1 con_kernel" "con_inv con_kernel" "con_text con_kernel = ([], [])" "kbd_shift con_kernel = 0"
  by (simp_all add: con_kernel_def con_reader_def running_def cli_ok_def cpu_index_def cpu0_def sl_held_def lock_free_def
      spinlock0_def sleeplock0_def no_drowsy_def proc0_def inode0_def con_inv_def con_ok_def con_ord_def con_line_def
      con_ready_def con_text_def input0_def)

definition kbd_dv :: "u8 list \<Rightarrow> device_input" where
  "kbd_dv bs = \<lparr>dv_kbd = bs, dv_uart = [], dv_cr2 = 0, dv_pcs = (\<lambda>_ _. [])\<rparr>"

theorem typed_line_is_read_witness:
  "\<exists>t u. kbdintr (kbd_dv (concat (map key_stroke [76, 115, 10]))) con_kernel [] = Done () t [] \<and>
     consoleread 1 (Local (replicate 10 0)) 10 t [] = Done (3, Local [76, 115, 10, 0, 0, 0, 0, 0, 0, 0]) u [] \<and>
     con_text u = ([], [])"
proof -
  let ?dv = "kbd_dv (concat (map key_stroke ([76, 115] @ [10])))" and ?bs = "replicate 10 0 :: u8 list"
  have "\<forall>c \<in> set [76, 115]. printable c" "length [76, 115 :: u8] < 127" "dv_kbd ?dv = concat (map key_stroke ([76, 115] @ [10]))"
      "length [76, 115 :: u8] < unat (10 :: u32)" "unat (10 :: u32) < 2 ^ 31" "length ?bs = unat (10 :: u32)"
    by (simp_all add: kbd_dv_def printable_def)
  note r = typed_line_is_read [OF con_kernel_ok(1-3) disjI1 [OF con_kernel_ok(4)] this, of "[]"]
  have "map (\<lambda>c. ucast (caps (kbd_shift con_kernel) c)) [76, 115] @ [10] @ drop (length [76, 115 :: u8] + 1) ?bs =
      [76, 115, 10, 0, 0, 0, 0, 0, 0, 0 :: u8]"
    unfolding con_kernel_ok by code_simp
  moreover have "(of_nat (length [76, 115 :: u8] + 1) :: u32) = 3" "[76, 115] @ [10] = [76, 115, 10 :: u8]" by simp_all
  ultimately show ?thesis using r by (simp only:)
qed

text \<open>The keys a, b, backspace and c: the line being edited is ac.\<close>

theorem console_line_editor_witness:
  "\<exists>t. kbdintr (kbd_dv [0x1E, 0x30, 0x0E, 0x2E]) con_kernel [] = Done () t [] \<and> con_text t = ([], [97, 99])"
proof -
  have c: "kbd_chars [0x1E, 0x30, 0x0E, 0x2E] 0 = [97, 98, 8, 99]" by code_simp
  show ?thesis
    using console_line_editor [of 0 con_kernel _ "kbd_dv [0x1E, 0x30, 0x0E, 0x2E]" "[]", OF _ _ _ refl] con_kernel_ok c
    by (simp add: kbd_dv_def edit_def con_reader_def running_def) blast
qed

end
