(* ===== verification/Spec2Isabelle.thy ===== *)
theory Spec2Isabelle
  imports Signal_Return Cas_Runs Log_Crash File_Props Vm_Props Pipe_Props Arg_Props Grep Uprintf Sh_Run Umalloc_Props Console_Props
begin

text \<open>
  A verification development for xv6 with signals and with process states that are changed by
  compare-and-swap instead of under a lock (the C files under \<^verbatim>\<open>src/\<close>).

  \<^bold>\<open>The program and how its parts interact.\<close> A trap (\<^verbatim>\<open>trapasm.S\<close>, \<^verbatim>\<open>trap.c\<close>) enters the kernel;
  a system call is dispatched by \<^verbatim>\<open>syscall.c\<close> to \<^verbatim>\<open>sysproc.c\<close> or \<^verbatim>\<open>sysfile.c\<close>. Processes, their
  states and their signals are in \<^verbatim>\<open>proc.c\<close>; they sleep and are woken on channels, under the locks of
  \<^verbatim>\<open>spinlock.c\<close> and \<^verbatim>\<open>sleeplock.c\<close>. Their memory is page tables (\<^verbatim>\<open>vm.c\<close>) over pages of \<^verbatim>\<open>kalloc.c\<close>.
  Files (\<^verbatim>\<open>file.c\<close>) are pipes (\<^verbatim>\<open>pipe.c\<close>), the console (\<^verbatim>\<open>console.c\<close>) or inodes (\<^verbatim>\<open>fs.c\<close>), whose
  blocks go through the log (\<^verbatim>\<open>log.c\<close>), the buffer cache (\<^verbatim>\<open>bio.c\<close>) and the disk driver (\<^verbatim>\<open>ide.c\<close>).
  On the way back to user space pending signals are delivered. User programs are separate.

  \<^bold>\<open>The model of the kernel.\<close> Kernel\_State has the structures of the headers as records and
  datatypes and the record \<open>kernel\<close> of all global data. Kernel\_Monad has the computations: a kernel
  function takes a kernel and a world, the moves of the rest of the system, and returns, panics or is
  stuck waiting. The world moves where the code waits: in a spin loop, in \<open>sched\<close>, in \<open>sleep\<close>. The
  definitions have the names of the C functions; a loop of a function is a definition of its own.
  The theories follow the files:

  \<^item> Prelude, Memory, Mmu, Bytes: integers, byte memory, \<^verbatim>\<open>mmu.h\<close>/\<^verbatim>\<open>memlayout.h\<close>, fields of blocks;
  \<^item> Cstring (\<^verbatim>\<open>string.c\<close>), Spinlock (\<^verbatim>\<open>spinlock.c\<close>), Kalloc (\<^verbatim>\<open>kalloc.c\<close>), Console\_Out (output half
    of \<^verbatim>\<open>console.c\<close>), Vm (\<^verbatim>\<open>vm.c\<close>);
  \<^item> Proc\_Sched, Proc\_Life, Signals (\<^verbatim>\<open>proc.c\<close>, \<^verbatim>\<open>sigretasm.S\<close>), Sleeplock (\<^verbatim>\<open>sleeplock.c\<close>);
  \<^item> Ide (\<^verbatim>\<open>ide.c\<close>), Bio (\<^verbatim>\<open>bio.c\<close>), Log (\<^verbatim>\<open>log.c\<close>), Fs and Fs\_Data (\<^verbatim>\<open>fs.c\<close>), Console (input half of
    \<^verbatim>\<open>console.c\<close>), Kbd (\<^verbatim>\<open>kbd.c\<close>, \<^verbatim>\<open>kbd.h\<close>), Pipe (\<^verbatim>\<open>pipe.c\<close>), File (\<^verbatim>\<open>file.c\<close>), Exec (\<^verbatim>\<open>exec.c\<close>);
  \<^item> Syscall\_Args and Trap (\<^verbatim>\<open>syscall.c\<close>, \<^verbatim>\<open>trap.c\<close>, \<^verbatim>\<open>trapasm.S\<close>), Sysproc (\<^verbatim>\<open>sysproc.c\<close>), Sysfile
    (\<^verbatim>\<open>sysfile.c\<close>).

  \<^bold>\<open>Models at a finer grain.\<close> Two protocols depend on what happens between single accesses, and have a
  step relation of their own beside the functional model. Cas\_Protocol has one step per access to a
  process state, every CPU a thread; Log\_Crash has one step per block written, with crashes.

  \<^bold>\<open>User programs.\<close> Ulib (\<^verbatim>\<open>ulib.c\<close>), Uprintf (\<^verbatim>\<open>printf.c\<close>), Grep (\<^verbatim>\<open>grep.c\<close>) are functions on strings.
  Umalloc (\<^verbatim>\<open>umalloc.c\<close>) works on the headers of the blocks of a heap. Sh (\<^verbatim>\<open>sh.c\<close>) has the parser on
  the command line as a string with positions, and \<open>runcmd\<close> as the tree of its system calls.

  \<^bold>\<open>What is shown.\<close>

  \<^item> Signals: delivery and \<open>sigret\<close> are a round trip but for \<open>eax\<close> (Signal\_Return); the built-in actions
    and \<open>SIGKILL\<close> (Signal\_Props); \<open>kill\<close> on every branch and stopped processes (Kill\_Props);
    \<open>sigaction\<close> and the argument checks (Arg\_Props).
  \<^item> Scheduling: with indivisible settling no process runs on two CPUs (Cas\_Protocol); with the three
    swaps of the source it can, \<open>wait\<close> and \<open>exit\<close> can block each other for ever, and a wakeup can be lost
    (Cas\_Runs); process ids are unique (Cas\_Runs); \<open>sleep\<close> and \<open>wakeup\<close> (Sched\_Props).
  \<^item> Locks: nesting of \<open>pushcli\<close>, mutual exclusion of \<open>acquire\<close> (Spinlock).
  \<^item> Memory: the free list as a list of pages (Kalloc, by the locale \<open>page_allocator\<close>); \<open>mappages\<close> as an
    update of a translation (Vm\_Props); \<open>memset\<close>, \<open>memmove\<close> and the string routines (Cstring).
  \<^item> The console: the input ring is a line editor, and a typed line is what a process reads
    (Console\_Props, with the decoder in Kbd\_Props and uncontended sleep locks in Sleeplock\_Props).
  \<^item> Files: a pipe is a bounded queue, by the locale \<open>bounded_queue\<close>, and its system calls move bytes in
    order (Pipe\_Props); reference counts (File\_Props); a transaction of the log is all or nothing through
    crashes, and when the log is too small (Log\_Crash).
  \<^item> The shell: the parser accepts the lines of a grammar and returns their tree (Sh\_Props); a command
    runs with the descriptors its line asks for and leaks none (Sh\_Run).
  \<^item> The user allocator: the free list keeps its order and its blocks apart, \<open>malloc\<close> and \<open>free\<close> return,
    a block handed out is not handed out again, neighbours are joined (Umalloc\_Props).
  \<^item> Programs: the matcher of \<open>grep\<close> decides its language, \<open>grep\<close> prints the matching lines (Grep);
    \<open>printf\<close> and \<open>atoi\<close> (Uprintf); \<open>printint\<close> of the kernel (Console\_Out).

  \<^bold>\<open>Bounds and fuel.\<close> A loop with a counter in the source is \<open>kfor\<close> or \<open>kfind\<close> with the bound of the
  source. A loop over pages, bytes or blocks is given one round per page, byte or block of its range and
  one for the last test; running out is \<open>Stuck\<close>, and the properties show a \<open>Done\<close> or \<open>Panic\<close>. A spin loop
  takes one move of the world per round and is stuck when the world ends, which stands for spinning for
  ever; the properties about waiting name the world they need. The parser of the shell has fuel
  \<open>4 * length + 4\<close>, which is shown to be enough for every line. The loops of the user allocator are
  partial functions, and are shown to return on every well-formed heap.

  \<^bold>\<open>Not modelled.\<close> The boot loader and start-up in assembly (\<^verbatim>\<open>bootasm.S\<close>, \<^verbatim>\<open>bootmain.c\<close>, \<^verbatim>\<open>entry.S\<close>,
  \<^verbatim>\<open>entryother.S\<close>, \<^verbatim>\<open>initcode.S\<close>), \<open>main\<close> and \<open>startothers\<close>, and the interrupt controllers and the
  multiprocessor tables (\<^verbatim>\<open>lapic.c\<close>, \<^verbatim>\<open>ioapic.c\<close>, \<^verbatim>\<open>picirq.c\<close>, \<^verbatim>\<open>mp.c\<close>): they program hardware whose
  behaviour is not in the sources. \<^verbatim>\<open>memide.c\<close> is a second disk driver that is not linked. The programs that make the disk image
  and the trap vectors (\<^verbatim>\<open>mkfs.c\<close>, \<^verbatim>\<open>vectors.pl\<close>) run on the host. \<open>seginit\<close>
  and the descriptors of \<^verbatim>\<open>mmu.h\<close> are processor set-up. \<^verbatim>\<open>usertests.c\<close>, \<^verbatim>\<open>test.c\<close>, \<^verbatim>\<open>stressfs.c\<close> and
  \<^verbatim>\<open>forktest.c\<close> are tests; the remaining user programs only string system calls together.
  \<open>getcallerpcs\<close> records return addresses for debugging.
\<close>

end
